(* ===== verification/Dray_Prelude.thy ===== *)
theory Dray_Prelude
  imports Main "HOL-Library.Word"
begin

text \<open>
  What every component of the development shares: the names of the machine integers, the
  Rust \<open>Result\<close> as a sum (\<open>Inl\<close> the error, \<open>Inr\<close> the value) with its \<open>?\<close> operator, the
  saturating and checked operations of the standard library on unsigned words, and the
  collections of facts the component proofs are stated with.
\<close>

section \<open>Machine integers\<close>

type_synonym u8 = "8 word"
type_synonym u32 = "32 word"
type_synonym u64 = "64 word"
type_synonym u128 = "128 word"

text \<open>
  Rust's \<open>String\<close> and \<open>&str\<close> are sequences of UTF-8 bytes, and so is \<^typ>\<open>string\<close>: a \<^typ>\<open>char\<close> is a
  byte. Byte vectors use the same type under their own name.
\<close>

type_synonym bytes = string

abbreviation u32_max :: nat where "u32_max \<equiv> 2 ^ 32 - 1"
abbreviation u64_max :: nat where "u64_max \<equiv> 2 ^ 64 - 1"
abbreviation u128_max :: nat where "u128_max \<equiv> 2 ^ 128 - 1"
abbreviation i32_max :: int where "i32_max \<equiv> 2 ^ 31 - 1"
abbreviation i32_min :: int where "i32_min \<equiv> - (2 ^ 31)"
abbreviation i64_max :: int where "i64_max \<equiv> 2 ^ 63 - 1"
abbreviation i64_min :: int where "i64_min \<equiv> - (2 ^ 63)"

section \<open>Collections of facts\<close>

named_theorems unat_ops \<open>saturating operations on words, read as natural numbers\<close>
named_theorems res_iff \<open>when a chain of fallible steps returns a value\<close>

section \<open>Saturating and checked arithmetic\<close>

definition saturating_add :: "'a::len word \<Rightarrow> 'a word \<Rightarrow> 'a word" where
  "saturating_add a b = (if unat a + unat b < 2 ^ LENGTH('a) then a + b else - 1)"

definition saturating_sub :: "'a::len word \<Rightarrow> 'a word \<Rightarrow> 'a word" where
  "saturating_sub a b = (if b \<le> a then a - b else 0)"

definition saturating_mul :: "'a::len word \<Rightarrow> 'a word \<Rightarrow> 'a word" where
  "saturating_mul a b = (if unat a * unat b < 2 ^ LENGTH('a) then a * b else - 1)"

definition checked_div :: "'a::len word \<Rightarrow> 'a word \<Rightarrow> 'a word option" where
  "checked_div a b = (if b = 0 then None else Some (a div b))"

lemma unat_max_value: "unat (- 1 :: 'a::len word) = 2 ^ LENGTH('a) - 1"
  by transfer (simp add: take_bit_minus_one_eq_mask mask_eq_exp_minus_1 nat_diff_distrib nat_power_eq)

lemma unat_saturating_add [unat_ops]:
  "unat (saturating_add a (b :: 'a::len word)) = min (unat a + unat b) (2 ^ LENGTH('a) - 1)"
  by (auto simp: saturating_add_def unat_word_ariths unat_max_value)

lemma unat_saturating_sub [unat_ops]:
  "unat (saturating_sub a b) = unat a - unat b"
  by (auto simp: saturating_sub_def unat_sub_if' word_le_nat_alt)

lemma unat_saturating_mul [unat_ops]:
  "unat (saturating_mul a (b :: 'a::len word)) = min (unat a * unat b) (2 ^ LENGTH('a) - 1)"
  by (auto simp: saturating_mul_def unat_word_ariths unat_max_value)

lemma unat_div_word [unat_ops]: "unat ((a :: 'a::len word) div b) = unat a div unat b"
  by (rule unat_div)

lemma unat_min_word [unat_ops]: "unat (min a b) = min (unat a) (unat b)"
  by (simp add: min_def word_le_nat_alt)

lemma unat_max_word [unat_ops]: "unat (max a b) = max (unat a) (unat b)"
  by (simp add: max_def word_le_nat_alt)

section \<open>The \<open>?\<close> operator\<close>

text \<open>\<open>and_then r f\<close> is \<open>f(r?)\<close>: an error ends the function, a value goes on.\<close>

definition and_then :: "'e + 'a \<Rightarrow> ('a \<Rightarrow> 'e + 'b) \<Rightarrow> 'e + 'b" where
  "and_then r f = (case r of Inl e \<Rightarrow> Inl e | Inr x \<Rightarrow> f x)"

definition ok_or :: "'a option \<Rightarrow> 'e \<Rightarrow> 'e + 'a" where
  "ok_or x e = (case x of None \<Rightarrow> Inl e | Some y \<Rightarrow> Inr y)"

definition require :: "bool \<Rightarrow> 'e \<Rightarrow> 'e + unit" where
  "require b e = (if b then Inr () else Inl e)"

definition map_err :: "('e \<Rightarrow> 'f) \<Rightarrow> 'e + 'a \<Rightarrow> 'f + 'a" where
  "map_err f r = (case r of Inl e \<Rightarrow> Inl (f e) | Inr x \<Rightarrow> Inr x)"

lemma and_then_simps [simp]:
  "and_then (Inl e) f = Inl e"
  "and_then (Inr x) f = f x"
  by (simp_all add: and_then_def)

lemma ok_or_simps [simp]:
  "ok_or None e = Inl e"
  "ok_or (Some x) e = Inr x"
  by (simp_all add: ok_or_def)

lemma require_simps [simp]:
  "require True e = Inr ()"
  "require False e = Inl e"
  by (simp_all add: require_def)

lemma map_err_simps [simp]:
  "map_err f (Inl e) = Inl (f e)"
  "map_err f (Inr x) = Inr x"
  by (simp_all add: map_err_def)

lemma and_then_Inr [res_iff]:
  "and_then r f = Inr y \<longleftrightarrow> (\<exists>x. r = Inr x \<and> f x = Inr y)"
  by (cases r) auto

lemma and_then_Inl [res_iff]:
  "and_then r f = Inl e \<longleftrightarrow> r = Inl e \<or> (\<exists>x. r = Inr x \<and> f x = Inl e)"
  by (cases r) auto

lemma ok_or_Inr [res_iff]: "ok_or m e = Inr x \<longleftrightarrow> m = Some x"
  by (cases m) auto

lemma ok_or_Inl [res_iff]: "ok_or m e = Inl e' \<longleftrightarrow> m = None \<and> e' = e"
  by (cases m) auto

lemma require_Inr [res_iff]: "require b e = Inr u \<longleftrightarrow> b"
  by (cases b) auto

lemma require_Inl [res_iff]: "require b e = Inl e' \<longleftrightarrow> \<not> b \<and> e' = e"
  by (cases b) auto

lemma map_err_Inr [res_iff]: "map_err f r = Inr x \<longleftrightarrow> r = Inr x"
  by (cases r) auto

lemma map_err_Inl [res_iff]: "map_err f r = Inl e' \<longleftrightarrow> (\<exists>e. r = Inl e \<and> e' = f e)"
  by (cases r) auto

section \<open>Tables as lists\<close>

text \<open>
  A database table is the list of its rows in storage order. Updating the rows that satisfy a
  condition is a \<^const>\<open>map\<close>; these facts say what it keeps.
\<close>

definition update_where :: "('a \<Rightarrow> bool) \<Rightarrow> ('a \<Rightarrow> 'a) \<Rightarrow> 'a list \<Rightarrow> 'a list" where
  "update_where p f xs = map (\<lambda>x. if p x then f x else x) xs"

lemma update_where_simps [simp]:
  "update_where p f [] = []"
  "update_where p f (x # xs) = (if p x then f x else x) # update_where p f xs"
  by (simp_all add: update_where_def)

lemma length_update_where [simp]: "length (update_where p f xs) = length xs"
  by (simp add: update_where_def)

lemma set_update_where:
  "set (update_where p f xs) = (f ` {x \<in> set xs. p x}) \<union> {x \<in> set xs. \<not> p x}"
  by (induction xs) auto

lemma map_update_where_same:
  "(\<And>x. p x \<Longrightarrow> g (f x) = g x) \<Longrightarrow> map g (update_where p f xs) = map g xs"
  by (induction xs) auto

lemma update_where_id: "(\<And>x. x \<in> set xs \<Longrightarrow> \<not> p x) \<Longrightarrow> update_where p f xs = xs"
  by (induction xs) auto

lemma find_update_where_other:
  "(\<And>x. p x \<Longrightarrow> q (f x) = q x) \<Longrightarrow> (\<And>x. q x \<Longrightarrow> \<not> p x) \<Longrightarrow>
   find q (update_where p f xs) = find q xs"
  by (induction xs) auto

lemma find_update_where_hit:
  "(\<And>x. p x \<Longrightarrow> p (f x)) \<Longrightarrow> find p (update_where p f xs) = map_option f (find p xs)"
  by (induction xs) auto

lemma find_append_rows: "find p (xs @ ys) = (case find p xs of None \<Rightarrow> find p ys | Some x \<Rightarrow> Some x)"
  by (induction xs) auto

lemma find_SomeD: "find p xs = Some x \<Longrightarrow> x \<in> set xs \<and> p x"
  by (induction xs) (auto split: if_splits)

lemma find_None_set: "find p xs = None \<longleftrightarrow> (\<forall>x \<in> set xs. \<not> p x)"
  by (induction xs) auto

section \<open>Runs that keep a property\<close>

text \<open>
  The contract every state machine of the development is used under: a step that never leaves the
  set of states where \<open>inv\<close> holds. What a run of any length keeps is proved once here.
\<close>

locale preserved =
  fixes step :: "'s \<Rightarrow> 'l \<Rightarrow> 's"
    and inv :: "'s \<Rightarrow> bool"
  assumes step_inv: "inv s \<Longrightarrow> inv (step s l)"
begin

lemma run_inv: "inv s \<Longrightarrow> inv (foldl step s ls)"
  by (induction ls arbitrary: s) (auto intro: step_inv)

lemma run_inv_prefix: "inv s \<Longrightarrow> inv (foldl step s (take n ls))"
  by (rule run_inv)

end

end
