(* ===== verification/Job.thy ===== *)
theory Job
  imports Dray_Prelude
begin

text \<open>
  The job state machine of \<open>crates/dray-core/src/job.rs\<close>: the states and events, their stable
  names, the transition table, and the retry policy. \<open>S_\<close> and \<open>E_\<close> stand for the aliases
  \<open>JobState as S\<close> and \<open>JobEvent as E\<close> the source opens in \<open>transition\<close>.
\<close>

section \<open>States and events\<close>

datatype job_state =
    S_Queued | S_Leased | S_Proving | S_Proved | S_Submitting | S_Settled | S_Failed | S_Rejected

definition all_states :: "job_state list" where
  "all_states =
     [S_Queued, S_Leased, S_Proving, S_Proved, S_Submitting, S_Settled, S_Failed, S_Rejected]"

fun is_terminal :: "job_state \<Rightarrow> bool" where
  "is_terminal S_Failed = True"
| "is_terminal S_Rejected = True"
| "is_terminal _ = False"

fun is_in_flight :: "job_state \<Rightarrow> bool" where
  "is_in_flight S_Leased = True"
| "is_in_flight S_Proving = True"
| "is_in_flight S_Submitting = True"
| "is_in_flight _ = False"

fun state_as_str :: "job_state \<Rightarrow> string" where
  "state_as_str S_Queued = ''queued''"
| "state_as_str S_Leased = ''leased''"
| "state_as_str S_Proving = ''proving''"
| "state_as_str S_Proved = ''proved''"
| "state_as_str S_Submitting = ''submitting''"
| "state_as_str S_Settled = ''settled''"
| "state_as_str S_Failed = ''failed''"
| "state_as_str S_Rejected = ''rejected''"

datatype unknown_job_state = UnknownJobState string

text \<open>\<open>FromStr\<close>: the first state whose name is the text, or the text as the error.\<close>

definition state_from_str :: "string \<Rightarrow> unknown_job_state + job_state" where
  "state_from_str s = ok_or (find (\<lambda>st. state_as_str st = s) all_states) (UnknownJobState s)"

datatype job_event =
    E_Leased | E_ProvingStarted | E_ProofSucceeded | E_SubmissionStarted | E_SettlementConfirmed
  | E_LeaseExpired | E_RetryScheduled | E_AttemptsExhausted | E_PermanentlyFailed
  | E_ValidationRejected | E_Reorged

definition all_events :: "job_event list" where
  "all_events =
     [E_Leased, E_ProvingStarted, E_ProofSucceeded, E_SubmissionStarted, E_SettlementConfirmed,
      E_LeaseExpired, E_RetryScheduled, E_AttemptsExhausted, E_PermanentlyFailed,
      E_ValidationRejected, E_Reorged]"

fun event_as_str :: "job_event \<Rightarrow> string" where
  "event_as_str E_Leased = ''leased''"
| "event_as_str E_ProvingStarted = ''proving_started''"
| "event_as_str E_ProofSucceeded = ''proof_succeeded''"
| "event_as_str E_SubmissionStarted = ''submission_started''"
| "event_as_str E_SettlementConfirmed = ''settlement_confirmed''"
| "event_as_str E_LeaseExpired = ''lease_expired''"
| "event_as_str E_RetryScheduled = ''retry_scheduled''"
| "event_as_str E_AttemptsExhausted = ''attempts_exhausted''"
| "event_as_str E_PermanentlyFailed = ''permanently_failed''"
| "event_as_str E_ValidationRejected = ''validation_rejected''"
| "event_as_str E_Reorged = ''reorged''"

section \<open>Transitions\<close>

datatype illegal_transition = IllegalTransition job_state job_event

text \<open>The arms of the source's \<open>match\<close>, in its order; the last one is its wildcard.\<close>

fun transition :: "job_state \<Rightarrow> job_event \<Rightarrow> illegal_transition + job_state" where
  "transition S_Queued E_Leased = Inr S_Leased"
| "transition S_Leased E_ProvingStarted = Inr S_Proving"
| "transition S_Proving E_ProofSucceeded = Inr S_Proved"
| "transition S_Proved E_SubmissionStarted = Inr S_Submitting"
| "transition S_Submitting E_SettlementConfirmed = Inr S_Settled"
| "transition S_Leased E_LeaseExpired = Inr S_Queued"
| "transition S_Proving E_LeaseExpired = Inr S_Queued"
| "transition S_Queued E_RetryScheduled = Inr S_Queued"
| "transition S_Leased E_RetryScheduled = Inr S_Queued"
| "transition S_Proving E_RetryScheduled = Inr S_Queued"
| "transition S_Proved E_RetryScheduled = Inr S_Proved"
| "transition S_Submitting E_RetryScheduled = Inr S_Proved"
| "transition S_Queued E_AttemptsExhausted = Inr S_Failed"
| "transition S_Leased E_AttemptsExhausted = Inr S_Failed"
| "transition S_Proving E_AttemptsExhausted = Inr S_Failed"
| "transition S_Proved E_AttemptsExhausted = Inr S_Failed"
| "transition S_Submitting E_AttemptsExhausted = Inr S_Failed"
| "transition S_Queued E_PermanentlyFailed = Inr S_Failed"
| "transition S_Leased E_PermanentlyFailed = Inr S_Failed"
| "transition S_Proving E_PermanentlyFailed = Inr S_Failed"
| "transition S_Proved E_PermanentlyFailed = Inr S_Failed"
| "transition S_Submitting E_PermanentlyFailed = Inr S_Failed"
| "transition S_Queued E_ValidationRejected = Inr S_Rejected"
| "transition S_Settled E_Reorged = Inr S_Proved"
| "transition s e = Inl (IllegalTransition s e)"

definition can_transition :: "job_state \<Rightarrow> job_event \<Rightarrow> bool" where
  "can_transition s e = (case transition s e of Inr _ \<Rightarrow> True | Inl _ \<Rightarrow> False)"

section \<open>Retry policy\<close>

datatype failure_kind = Transient | Permanent

fun classify_failure :: "failure_kind \<Rightarrow> u32 \<Rightarrow> u32 \<Rightarrow> job_event" where
  "classify_failure Permanent attempts max_attempts = E_PermanentlyFailed"
| "classify_failure Transient attempts max_attempts =
     (if max_attempts \<le> attempts then E_AttemptsExhausted else E_RetryScheduled)"

section \<open>Sequences of events\<close>

text \<open>
  The driver of the property tests (\<open>crates/dray-core/tests/state_machine_properties.rs\<close>): events
  that are illegal in the current state are ignored, which is what a caller that lost a race does.
\<close>

definition try_event :: "job_state \<Rightarrow> job_event \<Rightarrow> job_state" where
  "try_event s e = (case transition s e of Inr t \<Rightarrow> t | Inl _ \<Rightarrow> s)"

definition run :: "job_state \<Rightarrow> job_event list \<Rightarrow> job_state" where
  "run start events = foldl try_event start events"

lemma run_Nil [simp]: "run s [] = s"
  by (simp add: run_def)

lemma run_Cons [simp]: "run s (e # es) = run (try_event s e) es"
  by (simp add: run_def)

lemma run_append: "run s (es @ es') = run (run s es) es'"
  by (simp add: run_def)

section \<open>Facts about one transition\<close>

text \<open>The states whose job owns a valid proof.\<close>

definition past_proving :: "job_state \<Rightarrow> bool" where
  "past_proving s \<longleftrightarrow> s \<in> {S_Proved, S_Submitting, S_Settled}"

lemma past_proving_simps [simp]:
  "past_proving S_Proved" "past_proving S_Submitting" "past_proving S_Settled"
  "\<not> past_proving S_Queued" "\<not> past_proving S_Leased" "\<not> past_proving S_Proving"
  "\<not> past_proving S_Failed" "\<not> past_proving S_Rejected"
  by (simp_all add: past_proving_def)

lemma transition_error: "transition s e = Inl err \<Longrightarrow> err = IllegalTransition s e"
  by (cases s; cases e) auto

lemma transition_terminal: "is_terminal s \<Longrightarrow> transition s e = Inl (IllegalTransition s e)"
  by (cases s) auto

lemma transition_keeps_proof:
  "transition s e = Inr t \<Longrightarrow> past_proving s \<Longrightarrow> past_proving t \<or> t = S_Failed"
  by (cases s; cases e) auto

lemma transition_makes_proof:
  "transition s e = Inr t \<Longrightarrow> past_proving t \<Longrightarrow> past_proving s \<or> s = S_Proving \<and> e = E_ProofSucceeded"
  by (cases s; cases e) auto

lemma transition_in_flight:
  "transition s e = Inr t \<Longrightarrow> is_in_flight t \<Longrightarrow>
   (s, e, t) \<in> {(S_Queued, E_Leased, S_Leased), (S_Leased, E_ProvingStarted, S_Proving),
               (S_Proved, E_SubmissionStarted, S_Submitting)}"
  by (cases s; cases e) auto

lemma find_as_str: "find (\<lambda>st. state_as_str st = state_as_str s) all_states = Some s"
  by (cases s) (simp_all add: all_states_def)

lemma set_all_states [simp]: "s \<in> set all_states"
  by (cases s) (simp_all add: all_states_def)

lemma set_all_events [simp]: "e \<in> set all_events"
  by (cases e) (simp_all add: all_events_def)

text \<open>\<open>JobState::ALL\<close> and \<open>JobEvent::ALL\<close> list everything, so a statement about all of them can be run.\<close>

instantiation job_state :: enum
begin

definition enum_job_state :: "job_state list" where
  "enum_job_state = all_states"

definition enum_all_job_state :: "(job_state \<Rightarrow> bool) \<Rightarrow> bool" where
  "enum_all_job_state P = list_all P all_states"

definition enum_ex_job_state :: "(job_state \<Rightarrow> bool) \<Rightarrow> bool" where
  "enum_ex_job_state P = list_ex P all_states"

instance
  by standard
    (auto simp: enum_job_state_def enum_all_job_state_def enum_ex_job_state_def list_all_iff list_ex_iff,
      simp add: all_states_def)

end

instantiation job_event :: enum
begin

definition enum_job_event :: "job_event list" where
  "enum_job_event = all_events"

definition enum_all_job_event :: "(job_event \<Rightarrow> bool) \<Rightarrow> bool" where
  "enum_all_job_event P = list_all P all_events"

definition enum_ex_job_event :: "(job_event \<Rightarrow> bool) \<Rightarrow> bool" where
  "enum_ex_job_event P = list_ex P all_events"

instance
  by standard
    (auto simp: enum_job_event_def enum_all_job_event_def enum_ex_job_event_def list_all_iff list_ex_iff,
      simp add: all_events_def)

end

text \<open>The shape of the machine, by running over all states and events.\<close>

lemma only_settled_accepts_reorgs: "\<forall>s. can_transition s E_Reorged \<longleftrightarrow> s = S_Settled"
  by code_simp

lemma three_ways_into_flight:
  "\<forall>s e. (case transition s e of Inr t \<Rightarrow> is_in_flight t | Inl _ \<Rightarrow> False) \<longrightarrow>
     e \<in> {E_Leased, E_ProvingStarted, E_SubmissionStarted}"
  by code_simp

lemma classify_failure_cases:
  "classify_failure k a m = E_PermanentlyFailed \<longleftrightarrow> k = Permanent"
  "classify_failure k a m = E_AttemptsExhausted \<longleftrightarrow> k = Transient \<and> m \<le> a"
  "classify_failure k a m = E_RetryScheduled \<longleftrightarrow> k = Transient \<and> a < m"
  by (cases k; auto)+

lemma classify_failure_range:
  "classify_failure k a m \<in> {E_PermanentlyFailed, E_AttemptsExhausted, E_RetryScheduled}"
  by (cases k) auto

text \<open>Two sets of states no event leaves: those that own a proof (or failed), and each terminal one.\<close>

interpretation proof_kept: preserved try_event "\<lambda>s. past_proving s \<or> s = S_Failed"
  by unfold_locales
     (auto simp: try_event_def transition_terminal split: sum.splits dest: transition_keeps_proof)

interpretation terminal_kept: preserved try_event "\<lambda>s. is_terminal t \<and> s = t" for t
  by unfold_locales (auto simp: try_event_def transition_terminal split: sum.splits)

section \<open>Properties\<close>

text \<open>The table of legal transitions, as the unit tests of \<open>job.rs\<close> spell it out longhand.\<close>

definition legal_table :: "(job_state \<times> job_event \<times> job_state) list" where
  "legal_table =
     [(S_Queued, E_Leased, S_Leased),
      (S_Queued, E_RetryScheduled, S_Queued),
      (S_Queued, E_AttemptsExhausted, S_Failed),
      (S_Queued, E_PermanentlyFailed, S_Failed),
      (S_Queued, E_ValidationRejected, S_Rejected),
      (S_Leased, E_ProvingStarted, S_Proving),
      (S_Leased, E_LeaseExpired, S_Queued),
      (S_Leased, E_RetryScheduled, S_Queued),
      (S_Leased, E_AttemptsExhausted, S_Failed),
      (S_Leased, E_PermanentlyFailed, S_Failed),
      (S_Proving, E_ProofSucceeded, S_Proved),
      (S_Proving, E_LeaseExpired, S_Queued),
      (S_Proving, E_RetryScheduled, S_Queued),
      (S_Proving, E_AttemptsExhausted, S_Failed),
      (S_Proving, E_PermanentlyFailed, S_Failed),
      (S_Proved, E_SubmissionStarted, S_Submitting),
      (S_Proved, E_RetryScheduled, S_Proved),
      (S_Proved, E_AttemptsExhausted, S_Failed),
      (S_Proved, E_PermanentlyFailed, S_Failed),
      (S_Submitting, E_SettlementConfirmed, S_Settled),
      (S_Submitting, E_RetryScheduled, S_Proved),
      (S_Submitting, E_AttemptsExhausted, S_Failed),
      (S_Submitting, E_PermanentlyFailed, S_Failed),
      (S_Settled, E_Reorged, S_Proved)]"

text \<open>
  \<open>transition\<close> is exactly the independent table of 24 legal transitions: a pair gives the
  state the table names, and every pair the table does not name is the error carrying that pair.
\<close>
theorem transition_is_legal_table:
  "(transition s e = Inr t \<longleftrightarrow> (s, e, t) \<in> set legal_table) \<and>
   (transition s e = Inl err \<longleftrightarrow>
      err = IllegalTransition s e \<and> (\<forall>u. (s, e, u) \<notin> set legal_table))"
  by (cases s; cases e) (auto simp: legal_table_def)

text \<open>
  The stable names are unambiguous: a text parses as a state exactly when it is that
  state's name, and any other text is refused with itself as the error.
\<close>

theorem state_names_round_trip:
  "(state_from_str x = Inr s \<longleftrightarrow> x = state_as_str s) \<and>
   (state_from_str x = Inl e \<longleftrightarrow> x \<notin> range state_as_str \<and> e = UnknownJobState x)"
  by (auto simp: state_from_str_def res_iff find_as_str find_None_set dest: find_SomeD)

text \<open>
  Claim C23. A finished proof is never thrown away: once a job is proved, no sequence of events
  brings it back to a state that would prove it again; it stays proved, moves on, or fails. And no
  job gets there without a \<open>ProofSucceeded\<close> event.
\<close>
theorem proof_never_discarded:
  "(past_proving s \<longrightarrow> past_proving (run s es) \<or> run s es = S_Failed) \<and>
   (past_proving (run S_Queued es) \<longrightarrow> E_ProofSucceeded \<in> set es)"
proof -
  have "past_proving (run s' es) \<Longrightarrow> \<not> past_proving s' \<Longrightarrow> E_ProofSucceeded \<in> set es" for s'
  proof (induction es arbitrary: s')
    case (Cons e es)
    then show ?case
      by (auto simp: try_event_def split: sum.splits dest: transition_makes_proof)
  qed simp
  then show ?thesis
    using proof_kept.run_inv [of s es] by (auto simp: run_def)
qed

theorem proof_never_discarded_witness:
  "past_proving (run S_Proved [E_SubmissionStarted, E_RetryScheduled])
     \<and> E_ProofSucceeded \<in> set [E_Leased, E_ProvingStarted, E_ProofSucceeded]"
  using proof_never_discarded [of S_Proved "[E_SubmissionStarted, E_RetryScheduled]"]
    proof_never_discarded [of S_Proved "[E_Leased, E_ProvingStarted, E_ProofSucceeded]"]
  by (simp add: try_event_def)

text \<open>
  No job can get stuck and none is revived: the terminal states are exactly those that
  accept no event, a terminal state absorbs every sequence of events, every state is reachable from
  \<open>Queued\<close>, and from every state some sequence of at most two events ends in a terminal state.
\<close>
theorem no_dead_ends:
  "(is_terminal s \<longleftrightarrow> (\<forall>e. \<not> can_transition s e)) \<and>
   (is_terminal s \<longrightarrow> run s es = s) \<and>
   (\<exists>es'. run S_Queued es' = s) \<and>
   (\<exists>es'. length es' \<le> 2 \<and> is_terminal (run s es'))"
proof (intro conjI impI)
  show "is_terminal s \<longleftrightarrow> (\<forall>e. \<not> can_transition s e)"
  proof (cases "is_terminal s")
    case False
    then have "can_transition s E_PermanentlyFailed \<or> can_transition s E_Reorged"
      by (cases s) (auto simp: can_transition_def)
    with False show ?thesis by blast
  qed (simp add: can_transition_def transition_terminal)
next
  assume "is_terminal s"
  then show "run s es = s"
    using terminal_kept.run_inv [of s s es] by (simp add: run_def)
next
  let ?path = "[E_Leased, E_ProvingStarted, E_ProofSucceeded, E_SubmissionStarted, E_SettlementConfirmed]"
  have "\<exists>es' \<in> {[], take 1 ?path, take 2 ?path, take 3 ?path, take 4 ?path, ?path,
      [E_PermanentlyFailed], [E_ValidationRejected]}. run S_Queued es' = s"
    by (cases s) (simp_all add: try_event_def)
  then show "\<exists>es'. run S_Queued es' = s" by blast
next
  have "is_terminal (run s (if s = S_Settled then [E_Reorged, E_PermanentlyFailed]
      else if is_terminal s then [] else [E_PermanentlyFailed]))"
    by (cases s) (simp_all add: try_event_def)
  then show "\<exists>es'. length es' \<le> 2 \<and> is_terminal (run s es')"
    by (intro exI conjI) (auto split: if_splits)
qed

theorem no_dead_ends_witness:
  "run S_Failed [E_Leased, E_RetryScheduled] = S_Failed"
  using no_dead_ends [of S_Failed "[E_Leased, E_RetryScheduled]"] by simp

end
