(* ===== verification/Rust_Std.thy ===== *)
theory Rust_Std
  imports Dray_Prelude "HOL-Library.List_Lexorder" "HOL-Library.Char_ord" "HOL-Library.Sublist"
    "HOL-Library.Multiset"
begin

text \<open>
  The parts of the Rust standard library several components use: decimal and hexadecimal
  formatting, ASCII case folding, substring search, and \<open>BTreeMap\<close> insertion over string keys.
  The order on strings is the byte-wise lexicographic one, as \<open>Ord for str\<close> is.
\<close>

section \<open>Digits\<close>

definition digit_char :: "nat \<Rightarrow> char" where
  "digit_char d = char_of (48 + d)"

definition is_digit :: "char \<Rightarrow> bool" where
  "is_digit c \<longleftrightarrow> 48 \<le> (of_char c :: nat) \<and> (of_char c :: nat) \<le> 57"

definition digit_value :: "char \<Rightarrow> nat" where
  "digit_value c = of_char c - 48"

text \<open>\<open>{:x}\<close> of a nibble.\<close>

definition hex_char :: "nat \<Rightarrow> char" where
  "hex_char d = char_of (if d < 10 then 48 + d else 87 + d)"

definition hex_value :: "char \<Rightarrow> nat" where
  "hex_value c = (let n = of_char c in if n < 58 then n - 48 else n - 87)"

text \<open>\<open>{:02x}\<close> of every byte, concatenated.\<close>

definition hex_byte :: "char \<Rightarrow> string" where
  "hex_byte c = [hex_char (of_char c div 16), hex_char (of_char c mod 16)]"

definition hex_encode :: "bytes \<Rightarrow> string" where
  "hex_encode bs = concat (map hex_byte bs)"

fun hex_decode :: "string \<Rightarrow> bytes" where
  "hex_decode (a # b # r) = char_of (16 * hex_value a + hex_value b) # hex_decode r"
| "hex_decode _ = []"

lemma of_char_less_256 [simp]: "(of_char c :: nat) < 256"
  using of_char_mod_256 [where ?'a = nat and c = c] mod_less_divisor [of 256 "of_char c :: nat"] by simp

lemma of_char_digit_char [simp]: "d < 10 \<Longrightarrow> of_char (digit_char d) = 48 + d"
  by (simp add: digit_char_def)

lemma is_digit_digit_char [simp]: "d < 10 \<Longrightarrow> is_digit (digit_char d)"
  by (simp add: is_digit_def)

lemma digit_value_digit_char [simp]: "d < 10 \<Longrightarrow> digit_value (digit_char d) = d"
  by (simp add: digit_value_def)

lemma of_char_hex_char: "d < 16 \<Longrightarrow> of_char (hex_char d) = (if d < 10 then 48 + d else 87 + d)"
  by (simp add: hex_char_def)

lemma hex_value_hex_char [simp]: "d < 16 \<Longrightarrow> hex_value (hex_char d) = d"
  by (simp add: hex_value_def of_char_hex_char Let_def)

lemma hex_round: "d < 256 \<Longrightarrow> 16 * hex_value (hex_char (d div 16)) + hex_value (hex_char (d mod 16)) = d"
  by (simp add: less_mult_imp_div_less)

lemma hex_decode_encode [simp]: "hex_decode (hex_encode bs) = bs"
proof (induction bs)
  case (Cons b bs)
  then show ?case
    using hex_round [of "of_char b"] by (simp add: hex_encode_def hex_byte_def)
qed (simp add: hex_encode_def)

lemma length_hex_encode [simp]: "length (hex_encode bs) = 2 * length bs"
  by (induction bs) (simp_all add: hex_encode_def hex_byte_def)

section \<open>Decimal integers\<close>

text \<open>\<open>to_string\<close> of an unsigned and of a signed integer.\<close>

fun dec :: "nat \<Rightarrow> string" where
  "dec n = (if n < 10 then [digit_char n] else dec (n div 10) @ [digit_char (n mod 10)])"

declare dec.simps [simp del]

definition dec_int :: "int \<Rightarrow> string" where
  "dec_int i = (if i < 0 then CHR ''-'' # dec (nat (- i)) else dec (nat i))"

definition undec :: "string \<Rightarrow> nat" where
  "undec s = foldl (\<lambda>acc c. 10 * acc + digit_value c) 0 s"

lemma dec_digits: "c \<in> set (dec n) \<Longrightarrow> is_digit c"
  by (induction n rule: dec.induct) (subst (asm) (2) dec.simps, auto split: if_splits)

lemma dec_nonempty [simp]: "dec n \<noteq> []"
  by (subst dec.simps) simp

lemma undec_dec [simp]: "undec (dec n) = n"
proof (induction n rule: dec.induct)
  case (1 n)
  then show ?case
    by (subst dec.simps) (auto simp: undec_def)
qed

lemma dec_inject [simp]: "dec m = dec n \<longleftrightarrow> m = n"
  by (metis undec_dec)

lemma minus_not_digit: "\<not> is_digit (CHR ''-'')"
  by (simp add: is_digit_def)

lemma hd_dec_digit: "is_digit (hd (dec n))"
  by (rule dec_digits [OF hd_in_set]) simp

lemma dec_int_inject [simp]: "dec_int i = dec_int j \<longleftrightarrow> i = j"
proof -
  have "dec n \<noteq> CHR ''-'' # xs" for n xs
    using hd_dec_digit [of n] minus_not_digit by auto
  then show ?thesis
    by (auto simp: dec_int_def dest: sym)
qed

text \<open>The characters a decimal number is written with.\<close>

definition is_number_char :: "char \<Rightarrow> bool" where
  "is_number_char c \<longleftrightarrow> is_digit c \<or> c = CHR ''-''"

lemma dec_int_number_chars: "c \<in> set (dec_int i) \<Longrightarrow> is_number_char c"
  by (auto simp: dec_int_def is_number_char_def dest: dec_digits split: if_splits)

lemma dec_int_nonempty [simp]: "dec_int i \<noteq> []"
  by (simp add: dec_int_def)

section \<open>Case folding and search\<close>

definition ascii_lower :: "char \<Rightarrow> char" where
  "ascii_lower c = (let n = (of_char c :: nat) in if 65 \<le> n \<and> n \<le> 90 then char_of (n + 32) else c)"

definition to_ascii_lowercase :: "string \<Rightarrow> string" where
  "to_ascii_lowercase s = map ascii_lower s"

definition contains :: "string \<Rightarrow> string \<Rightarrow> bool" where
  "contains hay needle \<longleftrightarrow> sublist needle hay"

lemma ascii_lower_idem [simp]: "ascii_lower (ascii_lower c) = ascii_lower c"
  by (simp add: ascii_lower_def Let_def)

lemma to_ascii_lowercase_idem [simp]:
  "to_ascii_lowercase (to_ascii_lowercase s) = to_ascii_lowercase s"
  by (simp add: to_ascii_lowercase_def)

section \<open>\<open>BTreeMap\<close>\<close>

text \<open>
  \<open>BTreeMap::insert\<close>, with the map as its entries in key order. It returns the value the key had.
\<close>

fun btree_insert :: "'k::linorder \<Rightarrow> 'v \<Rightarrow> ('k \<times> 'v) list \<Rightarrow> ('k \<times> 'v) list \<times> 'v option" where
  "btree_insert k v [] = ([(k, v)], None)"
| "btree_insert k v ((k', v') # m) =
     (if k < k' then ((k, v) # (k', v') # m, None)
      else if k = k' then ((k, v) # m, Some v')
      else (case btree_insert k v m of (m', old) \<Rightarrow> ((k', v') # m', old)))"

lemma btree_insert_old:
  "sorted (map fst m) \<Longrightarrow> snd (btree_insert k v m) = map_of m k"
proof (induction m)
  case (Cons e m)
  obtain k' v' where e: "e = (k', v')" by (cases e)
  have "k < k' \<Longrightarrow> map_of m k = None"
    using Cons.prems e by (auto simp: map_of_eq_None_iff)
  with Cons e show ?case by (auto split: prod.splits)
qed simp

lemma btree_insert_new:
  "k \<notin> fst ` set m \<Longrightarrow> mset (fst (btree_insert k v m)) = add_mset (k, v) (mset m)"
  by (induction m) (auto split: prod.splits)

lemma btree_insert_sorted:
  "sorted (map fst m) \<Longrightarrow> k \<notin> fst ` set m \<Longrightarrow> sorted (map fst (fst (btree_insert k v m)))"
proof (induction m)
  case (Cons e m)
  obtain k' v' where e: "e = (k', v')" by (cases e)
  have "set (fst (btree_insert k v m)) = insert (k, v) (set m)"
    using btree_insert_new [of k m v] Cons.prems(2) by (metis set_mset_add_mset_insert set_mset_mset image_insert insert_iff list.simps(15))
  with Cons e show ?case by (auto split: prod.splits)
qed simp

section \<open>White space\<close>

definition ascii_space :: "char \<Rightarrow> bool" where
  "ascii_space c \<longleftrightarrow> c \<in> {CHR 0x09, CHR 0x0A, CHR 0x0B, CHR 0x0C, CHR 0x0D, CHR '' ''}"

text \<open>\<open>str::trim\<close>, on the ASCII white space.\<close>

definition trim :: "string \<Rightarrow> string" where
  "trim s = rev (dropWhile ascii_space (rev (dropWhile ascii_space s)))"

end
