(* ===== verification/Escaping.thy ===== *)
theory Escaping
  imports Rust_Std
begin

text \<open>
  The contract the two string writers of the program share (\<open>write_json_string\<close> of the canonical
  encoder, \<open>quote_toml\<close> of the prover): every character is written as an escape that can be read
  back from the front of any text, and no escape begins with the closing quote. What follows from
  it, that a quoted text ends exactly where it was closed, is proved once here.
\<close>

text \<open>Reading a quoted text: characters up to the closing quote; the number bounds the steps.\<close>

fun read_quoted :: "(string \<Rightarrow> (char \<times> string) option) \<Rightarrow> char \<Rightarrow> nat \<Rightarrow> string \<Rightarrow> (string \<times> string) option" where
  "read_quoted unesc close 0 s = None"
| "read_quoted unesc close (Suc n) s =
     (case s of
        [] \<Rightarrow> None
      | c # r \<Rightarrow>
          if c = close then Some ([], r)
          else (case unesc s of
                  None \<Rightarrow> None
                | Some (d, r') \<Rightarrow> map_option (\<lambda>(t, q). (d # t, q)) (read_quoted unesc close n r')))"

locale char_escape =
  fixes esc :: "char \<Rightarrow> string"
    and unesc :: "string \<Rightarrow> (char \<times> string) option"
    and close :: char
  assumes unesc_esc: "unesc (esc c @ r) = Some (c, r)"
    and esc_nonempty: "esc c \<noteq> []"
    and esc_not_close: "hd (esc c) \<noteq> close"
begin

lemma esc_prefix_unique: "esc c @ r = esc c' @ r' \<Longrightarrow> c = c' \<and> r = r'"
  by (metis unesc_esc option.inject prod.inject)

lemma esc_before_close: "esc c @ r \<noteq> close # r'"
proof
  assume "esc c @ r = close # r'"
  then have "hd (esc c) = close"
    using esc_nonempty [of c] by (metis hd_append2 list.sel(1))
  then show False using esc_not_close by blast
qed

lemma quoted_prefix_unique:
  "concat (map esc s) @ close # r = concat (map esc s') @ close # r' \<Longrightarrow> s = s' \<and> r = r'"
proof (induction s arbitrary: s')
  case Nil
  show ?case
  proof (cases s')
    case (Cons c cs)
    then show ?thesis
      using Nil.prems esc_before_close [of c "concat (map esc cs) @ close # r'" r] by auto
  qed (use Nil.prems in auto)
next
  case (Cons c s)
  show ?case
  proof (cases s')
    case Nil
    then show ?thesis
      using Cons.prems esc_before_close [of c "concat (map esc s) @ close # r" r'] by auto
  next
    case (Cons c' s'')
    then have "c = c' \<and> concat (map esc s) @ close # r = concat (map esc s'') @ close # r'"
      using Cons.prems by (intro esc_prefix_unique) simp
    then show ?thesis using Cons.IH Cons by blast
  qed
qed

lemma quoted_inject: "concat (map esc s) = concat (map esc s') \<longleftrightarrow> s = s'"
  using quoted_prefix_unique [of s "[]" s' "[]"] by auto

lemma read_quoted_written:
  "length s < n \<Longrightarrow> read_quoted unesc close n (concat (map esc s) @ close # r) = Some (s, r)"
proof (induction s arbitrary: n)
  case Nil
  then show ?case by (cases n) simp_all
next
  case (Cons c s)
  then obtain m where n: "n = Suc m" "length s < m" by (cases n) auto
  obtain h t where h: "esc c = h # t" using esc_nonempty [of c] by (cases "esc c") auto
  have "unesc (h # t @ concat (map esc s) @ close # r) = Some (c, concat (map esc s) @ close # r)"
    using unesc_esc [of c] by (simp add: h)
  with n Cons.IH [OF n(2)] esc_not_close [of c] h show ?case by simp
qed

text \<open>Reading one character of a quoted text.\<close>

lemma unesc_quoted: "unesc (concat (map esc (c # s)) @ r) = Some (c, concat (map esc s) @ r)"
  using unesc_esc by simp

end

end
