(* ===== verification/Canonical.thy ===== *)
theory Canonical
  imports Escaping
begin

text \<open>
  Input canonicalisation and job identity, \<open>crates/dray-core/src/canonical.rs\<close>: the writer of the
  canonical text of a JSON value, its errors in the order the source meets them, and the SHA-256
  preimage a job is identified by. SHA-256 itself is the parameter \<open>sha256\<close>.
\<close>

section \<open>JSON values\<close>

text \<open>
  \<open>serde_json::Value\<close>. A \<open>Number\<close> is a \<open>u64\<close>, a negative \<open>i64\<close>, or a float, which is kept as its
  text since nothing here computes with it. An object is its entries in iteration order.
\<close>

datatype number = PosInt u64 | NegInt "64 word" | FloatNum string

datatype json =
    JNull
  | JBool bool
  | JNumber number
  | JString string
  | JArray "json list"
  | JObject "(string \<times> json) list"

fun as_u64 :: "number \<Rightarrow> nat option" where
  "as_u64 (PosInt u) = Some (unat u)"
| "as_u64 (NegInt _) = None"
| "as_u64 (FloatNum _) = None"

fun as_i64 :: "number \<Rightarrow> int option" where
  "as_i64 (PosInt u) = (if int (unat u) \<le> i64_max then Some (int (unat u)) else None)"
| "as_i64 (NegInt i) = Some (sint i)"
| "as_i64 (FloatNum _) = None"

text \<open>What the type \<open>Value\<close> guarantees: negative \<open>NegInt\<close>s, and no key twice in an object.\<close>

fun wf_number :: "number \<Rightarrow> bool" where
  "wf_number (NegInt i) \<longleftrightarrow> sint i < 0"
| "wf_number _ \<longleftrightarrow> True"

fun wf_json :: "json \<Rightarrow> bool" where
  "wf_json (JNumber n) \<longleftrightarrow> wf_number n"
| "wf_json (JArray vs) \<longleftrightarrow> (\<forall>v \<in> set vs. wf_json v)"
| "wf_json (JObject ms) \<longleftrightarrow> distinct (map fst ms) \<and> (\<forall>m \<in> set ms. wf_json (snd m))"
| "wf_json _ \<longleftrightarrow> True"

fun json_weight :: "json \<Rightarrow> nat" where
  "json_weight (JArray vs) = Suc (Suc (sum_list (map (\<lambda>v. Suc (json_weight v)) vs)))"
| "json_weight (JObject ms) = Suc (Suc (sum_list (map (\<lambda>m. Suc (json_weight (snd m))) ms)))"
| "json_weight _ = 0"

section \<open>The writer\<close>

datatype canonical_error =
    FloatNotAllowed string
  | DuplicateKey string string
  | TooDeep nat nat

definition MAX_DEPTH :: nat where
  "MAX_DEPTH = 32"

definition json_escape :: "char \<Rightarrow> string" where
  "json_escape ch =
     (if ch = CHR 0x22 then [CHR 0x5C, CHR 0x22]
      else if ch = CHR 0x5C then [CHR 0x5C, CHR 0x5C]
      else if ch = CHR 0x08 then [CHR 0x5C, CHR ''b'']
      else if ch = CHR 0x0C then [CHR 0x5C, CHR ''f'']
      else if ch = CHR 0x0A then [CHR 0x5C, CHR ''n'']
      else if ch = CHR 0x0D then [CHR 0x5C, CHR ''r'']
      else if ch = CHR 0x09 then [CHR 0x5C, CHR ''t'']
      else if (of_char ch :: nat) < 0x20 then [CHR 0x5C, CHR ''u'', CHR ''0'', CHR ''0''] @ hex_byte ch
      else [ch])"

definition write_json_string :: "string \<Rightarrow> string" where
  "write_json_string s = CHR 0x22 # concat (map json_escape s) @ [CHR 0x22]"

text \<open>What reading one escape back gives; the two digits of a \<open>\u00xx\<close> escape are its last two.\<close>

fun json_unescape :: "string \<Rightarrow> (char \<times> string) option" where
  "json_unescape [] = None"
| "json_unescape (a # r) =
     (if a \<noteq> CHR 0x5C then Some (a, r)
      else case r of
        [] \<Rightarrow> None
      | b # r' \<Rightarrow>
          if b = CHR ''u'' then
            (case r' of
               _ # _ # h # l # r'' \<Rightarrow> Some (char_of (16 * hex_value h + hex_value l), r'')
             | _ \<Rightarrow> None)
          else if b = CHR ''b'' then Some (CHR 0x08, r')
          else if b = CHR ''f'' then Some (CHR 0x0C, r')
          else if b = CHR ''n'' then Some (CHR 0x0A, r')
          else if b = CHR ''r'' then Some (CHR 0x0D, r')
          else if b = CHR ''t'' then Some (CHR 0x09, r')
          else Some (b, r'))"

lemma hex_byte_round:
  "char_of (16 * hex_value (hex_char (of_char c div 16)) + hex_value (hex_char (of_char c mod 16))) = c"
  using hex_round [of "of_char c"] by simp

interpretation json_string: char_escape json_escape json_unescape "CHR 0x22"
  by unfold_locales (simp_all add: json_escape_def hex_byte_def hex_byte_round)

text \<open>
  The loop that fills the \<open>BTreeMap\<close>: entries are inserted in iteration order, and the first key
  that was already there is the error.
\<close>

fun collect_sorted ::
  "string \<Rightarrow> (string \<times> 'v) list \<Rightarrow> (string \<times> 'v) list \<Rightarrow> canonical_error + (string \<times> 'v) list" where
  "collect_sorted path entries [] = Inr entries"
| "collect_sorted path entries ((key, val) # ms) =
     (case btree_insert key val entries of
        (entries', Some _) \<Rightarrow> Inl (DuplicateKey path key)
      | (entries', None) \<Rightarrow> collect_sorted path entries' ms)"

lemma collect_sorted_mset:
  "collect_sorted path m ms = Inr out \<Longrightarrow> sorted (map fst m) \<Longrightarrow>
   mset out = mset m + mset ms \<and> sorted (map fst out)"
proof (induction ms arbitrary: m)
  case (Cons e ms)
  obtain k v where e: "e = (k, v)" by (cases e)
  obtain m' old where ins: "btree_insert k v m = (m', old)" by fastforce
  from Cons.prems e ins have old: "old = None" and rest: "collect_sorted path m' ms = Inr out"
    by (auto split: option.splits)
  have fresh: "k \<notin> fst ` set m"
    using btree_insert_old [OF Cons.prems(2), of k v] ins old
    by (auto simp: map_of_eq_None_iff [symmetric])
  then have "mset m' = add_mset (k, v) (mset m)" and "sorted (map fst m')"
    using btree_insert_new [of k m v] btree_insert_sorted [OF Cons.prems(2) fresh, of v] ins by auto
  with Cons.IH [OF rest] e show ?case by simp
qed simp

lemma collect_sorted_duplicate:
  "sorted (map fst m) \<Longrightarrow> distinct (map fst m) \<Longrightarrow>
   (\<exists>out. collect_sorted path m ms = Inr out) \<longleftrightarrow> distinct (map fst (m @ ms))"
proof (induction ms arbitrary: m)
  case (Cons e ms)
  obtain k v where e: "e = (k, v)" by (cases e)
  obtain m' old where ins: "btree_insert k v m = (m', old)" by fastforce
  have old: "old = map_of m k"
    using btree_insert_old [OF Cons.prems(1), of k v] ins by simp
  show ?case
  proof (cases "k \<in> fst ` set m")
    case True
    then have "old \<noteq> None" using old by (simp add: map_of_eq_None_iff)
    with True e ins show ?thesis by (auto split: option.splits)
  next
    case False
    have m': "mset m' = add_mset (k, v) (mset m)" "sorted (map fst m')"
      using btree_insert_new [OF False, of v] btree_insert_sorted [OF Cons.prems(1) False, of v] ins
      by auto
    have keys: "mset (map fst m') = add_mset k (mset (map fst m))"
      using m'(1) by (metis fst_conv image_mset_add_mset mset_map)
    then have "mset (map fst m') = mset (k # map fst m)"
      and "mset (map fst (m' @ ms)) = mset (map fst (m @ e # ms))"
      using e by simp_all
    then have "distinct (map fst m')"
      and "distinct (map fst (m' @ ms)) \<longleftrightarrow> distinct (map fst (m @ e # ms))"
      using Cons.prems(2) False by (metis distinct.simps(2) mset_eq_imp_distinct_iff set_map, metis mset_eq_imp_distinct_iff)
    moreover have "old = None" using False old by (simp add: map_of_eq_None_iff)
    ultimately show ?thesis using Cons.IH [OF m'(2)] e ins by simp
  qed
qed simp

lemma and_then_cong [fundef_cong]:
  "r = r' \<Longrightarrow> (\<And>x. r' = Inr x \<Longrightarrow> f x = g x) \<Longrightarrow> and_then r f = and_then r' g"
  by (cases r') auto

lemma collect_sorted_weight:
  "collect_sorted path [] ms = Inr out \<Longrightarrow>
   sum_list (map (f \<circ> snd) out) = (sum_list (map (f \<circ> snd) ms) :: nat)"
  using collect_sorted_mset [of path "[]" ms out]
  by (simp flip: sum_mset_sum_list mset_map) (metis mset_map)

text \<open>
  \<open>write_canonical\<close> and its two loops; each returns the text it appends to \<open>out\<close>. The index of a
  loop decides whether a comma is written first.
\<close>

function (sequential)
      write_canonical :: "json \<Rightarrow> string \<Rightarrow> nat \<Rightarrow> canonical_error + string"
  and write_items :: "nat \<Rightarrow> json list \<Rightarrow> string \<Rightarrow> nat \<Rightarrow> canonical_error + string"
  and write_members :: "nat \<Rightarrow> (string \<times> json) list \<Rightarrow> string \<Rightarrow> nat \<Rightarrow> canonical_error + string"
where
  "write_canonical value path depth =
     (if MAX_DEPTH < depth then Inl (TooDeep depth MAX_DEPTH)
      else case value of
        JNull \<Rightarrow> Inr ''null''
      | JBool b \<Rightarrow> Inr (if b then ''true'' else ''false'')
      | JNumber n \<Rightarrow>
          (case as_u64 n of
             Some u \<Rightarrow> Inr (dec u)
           | None \<Rightarrow>
               (case as_i64 n of
                  Some i \<Rightarrow> Inr (dec_int i)
                | None \<Rightarrow> Inl (FloatNotAllowed path)))
      | JString s \<Rightarrow> Inr (write_json_string s)
      | JArray items \<Rightarrow>
          and_then (write_items 0 items path depth) (\<lambda>t. Inr (''['' @ t @ '']''))
      | JObject ms \<Rightarrow>
          and_then (collect_sorted path [] ms) (\<lambda>entries.
          and_then (write_members 0 entries path depth) (\<lambda>t. Inr (''{'' @ t @ ''}''))))"
| "write_items i [] path depth = Inr []"
| "write_items i (item # items) path depth =
     and_then (write_canonical item (path @ ''['' @ dec i @ '']'') (depth + 1)) (\<lambda>t.
     and_then (write_items (Suc i) items path depth) (\<lambda>u.
     Inr ((if 0 < i then '','' else []) @ t @ u)))"
| "write_members i [] path depth = Inr []"
| "write_members i ((key, val) # ms) path depth =
     and_then (write_canonical val (path @ ''.'' @ key) (depth + 1)) (\<lambda>t.
     and_then (write_members (Suc i) ms path depth) (\<lambda>u.
     Inr ((if 0 < i then '','' else []) @ write_json_string key @ '':'' @ t @ u)))"
  by pat_completeness auto
termination
proof (relation "measure (case_sum (\<lambda>(v, p, d). json_weight v)
      (case_sum (\<lambda>(i, vs, p, d). Suc (sum_list (map (\<lambda>v. Suc (json_weight v)) vs)))
        (\<lambda>(i, ms, p, d). Suc (sum_list (map (\<lambda>m. Suc (json_weight (snd m))) ms)))))", goal_cases)
  case (3 v path depth ms entries)
  then show ?case
    using collect_sorted_weight [of path ms entries "\<lambda>v. Suc (json_weight v)"] by (simp add: o_def)
qed auto

declare write_canonical.simps [simp del]

definition canonicalise :: "json \<Rightarrow> canonical_error + string" where
  "canonicalise value = write_canonical value ''$'' 0"

section \<open>Job identity\<close>

text \<open>The bytes that are hashed: circuit id, the separator byte, canonical inputs.\<close>

definition job_preimage :: "string \<Rightarrow> json \<Rightarrow> canonical_error + bytes" where
  "job_preimage circuit_id inputs =
     and_then (canonicalise inputs) (\<lambda>canonical. Inr (circuit_id @ [CHR 0x00] @ canonical))"

definition job_hash :: "(bytes \<Rightarrow> bytes) \<Rightarrow> string \<Rightarrow> json \<Rightarrow> canonical_error + bytes" where
  "job_hash sha256 circuit_id inputs =
     and_then (job_preimage circuit_id inputs) (\<lambda>bytes. Inr (sha256 bytes))"

definition job_hash_hex :: "(bytes \<Rightarrow> bytes) \<Rightarrow> string \<Rightarrow> json \<Rightarrow> canonical_error + string" where
  "job_hash_hex sha256 circuit_id inputs =
     and_then (job_hash sha256 circuit_id inputs) (\<lambda>h. Inr (hex_encode h))"

end
