(* ===== verification/Canonical_Unique.thy ===== *)
theory Canonical_Unique
  imports Canonical
begin

text \<open>
  What canonicalisation promises: the text determines the value up to the order of object keys and
  nothing else, so that two requests share a job identity exactly when they ask for the same work.
  \<open>normalise\<close> is the specification of "the same value"; the rest is the argument that the text
  written for a value can be read in one way only.
\<close>

section \<open>The same value up to key order\<close>

fun normalise :: "json \<Rightarrow> json" where
  "normalise (JArray vs) = JArray (map normalise vs)"
| "normalise (JObject ms) = JObject (sort_key fst (map (\<lambda>m. (fst m, normalise (snd m))) ms))"
| "normalise v = v"

abbreviation normalise_member :: "string \<times> json \<Rightarrow> string \<times> json" where
  "normalise_member m \<equiv> (fst m, normalise (snd m))"

lemma insort_key_map: "(\<And>x. f (g x) = f x) \<Longrightarrow> insort_key f (g x) (map g xs) = map g (insort_key f x xs)"
  by (induction xs) auto

lemma sort_key_map: "(\<And>x. f (g x) = f x) \<Longrightarrow> sort_key f (map g xs) = map g (sort_key f xs)"
  by (induction xs) (simp_all add: insort_key_map)

lemma normalise_object:
  "normalise (JObject ms) = JObject (map normalise_member (sort_key fst ms))"
  by (simp add: sort_key_map)

lemma collect_sorted_distinct:
  assumes "distinct (map fst ms)"
  shows "collect_sorted path [] ms = Inr (sort_key fst ms)"
proof -
  obtain out where out: "collect_sorted path [] ms = Inr out"
    using collect_sorted_duplicate [of "[]" path ms] assms by auto
  then have m: "mset out = mset ms" and s: "sorted (map fst out)"
    using collect_sorted_mset [OF out] by simp_all
  have same: "set out = set ms" using m by (rule mset_eq_setD)
  have inj: "inj_on fst (set ms)" using assms by (simp add: distinct_map)
  have dist: "distinct (map fst out)"
    using m assms by (metis mset_eq_imp_distinct_iff mset_map)
  have "out = sort_key fst ms"
    using assms s dist same inj
    by (intro map_sorted_distinct_set_unique [of fst]) (simp_all add: distinct_map)
  with out show ?thesis by simp
qed

section \<open>What a written value begins with\<close>

fun kind_of :: "json \<Rightarrow> nat" where
  "kind_of JNull = 0"
| "kind_of (JBool b) = (if b then 1 else 2)"
| "kind_of (JNumber _) = 3"
| "kind_of (JString _) = 4"
| "kind_of (JArray _) = 5"
| "kind_of (JObject _) = 6"

definition kind_of_char :: "char \<Rightarrow> nat" where
  "kind_of_char c =
     (if c = CHR ''n'' then 0 else if c = CHR ''t'' then 1 else if c = CHR ''f'' then 2
      else if is_number_char c then 3 else if c = CHR 0x22 then 4 else if c = CHR ''['' then 5
      else if c = CHR ''{'' then 6 else 7)"

lemma kind_of_number_char: "is_number_char c \<Longrightarrow> kind_of_char c = 3"
  by (auto simp: kind_of_char_def is_number_char_def is_digit_def)

text \<open>The integer a number stands for; under \<^const>\<open>wf_number\<close> it has one representation only.\<close>

fun number_int :: "number \<Rightarrow> int option" where
  "number_int (PosInt u) = Some (int (unat u))"
| "number_int (NegInt i) = Some (sint i)"
| "number_int (FloatNum _) = None"

lemma number_int_unique:
  "number_int n = Some i \<Longrightarrow> number_int n' = Some i \<Longrightarrow> wf_number n \<Longrightarrow> wf_number n' \<Longrightarrow> n = n'"
  by (cases n; cases n')
     (auto simp: word_eq_iff_signed [symmetric] word_uint_eq_iff [symmetric] dest: sym)

lemma dec_is_dec_int: "dec n = dec_int (int n)"
  by (simp add: dec_int_def)

lemma write_number:
  "write_canonical (JNumber n) p d = Inr s \<Longrightarrow> \<exists>i. number_int n = Some i \<and> s = dec_int i"
  by (subst (asm) write_canonical.simps, cases n)
     (auto simp: dec_is_dec_int split: if_splits)

lemma hd_dec_int: "kind_of_char (hd (dec_int i)) = 3"
  by (rule kind_of_number_char, rule dec_int_number_chars [of _ i]) simp

lemma write_kind:
  assumes "write_canonical v p d = Inr s"
  shows "s \<noteq> [] \<and> kind_of_char (hd s) = kind_of v"
proof (cases "\<exists>n. v = JNumber n")
  case True
  with assms show ?thesis by (auto dest!: write_number simp: hd_dec_int)
next
  case False
  with assms show ?thesis
    by (subst (asm) write_canonical.simps, cases v)
       (auto simp: res_iff kind_of_char_def is_number_char_def is_digit_def write_json_string_def
          split: if_splits)
qed

section \<open>Where a written value ends\<close>

text \<open>What can follow a value: nothing, or a comma or a closing bracket.\<close>

definition delimited :: "string \<Rightarrow> bool" where
  "delimited r \<longleftrightarrow> r = [] \<or> hd r \<in> {CHR '','', CHR '']'', CHR ''}''}"

lemma delimited_simps [simp]:
  "delimited []"
  "delimited (CHR '','' # r)" "delimited (CHR '']'' # r)" "delimited (CHR ''}'' # r)"
  by (simp_all add: delimited_def)

lemma delimited_not_number: "delimited (c # r) \<Longrightarrow> \<not> is_number_char c"
  by (auto simp: delimited_def is_number_char_def is_digit_def)

lemma number_ends:
  "list_all is_number_char s \<Longrightarrow> list_all is_number_char s' \<Longrightarrow> delimited r \<Longrightarrow> delimited r' \<Longrightarrow>
   s @ r = s' @ r' \<Longrightarrow> s = s' \<and> r = r'"
proof (induction s arbitrary: s')
  case Nil
  then show ?case by (cases s') (auto dest: delimited_not_number)
next
  case (Cons c s)
  then show ?case by (cases s') (auto dest: delimited_not_number)
qed

lemma dec_int_ends:
  "dec_int i @ r = dec_int j @ r' \<Longrightarrow> delimited r \<Longrightarrow> delimited r' \<Longrightarrow> i = j \<and> r = r'"
  using number_ends [of "dec_int i" "dec_int j" r r']
  by (auto simp: list_all_iff dest: dec_int_number_chars)

text \<open>Two written values with the same beginning are of the same kind.\<close>

lemma same_kind:
  assumes "write_canonical v p d = Inr s" and "write_canonical v' p' d' = Inr s'" and "s @ r = s' @ r'"
  shows "kind_of v = kind_of v'"
  using write_kind [OF assms(1)] write_kind [OF assms(2)] assms(3) by (metis hd_append2)

lemma kind_of_not_close: "kind_of v \<noteq> kind_of_char (CHR '']'')"
  by (cases v) (auto simp: kind_of_char_def is_number_char_def is_digit_def)

lemma write_items_head:
  assumes "write_items i (x # xs) p d = Inr t"
  shows "t \<noteq> [] \<and> hd t \<noteq> CHR '']''"
proof -
  obtain s u where "write_canonical x (p @ ''['' @ dec i @ '']'') (d + 1) = Inr s"
    and "t = (if 0 < i then '','' else []) @ s @ u"
    using assms by (auto simp: res_iff)
  then show ?thesis
    using write_kind [of x "p @ ''['' @ dec i @ '']''" "d + 1" s] kind_of_not_close [of x] by auto
qed

lemma write_members_head:
  "write_members i (x # xs) p d = Inr t \<Longrightarrow> t \<noteq> [] \<and> hd t \<noteq> CHR ''}''"
  by (cases x) (auto simp: res_iff write_json_string_def split: if_splits)

lemma write_items_rest: "write_items (Suc i) vs p d = Inr t \<Longrightarrow> delimited (t @ CHR '']'' # r)"
  by (cases vs) (auto simp: res_iff)

lemma write_members_rest: "write_members (Suc i) ms p d = Inr t \<Longrightarrow> delimited (t @ CHR ''}'' # r)"
  by (cases ms) (auto simp: res_iff)

section \<open>The text determines the value\<close>

text \<open>The three statements of the induction, one for each function of the writer.\<close>

definition unique_value :: "json \<Rightarrow> string \<Rightarrow> nat \<Rightarrow> bool" where
  "unique_value v p d \<longleftrightarrow> (\<forall>s v' p' d' s' r r'.
     write_canonical v p d = Inr s \<longrightarrow> write_canonical v' p' d' = Inr s' \<longrightarrow>
     wf_json v \<longrightarrow> wf_json v' \<longrightarrow> delimited r \<longrightarrow> delimited r' \<longrightarrow> s @ r = s' @ r' \<longrightarrow>
     normalise v = normalise v' \<and> r = r')"

definition unique_items :: "nat \<Rightarrow> json list \<Rightarrow> string \<Rightarrow> nat \<Rightarrow> bool" where
  "unique_items i vs p d \<longleftrightarrow> (\<forall>t vs' p' d' t' r r'.
     write_items i vs p d = Inr t \<longrightarrow> write_items i vs' p' d' = Inr t' \<longrightarrow>
     (\<forall>v \<in> set vs. wf_json v) \<longrightarrow> (\<forall>v \<in> set vs'. wf_json v) \<longrightarrow>
     t @ CHR '']'' # r = t' @ CHR '']'' # r' \<longrightarrow> map normalise vs = map normalise vs' \<and> r = r')"

definition unique_members :: "nat \<Rightarrow> (string \<times> json) list \<Rightarrow> string \<Rightarrow> nat \<Rightarrow> bool" where
  "unique_members i ms p d \<longleftrightarrow> (\<forall>t ms' p' d' t' r r'.
     write_members i ms p d = Inr t \<longrightarrow> write_members i ms' p' d' = Inr t' \<longrightarrow>
     (\<forall>m \<in> set ms. wf_json (snd m)) \<longrightarrow> (\<forall>m \<in> set ms'. wf_json (snd m)) \<longrightarrow>
     t @ CHR ''}'' # r = t' @ CHR ''}'' # r' \<longrightarrow>
     map normalise_member ms = map normalise_member ms' \<and> r = r')"

lemma kind_of_inverse:
  "kind_of v = kind_of JNull \<longleftrightarrow> v = JNull"
  "kind_of v = kind_of (JBool b) \<longleftrightarrow> v = JBool b"
  "kind_of v = kind_of (JNumber n) \<longleftrightarrow> (\<exists>n'. v = JNumber n')"
  "kind_of v = kind_of (JString x) \<longleftrightarrow> (\<exists>x'. v = JString x')"
  "kind_of v = kind_of (JArray vs) \<longleftrightarrow> (\<exists>vs'. v = JArray vs')"
  "kind_of v = kind_of (JObject ms) \<longleftrightarrow> (\<exists>ms'. v = JObject ms')"
  by (cases v; auto)+

lemma write_array:
  "write_canonical (JArray vs) p d = Inr s \<Longrightarrow>
   \<not> MAX_DEPTH < d \<and> (\<exists>t. write_items 0 vs p d = Inr t \<and> s = ''['' @ t @ '']'')"
  by (subst (asm) write_canonical.simps) (auto simp: res_iff split: if_splits)

lemma write_object:
  "write_canonical (JObject ms) p d = Inr s \<Longrightarrow> wf_json (JObject ms) \<Longrightarrow>
   \<not> MAX_DEPTH < d \<and> collect_sorted p [] ms = Inr (sort_key fst ms) \<and>
   (\<exists>t. write_members 0 (sort_key fst ms) p d = Inr t \<and> s = ''{'' @ t @ ''}'')"
  by (subst (asm) write_canonical.simps)
     (auto simp: res_iff collect_sorted_distinct split: if_splits)

lemma write_text:
  "write_canonical JNull p d = Inr s \<Longrightarrow> s = ''null''"
  "write_canonical (JBool b) p d = Inr s \<Longrightarrow> s = (if b then ''true'' else ''false'')"
  "write_canonical (JString x) p d = Inr s \<Longrightarrow> s = write_json_string x"
  by (subst (asm) write_canonical.simps, simp split: if_splits)+

lemma unique_value_step:
  assumes items: "\<And>vs. \<not> MAX_DEPTH < d \<Longrightarrow> v = JArray vs \<Longrightarrow> unique_items 0 vs p d"
    and members: "\<And>ms entries. \<not> MAX_DEPTH < d \<Longrightarrow> v = JObject ms \<Longrightarrow>
      collect_sorted p [] ms = Inr entries \<Longrightarrow> unique_members 0 entries p d"
  shows "unique_value v p d"
  unfolding unique_value_def
proof (intro allI impI)
  fix s v' p' d' s' r r'
  assume w: "write_canonical v p d = Inr s" and w': "write_canonical v' p' d' = Inr s'"
    and wf: "wf_json v" "wf_json v'" and del: "delimited r" "delimited r'" and eq: "s @ r = s' @ r'"
  have kind: "kind_of v' = kind_of v"
    using same_kind [OF w w' eq] by simp
  show "normalise v = normalise v' \<and> r = r'"
  proof (cases v)
    case (JNumber n)
    with kind obtain n' where v': "v' = JNumber n'" using kind_of_inverse(3) by metis
    show ?thesis
      using write_number [of n p d s] write_number [of n' p' d' s'] w w' JNumber v' eq del wf
      by (auto dest!: dec_int_ends dest: number_int_unique)
  next
    case (JString x)
    with kind obtain x' where v': "v' = JString x'" using kind_of_inverse(4) by metis
    show ?thesis
      using write_text(3) [of x p d s] write_text(3) [of x' p' d' s'] w w' JString v' eq
        json_string.quoted_prefix_unique [of x r x' r']
      by (auto simp: write_json_string_def)
  next
    case (JArray vs)
    with kind obtain vs' where v': "v' = JArray vs'" using kind_of_inverse(5) by metis
    from w w' JArray v' obtain t t' where t: "write_items 0 vs p d = Inr t"
        "write_items 0 vs' p' d' = Inr t'" "s = ''['' @ t @ '']''" "s' = ''['' @ t' @ '']''" "\<not> MAX_DEPTH < d"
      by (blast dest!: write_array)
    have "t @ CHR '']'' # r = t' @ CHR '']'' # r'" using eq t(3,4) by simp
    moreover have "\<forall>x \<in> set vs. wf_json x" "\<forall>x \<in> set vs'. wf_json x" using wf JArray v' by simp_all
    moreover have "unique_items 0 vs p d" using items JArray t(5) by blast
    ultimately have "map normalise vs = map normalise vs' \<and> r = r'"
      using t(1,2) unfolding unique_items_def by meson
    with JArray v' show ?thesis by simp
  next
    case (JObject ms)
    with kind obtain ms' where v': "v' = JObject ms'" using kind_of_inverse(6) by metis
    from w w' JObject v' wf obtain t t' where t: "write_members 0 (sort_key fst ms) p d = Inr t"
        "write_members 0 (sort_key fst ms') p' d' = Inr t'" "s = ''{'' @ t @ ''}''" "s' = ''{'' @ t' @ ''}''"
        "\<not> MAX_DEPTH < d" "collect_sorted p [] ms = Inr (sort_key fst ms)"
      by (blast dest!: write_object)
    have "t @ CHR ''}'' # r = t' @ CHR ''}'' # r'" using eq t(3,4) by simp
    moreover have "\<forall>m \<in> set (sort_key fst ms). wf_json (snd m)"
      "\<forall>m \<in> set (sort_key fst ms'). wf_json (snd m)" using wf JObject v' by simp_all
    moreover have "unique_members 0 (sort_key fst ms) p d" using members JObject t(5,6) by blast
    ultimately have "map normalise_member (sort_key fst ms) = map normalise_member (sort_key fst ms') \<and> r = r'"
      using t(1,2) unfolding unique_members_def by meson
    with JObject v' show ?thesis by (simp only: normalise_object)
  next
    case JNull
    with kind have "v' = JNull" using kind_of_inverse(1) by metis
    with JNull w w' eq show ?thesis by (auto dest!: write_text)
  next
    case (JBool b)
    with kind have "v' = JBool b" using kind_of_inverse(2) by metis
    with JBool w w' eq show ?thesis by (auto dest!: write_text)
  qed
qed

lemma unique_items_Nil: "unique_items i [] p d"
  unfolding unique_items_def
proof (intro allI impI)
  fix t vs' p' d' t' r r'
  assume "write_items i [] p d = Inr t" and w: "write_items i vs' p' d' = Inr t'"
    and "t @ CHR '']'' # r = t' @ CHR '']'' # r'"
  then show "map normalise [] = map normalise vs' \<and> r = r'"
    using write_items_head [of i "hd vs'" "tl vs'" p' d' t'] by (cases vs'; cases t') auto
qed

lemma unique_members_Nil: "unique_members i [] p d"
  unfolding unique_members_def
proof (intro allI impI)
  fix t ms' p' d' t' r r'
  assume "write_members i [] p d = Inr t" and w: "write_members i ms' p' d' = Inr t'"
    and "t @ CHR ''}'' # r = t' @ CHR ''}'' # r'"
  then show "map normalise_member [] = map normalise_member ms' \<and> r = r'"
    using write_members_head [of i "hd ms'" "tl ms'" p' d' t'] by (cases ms'; cases t') auto
qed

lemma unique_items_Cons:
  assumes v: "unique_value x (p @ ''['' @ dec i @ '']'') (d + 1)"
    and rest: "\<And>s. write_canonical x (p @ ''['' @ dec i @ '']'') (d + 1) = Inr s \<Longrightarrow>
      unique_items (Suc i) xs p d"
  shows "unique_items i (x # xs) p d"
  unfolding unique_items_def
proof (intro allI impI)
  fix t vs' p' d' t' r r'
  assume w: "write_items i (x # xs) p d = Inr t" and w': "write_items i vs' p' d' = Inr t'"
    and wf: "\<forall>v \<in> set (x # xs). wf_json v" "\<forall>v \<in> set vs'. wf_json v"
    and eq: "t @ CHR '']'' # r = t' @ CHR '']'' # r'"
  obtain y ys where vs': "vs' = y # ys"
    using write_items_head [OF w] w' eq by (cases vs'; cases t) auto
  obtain s u where su: "write_canonical x (p @ ''['' @ dec i @ '']'') (d + 1) = Inr s"
      "write_items (Suc i) xs p d = Inr u" "t = (if 0 < i then '','' else []) @ s @ u"
    using w by (auto simp: res_iff)
  obtain s' u' where su': "write_canonical y (p' @ ''['' @ dec i @ '']'') (d' + 1) = Inr s'"
      "write_items (Suc i) ys p' d' = Inr u'" "t' = (if 0 < i then '','' else []) @ s' @ u'"
    using w' vs' by (auto simp: res_iff)
  have "s @ u @ CHR '']'' # r = s' @ u' @ CHR '']'' # r'"
    using eq su(3) su'(3) by (simp split: if_splits)
  then have n: "normalise x = normalise y \<and> u @ CHR '']'' # r = u' @ CHR '']'' # r'"
    using v su su' wf vs' write_items_rest [OF su(2)] write_items_rest [OF su'(2)]
    unfolding unique_value_def by (meson list.set_intros(1))
  then have "map normalise xs = map normalise ys \<and> r = r'"
    using rest [OF su(1)] su(2) su'(2) wf vs' unfolding unique_items_def
    by (meson list.set_intros(2))
  with n vs' show "map normalise (x # xs) = map normalise vs' \<and> r = r'" by simp
qed

lemma unique_members_Cons:
  assumes v: "unique_value x (p @ ''.'' @ k) (d + 1)"
    and rest: "\<And>s. write_canonical x (p @ ''.'' @ k) (d + 1) = Inr s \<Longrightarrow> unique_members (Suc i) ms p d"
  shows "unique_members i ((k, x) # ms) p d"
  unfolding unique_members_def
proof (intro allI impI)
  fix t ms' p' d' t' r r'
  assume w: "write_members i ((k, x) # ms) p d = Inr t" and w': "write_members i ms' p' d' = Inr t'"
    and wf: "\<forall>m \<in> set ((k, x) # ms). wf_json (snd m)" "\<forall>m \<in> set ms'. wf_json (snd m)"
    and eq: "t @ CHR ''}'' # r = t' @ CHR ''}'' # r'"
  have "ms' \<noteq> []" using write_members_head [OF w] w' eq by (cases t) auto
  then obtain k' y ns where ms': "ms' = (k', y) # ns" by (cases ms') auto
  obtain s u where su: "write_canonical x (p @ ''.'' @ k) (d + 1) = Inr s"
      "write_members (Suc i) ms p d = Inr u"
      "t = (if 0 < i then '','' else []) @ write_json_string k @ '':'' @ s @ u"
    using w by (auto simp: res_iff)
  obtain s' u' where su': "write_canonical y (p' @ ''.'' @ k') (d' + 1) = Inr s'"
      "write_members (Suc i) ns p' d' = Inr u'"
      "t' = (if 0 < i then '','' else []) @ write_json_string k' @ '':'' @ s' @ u'"
    using w' ms' by (auto simp: res_iff)
  have "write_json_string k @ '':'' @ s @ u @ CHR ''}'' # r
      = write_json_string k' @ '':'' @ s' @ u' @ CHR ''}'' # r'"
    using eq su(3) su'(3) by (simp split: if_splits)
  then have key: "k = k'" and tail: "s @ u @ CHR ''}'' # r = s' @ u' @ CHR ''}'' # r'"
    using json_string.quoted_prefix_unique
      [of k "'':'' @ s @ u @ CHR ''}'' # r" k' "'':'' @ s' @ u' @ CHR ''}'' # r'"]
    by (simp_all add: write_json_string_def)
  have wfxy: "wf_json x" "wf_json y" using wf ms' by auto
  have n: "normalise x = normalise y \<and> u @ CHR ''}'' # r = u' @ CHR ''}'' # r'"
    using v su(1) su'(1) wfxy tail write_members_rest [OF su(2)] write_members_rest [OF su'(2)]
    unfolding unique_value_def by meson
  then have "map normalise_member ms = map normalise_member ns \<and> r = r'"
    using rest [OF su(1)] su(2) su'(2) wf ms' unfolding unique_members_def
    by (meson list.set_intros(2))
  with n key ms' show "map normalise_member ((k, x) # ms) = map normalise_member ms' \<and> r = r'" by simp
qed

lemma unique_reading:
  shows "unique_value v p d" and "unique_items i vs p d" and "unique_members i ms p d"
proof (induction v p d and i vs p d and i ms p d
    rule: write_canonical_write_items_write_members.induct)
  case (1 v path depth)
  show ?case
    by (rule unique_value_step) (use 1 in blast)+
qed (blast intro: unique_items_Nil unique_members_Nil unique_items_Cons unique_members_Cons)+

end
