(* ===== verification/Job_Identity.thy ===== *)
theory Job_Identity
  imports Canonical_Unique
begin

text \<open>
  The properties of canonicalisation and of the job hash: which inputs are accepted, that the text
  is a canonical form of the value, and that two jobs share an identity only when they are the same
  work.
\<close>

section \<open>Key order does not matter\<close>

lemma write_normalise:
  shows "wf_json v \<Longrightarrow> write_canonical (normalise v) p d = write_canonical v p d"
    and "\<forall>v \<in> set vs. wf_json v \<Longrightarrow> write_items i (map normalise vs) p d = write_items i vs p d"
    and "\<forall>m \<in> set ms. wf_json (snd m) \<Longrightarrow>
      write_members i (map normalise_member ms) p d = write_members i ms p d"
proof (induction v p d and i vs p d and i ms p d
    rule: write_canonical_write_items_write_members.induct)
  case (1 v path depth)
  show ?case
  proof (cases "MAX_DEPTH < depth")
    case True
    then show ?thesis by (simp add: write_canonical.simps)
  next
    case shallow: False
    show ?thesis
    proof (cases v)
      case (JObject ms)
      let ?ms = "sort_key fst ms"
      have dist: "distinct (map fst ms)" using 1(3) JObject by simp
      have dist': "distinct (map fst (map normalise_member ?ms))"
        using dist by (simp add: o_def) (metis distinct_map distinct_sort set_sort)
      have sorted_id: "sort_key fst (map normalise_member ?ms) = map normalise_member ?ms"
        by (rule sort_key_id_if_sorted) (simp add: o_def)
      have "write_members 0 (map normalise_member ?ms) path depth = write_members 0 ?ms path depth"
        using 1(2) [OF shallow JObject collect_sorted_distinct [OF dist]] 1(3) JObject by simp
      then show ?thesis
        using shallow JObject dist dist' sorted_id
        by (simp only: normalise_object write_canonical.simps json.case if_False
            collect_sorted_distinct and_then_simps)
    qed (use 1 shallow in \<open>simp_all add: write_canonical.simps\<close>)
  qed
next
  case (3 i item items path depth)
  then show ?case by (simp split del: if_split cong: and_then_cong)
next
  case (5 i key val ms path depth)
  then show ?case by (simp split del: if_split cong: and_then_cong)
qed simp_all

lemma canonicalise_normalise: "wf_json v \<Longrightarrow> canonicalise (normalise v) = canonicalise v"
  by (simp add: canonicalise_def write_normalise(1))

lemma canonicalise_inject:
  assumes "wf_json v" and "wf_json v'" and "canonicalise v = Inr s" and "canonicalise v' = Inr s'"
  shows "s = s' \<longleftrightarrow> normalise v = normalise v'"
proof
  assume "s = s'"
  then show "normalise v = normalise v'"
    using unique_reading(1) [of v "''$''" 0] assms
    unfolding unique_value_def canonicalise_def by (metis append_Nil2 delimited_simps(1))
next
  assume "normalise v = normalise v'"
  then show "s = s'" using assms canonicalise_normalise by (metis sum.inject(2))
qed

section \<open>Which values are accepted\<close>

fun float_free :: "json \<Rightarrow> bool" where
  "float_free (JNumber (FloatNum _)) \<longleftrightarrow> False"
| "float_free (JArray vs) \<longleftrightarrow> (\<forall>v \<in> set vs. float_free v)"
| "float_free (JObject ms) \<longleftrightarrow> (\<forall>m \<in> set ms. float_free (snd m))"
| "float_free _ \<longleftrightarrow> True"

text \<open>Every value of \<open>v\<close> lies at most \<open>n\<close> containers deep.\<close>

fun nested_within :: "nat \<Rightarrow> json \<Rightarrow> bool" where
  "nested_within n (JArray vs) \<longleftrightarrow> (\<forall>v \<in> set vs. 0 < n \<and> nested_within (n - 1) v)"
| "nested_within n (JObject ms) \<longleftrightarrow> (\<forall>m \<in> set ms. 0 < n \<and> nested_within (n - 1) (snd m))"
| "nested_within n _ \<longleftrightarrow> True"

abbreviation acceptable :: "json \<Rightarrow> nat \<Rightarrow> bool" where
  "acceptable v d \<equiv> d \<le> MAX_DEPTH \<and> float_free v \<and> nested_within (MAX_DEPTH - d) v"

lemma write_accepts:
  shows "wf_json v \<Longrightarrow> (\<exists>t. write_canonical v p d = Inr t) \<longleftrightarrow> acceptable v d"
    and "\<forall>v \<in> set vs. wf_json v \<Longrightarrow>
      (\<exists>t. write_items i vs p d = Inr t) \<longleftrightarrow> (\<forall>v \<in> set vs. acceptable v (d + 1))"
    and "\<forall>m \<in> set ms. wf_json (snd m) \<Longrightarrow>
      (\<exists>t. write_members i ms p d = Inr t) \<longleftrightarrow> (\<forall>m \<in> set ms. acceptable (snd m) (d + 1))"
proof (induction v p d and i vs p d and i ms p d
    rule: write_canonical_write_items_write_members.induct)
  case (1 v path depth)
  show ?case
  proof (cases "MAX_DEPTH < depth")
    case True
    then show ?thesis by (simp add: write_canonical.simps)
  next
    case shallow: False
    show ?thesis
    proof (cases v)
      case (JNumber n)
      with shallow show ?thesis
        by (cases n) (simp_all add: write_canonical.simps)
    next
      case (JArray vs)
      have "(\<exists>t. write_canonical v path depth = Inr t) \<longleftrightarrow> (\<exists>t. write_items 0 vs path depth = Inr t)"
        using shallow JArray by (simp add: write_canonical.simps res_iff)
      also have "\<dots> \<longleftrightarrow> (\<forall>v \<in> set vs. acceptable v (depth + 1))"
        using 1(1) [OF shallow JArray] 1(3) JArray by simp
      also have "\<dots> \<longleftrightarrow> acceptable v depth" using shallow JArray by (auto simp: Suc_le_eq)
      finally show ?thesis .
    next
      case (JObject ms)
      have cs: "collect_sorted path [] ms = Inr (sort_key fst ms)"
        using 1(3) JObject by (simp add: collect_sorted_distinct)
      have "(\<exists>t. write_canonical v path depth = Inr t) \<longleftrightarrow>
          (\<exists>t. write_members 0 (sort_key fst ms) path depth = Inr t)"
        using shallow JObject cs by (simp add: write_canonical.simps res_iff)
      also have "\<dots> \<longleftrightarrow> (\<forall>m \<in> set ms. acceptable (snd m) (depth + 1))"
        using 1(2) [OF shallow JObject cs] 1(3) JObject by simp
      also have "\<dots> \<longleftrightarrow> acceptable v depth" using shallow JObject by (auto simp: Suc_le_eq)
      finally show ?thesis .
    qed (use shallow in \<open>simp_all add: write_canonical.simps\<close>)
  qed
next
  case (3 i item items path depth)
  then show ?case by (auto simp: res_iff)
next
  case (5 i key val ms path depth)
  then show ?case by (auto simp: res_iff)
qed simp_all

section \<open>The text has no control characters\<close>

definition printable :: "char \<Rightarrow> bool" where
  "printable c \<longleftrightarrow> 0x20 \<le> (of_char c :: nat)"

lemma printable_hex_byte: "c \<in> set (hex_byte b) \<Longrightarrow> printable c"
  by (auto simp: hex_byte_def printable_def of_char_hex_char less_mult_imp_div_less)

lemma printable_escape: "c \<in> set (json_escape ch) \<Longrightarrow> printable c"
  by (auto simp: json_escape_def dest: printable_hex_byte split: if_splits) (auto simp: printable_def)

lemma printable_json_string: "c \<in> set (write_json_string s) \<Longrightarrow> printable c"
  by (auto simp: write_json_string_def dest: printable_escape) (simp_all add: printable_def)

lemma printable_dec: "c \<in> set (dec n) \<Longrightarrow> printable c"
  by (auto dest!: dec_digits simp: is_digit_def printable_def)

lemma printable_dec_int: "c \<in> set (dec_int i) \<Longrightarrow> printable c"
  by (auto dest!: dec_int_number_chars simp: is_number_char_def is_digit_def printable_def)

lemma write_printable:
  shows "write_canonical v p d = Inr t \<Longrightarrow> \<forall>c \<in> set t. printable c"
    and "write_items i vs p d = Inr t \<Longrightarrow> \<forall>c \<in> set t. printable c"
    and "write_members i ms p d = Inr t \<Longrightarrow> \<forall>c \<in> set t. printable c"
proof (induction v p d and i vs p d and i ms p d arbitrary: t and t and t
    rule: write_canonical_write_items_write_members.induct)
  case (1 v path depth)
  have shallow: "\<not> MAX_DEPTH < depth"
    using 1(3) by (auto simp: write_canonical.simps split: if_splits)
  show ?case
  proof (cases v)
    case (JArray vs)
    then obtain u where "write_items 0 vs path depth = Inr u" and "t = ''['' @ u @ '']''"
      using 1(3) write_array by blast
    then show ?thesis using 1(1) [OF shallow JArray] by (auto simp: printable_def)
  next
    case (JObject ms)
    then obtain entries u where "collect_sorted path [] ms = Inr entries"
      and "write_members 0 entries path depth = Inr u" and "t = ''{'' @ u @ ''}''"
      using 1(3) shallow by (subst (asm) write_canonical.simps) (auto simp: res_iff)
    then show ?thesis using 1(2) [OF shallow JObject] by (auto simp: printable_def)
  next
    case (JNumber n)
    then show ?thesis using 1(3) by (auto dest: write_number printable_dec_int)
  next
    case (JString x)
    then show ?thesis using 1(3) by (auto dest: write_text printable_json_string)
  next
    case (JBool b)
    then show ?thesis using 1(3) by (auto dest!: write_text simp: printable_def split: if_splits)
  next
    case JNull
    then show ?thesis using 1(3) by (auto dest!: write_text simp: printable_def)
  qed
next
  case (3 i item items path depth)
  from 3(3) obtain a b where ab: "write_canonical item (path @ ''['' @ dec i @ '']'') (depth + 1) = Inr a"
      "write_items (Suc i) items path depth = Inr b" "t = (if 0 < i then '','' else []) @ a @ b"
    by (auto simp: res_iff)
  with 3(1) [OF ab(1)] 3(2) [OF ab(1,2)] show ?case by (auto simp: printable_def)
next
  case (5 i key val ms path depth)
  from 5(3) obtain a b where ab: "write_canonical val (path @ ''.'' @ key) (depth + 1) = Inr a"
      "write_members (Suc i) ms path depth = Inr b"
      "t = (if 0 < i then '','' else []) @ write_json_string key @ '':'' @ a @ b"
    by (auto simp: res_iff)
  with 5(1) [OF ab(1)] 5(2) [OF ab(1,2)] show ?case
    by (auto simp: printable_def dest: printable_json_string [unfolded printable_def])
qed simp_all

lemma canonicalise_no_nul: "canonicalise v = Inr t \<Longrightarrow> CHR 0x00 \<notin> set t"
  using write_printable(1) [of v "''$''" 0 t] by (auto simp: canonicalise_def printable_def)

lemma last_separator:
  "z \<notin> set s \<Longrightarrow> z \<notin> set s' \<Longrightarrow> c @ [z] @ s = c' @ [z] @ s' \<Longrightarrow> c = c' \<and> s = s'"
  by (auto simp: append_eq_append_conv2 Cons_eq_append_conv append_eq_Cons_conv)

lemma job_preimage_inject:
  assumes "wf_json v" and "wf_json v'" and "job_preimage c v = Inr b" and "job_preimage c' v' = Inr b'"
  shows "b = b' \<longleftrightarrow> c = c' \<and> normalise v = normalise v'"
proof -
  obtain s s' where s: "canonicalise v = Inr s" "b = c @ [CHR 0x00] @ s"
    and s': "canonicalise v' = Inr s'" "b' = c' @ [CHR 0x00] @ s'"
    using assms(3,4) by (auto simp: job_preimage_def res_iff)
  then have "b = b' \<longleftrightarrow> c = c' \<and> s = s'"
    using last_separator [OF canonicalise_no_nul canonicalise_no_nul, of v s v' s' c c'] by auto
  then show ?thesis using canonicalise_inject [OF assms(1,2) s(1) s'(1)] by simp
qed

section \<open>Properties\<close>

text \<open>
  The canonical text is a canonical form: two accepted inputs get the same text exactly
  when they are the same value up to the order of object keys, at every level of nesting.
\<close>
theorem canonical_text_is_canonical:
  assumes "wf_json v" and "wf_json v'" and "canonicalise v = Inr s" and "canonicalise v' = Inr s'"
  shows "s = s' \<longleftrightarrow> normalise v = normalise v'"
  using assms by (rule canonicalise_inject)

theorem canonical_text_is_canonical_witness:
  "canonicalise (JObject [(''b'', JNumber (PosInt 1)), (''a'', JArray [JNull, JBool True])])
     = Inr ''{\"a\":[null,true],\"b\":1}'' \<and>
   canonicalise (JObject [(''a'', JArray [JNull, JBool True]), (''b'', JNumber (PosInt 1))])
     = Inr ''{\"a\":[null,true],\"b\":1}'' \<and>
   normalise (JObject [(''b'', JNumber (PosInt 1)), (''a'', JArray [JNull, JBool True])])
     = normalise (JObject [(''a'', JArray [JNull, JBool True]), (''b'', JNumber (PosInt 1))])"
proof -
  let ?v = "JObject [(''b'', JNumber (PosInt 1)), (''a'', JArray [JNull, JBool True])]"
  let ?v' = "JObject [(''a'', JArray [JNull, JBool True]), (''b'', JNumber (PosInt 1))]"
  have "canonicalise ?v = Inr ''{\"a\":[null,true],\"b\":1}''"
    and "canonicalise ?v' = Inr ''{\"a\":[null,true],\"b\":1}''" by code_simp+
  then show ?thesis
    using canonical_text_is_canonical [of ?v ?v'] by simp
qed

text \<open>
  Canonicalisation accepts exactly the values without floats that are nested at most
  \<open>MAX_DEPTH\<close> containers deep; every other value is an error.
\<close>
theorem canonicalise_accepts:
  assumes "wf_json v"
  shows "(\<exists>s. canonicalise v = Inr s) \<longleftrightarrow> float_free v \<and> nested_within MAX_DEPTH v"
  using write_accepts(1) [OF assms, of "''$''" 0] by (simp add: canonicalise_def)

theorem canonicalise_accepts_witness:
  "canonicalise (JArray [JNumber (FloatNum ''1.5'')]) = Inl (FloatNotAllowed ''$[0]'') \<and>
   \<not> (\<exists>s. canonicalise (JArray [JNumber (FloatNum ''1.5'')]) = Inr s)"
proof
  show "canonicalise (JArray [JNumber (FloatNum ''1.5'')]) = Inl (FloatNotAllowed ''$[0]'')" by code_simp
  show "\<not> (\<exists>s. canonicalise (JArray [JNumber (FloatNum ''1.5'')]) = Inr s)"
    using canonicalise_accepts [of "JArray [JNumber (FloatNum ''1.5'')]"] by simp
qed

text \<open>
  The separator byte between circuit id and inputs is unambiguous: the hashed bytes of two
  jobs agree exactly when circuit and inputs do, whatever bytes the circuit ids contain, so no
  circuit and input pair can be shifted into another.
\<close>
theorem preimage_identifies_job:
  assumes "wf_json v" and "wf_json v'" and "job_preimage c v = Inr b" and "job_preimage c' v' = Inr b'"
  shows "b = b' \<longleftrightarrow> c = c' \<and> normalise v = normalise v'"
  using assms by (rule job_preimage_inject)

theorem preimage_identifies_job_witness:
  "job_preimage ''ab'' (JString ''c'') \<noteq> job_preimage ''a'' (JString ''bc'')"
proof -
  have "job_preimage ''ab'' (JString ''c'') = Inr (''ab'' @ [CHR 0x00] @ ''\"c\"'')"
    and "job_preimage ''a'' (JString ''bc'') = Inr (''a'' @ [CHR 0x00] @ ''\"bc\"'')" by code_simp+
  then show ?thesis
    using preimage_identifies_job [of "JString ''c''" "JString ''bc''" "''ab''" _ "''a''"] by simp
qed

text \<open>
  Claim C18. Two accepted jobs with the same hash are the same work, or their two preimages are a
  collision of the hash function.
\<close>
theorem job_hash_identifies_job:
  assumes "wf_json v" and "wf_json v'"
    and "job_hash sha256 c v = Inr h" and "job_hash sha256 c' v' = Inr h"
  shows "(c = c' \<and> normalise v = normalise v') \<or>
    (\<exists>b b'. job_preimage c v = Inr b \<and> job_preimage c' v' = Inr b' \<and> b \<noteq> b' \<and> sha256 b = sha256 b')"
  using assms job_preimage_inject by (auto simp: job_hash_def res_iff)

theorem job_hash_identifies_job_witness:
  "(''c'' = ''c'' \<and> normalise (JBool True) = normalise (JBool True)) \<or>
    (\<exists>b b'. job_preimage ''c'' (JBool True) = Inr b \<and> job_preimage ''c'' (JBool True) = Inr b' \<and>
       b \<noteq> b' \<and> rev b = rev b')"
  by (rule job_hash_identifies_job [of "JBool True" "JBool True" rev "''c''" "rev (''c'' @ [CHR 0x00] @ ''true'')"])
     (simp_all add: job_hash_def job_preimage_def canonicalise_def write_canonical.simps MAX_DEPTH_def)

end
