(* ===== verification/Failure.thy ===== *)
theory Failure
  imports Job Rust_Std
begin

text \<open>
  What a submission failure means, \<open>crates/dray-relayer/src/failure.rs\<close>: the classification of a
  node's free-text error by the substrings the source looks for, and what each class asks for.
\<close>

section \<open>Classification\<close>

datatype submission_failure =
    AlreadySettled
  | TransientFailure string
  | PermanentFailure string

definition ALREADY_SETTLED :: "string list" where
  "ALREADY_SETTLED = [''nullifieralreadyused'', ''nullifier already used'']"

definition INVALID_PROOF :: "string list" where
  "INVALID_PROOF =
     [''sumcheckfailed'', ''valuegefieldorder'', ''shpleminifailed'', ''publicinputscountinvalid'',
      ''proofinvalid'', ''invalidproof'', ''invalid proof'']"

definition NONCE_PROBLEMS :: "string list" where
  "NONCE_PROBLEMS =
     [''nonce too low'', ''nonce too high'', ''invalid nonce'', ''nonce has already been used'',
      ''already known'', ''replacement transaction underpriced'']"

fun failure_kind_of :: "submission_failure \<Rightarrow> failure_kind option" where
  "failure_kind_of AlreadySettled = None"
| "failure_kind_of (TransientFailure _) = Some Transient"
| "failure_kind_of (PermanentFailure _) = Some Permanent"

fun failure_metric_label :: "submission_failure \<Rightarrow> string" where
  "failure_metric_label AlreadySettled = ''already_settled''"
| "failure_metric_label (TransientFailure _) = ''transient''"
| "failure_metric_label (PermanentFailure _) = ''permanent''"

fun failure_text :: "submission_failure \<Rightarrow> string" where
  "failure_text AlreadySettled = ''the nullifier is already consumed on chain''"
| "failure_text (TransientFailure message) = message"
| "failure_text (PermanentFailure message) = message"

fun needs_nonce_resync :: "submission_failure \<Rightarrow> bool" where
  "needs_nonce_resync (TransientFailure message) =
     (let lower = to_ascii_lowercase message in list_ex (contains lower) NONCE_PROBLEMS)"
| "needs_nonce_resync _ = False"

definition classify :: "string \<Rightarrow> submission_failure" where
  "classify message =
     (let lower = to_ascii_lowercase message in
      if list_ex (contains lower) ALREADY_SETTLED then AlreadySettled
      else if list_ex (contains lower) INVALID_PROOF then PermanentFailure message
      else TransientFailure message)"

section \<open>Searching in a wrapped message\<close>

text \<open>
  The text searched is a node's message behind the prefix its error type prints. A needle is found
  in the whole exactly when it is found in the message, provided the prefix neither contains it nor
  ends with the beginning of it; both conditions compute.
\<close>

definition clean_prefix :: "string \<Rightarrow> string \<Rightarrow> bool" where
  "clean_prefix p needle \<longleftrightarrow>
     \<not> sublist needle p \<and> list_all (\<lambda>k. \<not> suffix (take k needle) p) [1..<length needle]"

lemma contains_behind_prefix:
  assumes "clean_prefix p needle"
  shows "contains (p @ m) needle \<longleftrightarrow> contains m needle"
proof -
  have split: "a = []" if "needle = a @ b" and "suffix a p" for a b
  proof (rule ccontr)
    assume "a \<noteq> []"
    moreover have "a \<noteq> needle" using that assms by (auto simp: clean_prefix_def)
    ultimately have "length a \<in> set [1..<length needle]" and "take (length a) needle = a"
      using that(1) by (auto simp: Suc_le_eq)
    then show False using assms that(2) unfolding clean_prefix_def list_all_iff by metis
  qed
  show ?thesis
    unfolding contains_def sublist_append
  proof
    assume "sublist needle p \<or> sublist needle m \<or>
      (\<exists>xs1 xs2. needle = xs1 @ xs2 \<and> suffix xs1 p \<and> prefix xs2 m)"
    moreover have "\<not> sublist needle p" using assms by (simp add: clean_prefix_def)
    ultimately show "sublist needle m"
      using split by (metis append_Nil prefix_imp_sublist)
  qed simp
qed

lemma contains_lower: "list_ex (contains (to_ascii_lowercase (to_ascii_lowercase m))) ns
    = list_ex (contains (to_ascii_lowercase m)) ns"
  by simp

lemma classify_cases:
  "classify m = AlreadySettled \<longleftrightarrow> list_ex (contains (to_ascii_lowercase m)) ALREADY_SETTLED"
  "classify m = PermanentFailure m' \<longleftrightarrow> m' = m \<and> \<not> list_ex (contains (to_ascii_lowercase m)) ALREADY_SETTLED
     \<and> list_ex (contains (to_ascii_lowercase m)) INVALID_PROOF"
  "classify m = TransientFailure m' \<longleftrightarrow> m' = m \<and> \<not> list_ex (contains (to_ascii_lowercase m)) ALREADY_SETTLED
     \<and> \<not> list_ex (contains (to_ascii_lowercase m)) INVALID_PROOF"
  by (auto simp: classify_def Let_def)

text \<open>\<open>ChainError::Rpc\<close> as \<open>to_string\<close> prints it.\<close>

definition rpc_prefix :: string where
  "rpc_prefix = ''could not reach the chain: ''"

definition rpc_error_text :: "string \<Rightarrow> string" where
  "rpc_error_text message = rpc_prefix @ message"

lemma rpc_prefix_clean:
  "n \<in> set (ALREADY_SETTLED @ INVALID_PROOF @ NONCE_PROBLEMS) \<Longrightarrow>
   clean_prefix (to_ascii_lowercase rpc_prefix) n"
proof -
  have "list_all (clean_prefix (to_ascii_lowercase rpc_prefix))
      (ALREADY_SETTLED @ INVALID_PROOF @ NONCE_PROBLEMS)" by code_simp
  then show "n \<in> set (ALREADY_SETTLED @ INVALID_PROOF @ NONCE_PROBLEMS) \<Longrightarrow> ?thesis"
    by (simp only: list_all_iff)
qed

lemma lower_append: "to_ascii_lowercase (a @ b) = to_ascii_lowercase a @ to_ascii_lowercase b"
  by (simp add: to_ascii_lowercase_def)

lemma search_rpc_text:
  assumes "set ns \<subseteq> set (ALREADY_SETTLED @ INVALID_PROOF @ NONCE_PROBLEMS)"
  shows "list_ex (contains (to_ascii_lowercase (rpc_error_text m))) ns
    = list_ex (contains (to_ascii_lowercase m)) ns"
  unfolding list_ex_iff rpc_error_text_def lower_append
  using assms contains_behind_prefix [OF rpc_prefix_clean] by blast

section \<open>Properties\<close>

text \<open>
  The text an RPC error is wrapped in does not change what it means: behind the prefix of
  \<open>ChainError::Rpc\<close> a message is classified, and resynchronises the nonce, as the node's message
  alone would; and neither depends on the case of its ASCII letters.
\<close>
theorem classification_is_of_the_message:
  "failure_metric_label (classify (rpc_error_text m)) = failure_metric_label (classify m) \<and>
   needs_nonce_resync (classify (rpc_error_text m)) = needs_nonce_resync (classify m) \<and>
   failure_metric_label (classify (to_ascii_lowercase m)) = failure_metric_label (classify m) \<and>
   needs_nonce_resync (classify (to_ascii_lowercase m)) = needs_nonce_resync (classify m)"
  using search_rpc_text [of ALREADY_SETTLED m] search_rpc_text [of INVALID_PROOF m]
    search_rpc_text [of NONCE_PROBLEMS m]
  by (simp add: classify_def Let_def subset_iff)

text \<open>
  A message that mentions a consumed nullifier is never a failure, whatever surrounds it:
  no text before or after turns a settlement that happened into a failed job, and exactly these
  messages carry no failure kind.
\<close>
theorem consumed_nullifier_is_no_failure:
  assumes "contains (to_ascii_lowercase m) ''nullifieralreadyused''"
  shows "classify (before @ m @ after) = AlreadySettled \<and>
    (failure_kind_of (classify m') = None \<longleftrightarrow> classify m' = AlreadySettled)"
proof -
  have "contains (to_ascii_lowercase (before @ m @ after)) ''nullifieralreadyused''"
    using assms unfolding contains_def lower_append by (meson sublist_appendI sublist_order.order_trans)
  then have "classify (before @ m @ after) = AlreadySettled"
    by (simp add: classify_cases(1) ALREADY_SETTLED_def)
  then show ?thesis by (cases "classify m'") simp_all
qed

theorem consumed_nullifier_is_no_failure_witness:
  "classify (''execution reverted: '' @ ''NullifierAlreadyUsed()'' @ '' invalid proof'') = AlreadySettled"
proof -
  have "contains (to_ascii_lowercase ''NullifierAlreadyUsed()'') ''nullifieralreadyused''" by code_simp
  from consumed_nullifier_is_no_failure [OF this] show ?thesis by blast
qed

end
