(* ===== verification/Gas.thy ===== *)
theory Gas
  imports Dray_Prelude
begin

text \<open>
  Gas pricing of the relayer, \<open>crates/dray-relayer/src/gas.rs\<close>: the first offer, the bump of a stuck
  transaction and the gas limit, on \<open>u128\<close> and \<open>u64\<close> words with the saturating operations of the
  source.
\<close>

section \<open>Policy and fees\<close>

record fees =
  max_fee_per_gas :: u128
  max_priority_fee_per_gas :: u128

datatype bump_result = BumpTo fees | AtCeiling

record gas_policy =
  max_fee_cap :: u128
  max_priority_fee_cap :: u128
  bump_percent :: u32
  base_fee_headroom_percent :: u32

definition MINIMUM_REPLACEMENT_BUMP_PERCENT :: u32 where
  "MINIMUM_REPLACEMENT_BUMP_PERCENT = 10"

definition default_gas_policy :: gas_policy where
  "default_gas_policy =
     \<lparr> max_fee_cap = 5000000000, max_priority_fee_cap = 1000000000,
       bump_percent = 25, base_fee_headroom_percent = 200 \<rparr>"

definition percent_of :: "u128 \<Rightarrow> u32 \<Rightarrow> u128" where
  "percent_of value percent =
     (case checked_div (saturating_mul value (ucast percent)) 100 of Some q \<Rightarrow> q | None \<Rightarrow> 0)"

definition clears_replacement_rule :: "u128 \<Rightarrow> u128 \<Rightarrow> bool" where
  "clears_replacement_rule from to =
     (let required = saturating_add from (percent_of from MINIMUM_REPLACEMENT_BUMP_PERCENT)
      in from < to \<and> required \<le> to)"

definition initial_fees :: "gas_policy \<Rightarrow> u128 \<Rightarrow> u128 \<Rightarrow> fees" where
  "initial_fees self base_fee suggested_priority_fee =
     (let priority = min suggested_priority_fee (max_priority_fee_cap self);
          headroom = percent_of base_fee (base_fee_headroom_percent self);
          max_fee = min (saturating_add headroom priority) (max_fee_cap self)
      in \<lparr> max_fee_per_gas = max_fee, max_priority_fee_per_gas = min priority max_fee \<rparr>)"

text \<open>The closure \<open>raise\<close> of \<open>bump\<close>.\<close>

definition raise_fee :: "gas_policy \<Rightarrow> u128 \<Rightarrow> u128" where
  "raise_fee self value =
     max (saturating_add value (percent_of value (bump_percent self))) (saturating_add value 1)"

definition bump :: "gas_policy \<Rightarrow> fees \<Rightarrow> bump_result" where
  "bump self previous =
     (if max_fee_cap self \<le> max_fee_per_gas previous then AtCeiling
      else
        let max_fee = min (raise_fee self (max_fee_per_gas previous)) (max_fee_cap self);
            priority = min (min (raise_fee self (max_priority_fee_per_gas previous))
                              (max_priority_fee_cap self)) max_fee
        in if \<not> clears_replacement_rule (max_fee_per_gas previous) max_fee then AtCeiling
           else BumpTo \<lparr> max_fee_per_gas = max_fee, max_priority_fee_per_gas = priority \<rparr>)"

definition gas_limit :: "u64 \<Rightarrow> u64" where
  "gas_limit estimate = max (saturating_add estimate (estimate div 5)) 21000"

section \<open>The operations on natural numbers\<close>

lemma unat_ucast_u128: "unat (ucast (p :: u32) :: u128) = unat p"
  using unsigned_less [of p, where ?'a = nat] by (simp add: unsigned_ucast_eq take_bit_nat_eq_self)

lemma unat_le_max: "unat (w :: 'a::len word) \<le> 2 ^ LENGTH('a) - 1"
  using unsigned_less [of w, where ?'a = nat] by arith

lemma unat_u128_max: "unat (w :: u128) \<le> u128_max"
  using unat_le_max [of w] by simp

lemma unat_percent_of [unat_ops]:
  "unat (percent_of v p) = min (unat v * unat p) u128_max div 100"
  by (simp add: percent_of_def checked_div_def unat_ops unat_ucast_u128)

text \<open>What a node requires of a replacement fee, and the specification of the closure \<open>raise\<close>.\<close>

definition required_fee :: "nat \<Rightarrow> nat" where
  "required_fee n = min (n + min (n * 10) u128_max div 100) u128_max"

lemma clears_replacement_rule_iff:
  "clears_replacement_rule from to \<longleftrightarrow> unat from < unat to \<and> required_fee (unat from) \<le> unat to"
  by (simp add: clears_replacement_rule_def Let_def word_less_nat_alt word_le_nat_alt unat_ops
      required_fee_def MINIMUM_REPLACEMENT_BUMP_PERCENT_def)

lemma unat_raise_fee [unat_ops]:
  "unat (raise_fee p v) =
     max (min (unat v + min (unat v * unat (bump_percent p)) u128_max div 100) u128_max)
       (min (unat v + 1) u128_max)"
  by (simp add: raise_fee_def unat_ops)

lemma saturated_rise: "a \<le> b \<Longrightarrow> min (n + a) M \<le> max (min (n + b) M) (min (n + 1) (M :: nat))"
  by (simp add: le_max_iff_disj min.coboundedI1)

lemma saturated_step: "n < (M :: nat) \<Longrightarrow> n < max (min (n + b) M) (min (n + 1) M)"
  by (simp add: less_max_iff_disj)

lemma raise_fee_required:
  assumes "10 \<le> unat (bump_percent p)"
  shows "required_fee (unat v) \<le> unat (raise_fee p v)"
proof -
  have "min (unat v * 10) u128_max div 100 \<le> min (unat v * unat (bump_percent p)) u128_max div 100"
    using assms by (intro div_le_mono min.mono mult_le_mono2) simp_all
  then show ?thesis
    unfolding required_fee_def unat_raise_fee by (rule saturated_rise)
qed

lemma raise_fee_greater: "unat v < u128_max \<Longrightarrow> unat v < unat (raise_fee p v)"
  unfolding unat_raise_fee by (rule saturated_step)

section \<open>Properties\<close>

text \<open>
  The first offer never exceeds a cap, whatever the node reports, never tips more than it
  pays in total, and covers the tip on top of the base fee when the caps leave room for both.
\<close>
theorem initial_fees_within_caps:
  "max_fee_per_gas (initial_fees p base tip) \<le> max_fee_cap p \<and>
   max_priority_fee_per_gas (initial_fees p base tip) \<le> max_priority_fee_cap p \<and>
   max_priority_fee_per_gas (initial_fees p base tip) \<le> max_fee_per_gas (initial_fees p base tip) \<and>
   unat (max_fee_per_gas (initial_fees p base tip)) =
     min (min (min (unat base * unat (base_fee_headroom_percent p)) u128_max div 100
                 + min (unat tip) (unat (max_priority_fee_cap p))) u128_max) (unat (max_fee_cap p))"
  by (simp add: initial_fees_def Let_def word_le_nat_alt unat_ops min.coboundedI1 min.coboundedI2)

lemma bump_To_fields:
  "bump p prev = BumpTo f \<Longrightarrow>
   max_fee_per_gas f = min (raise_fee p (max_fee_per_gas prev)) (max_fee_cap p) \<and>
   max_priority_fee_per_gas f = min (min (raise_fee p (max_priority_fee_per_gas prev))
     (max_priority_fee_cap p)) (max_fee_per_gas f) \<and>
   clears_replacement_rule (max_fee_per_gas prev) (max_fee_per_gas f)"
  by (auto simp: bump_def Let_def split: if_splits)

text \<open>A bump read on natural numbers, for the concrete inputs.\<close>

lemma bump_To_eval:
  assumes "unat (max_fee_per_gas prev) < unat (max_fee_cap p)"
    and "unat m = min (unat (raise_fee p (max_fee_per_gas prev))) (unat (max_fee_cap p))"
    and "unat t = min (min (unat (raise_fee p (max_priority_fee_per_gas prev)))
      (unat (max_priority_fee_cap p))) (unat m)"
    and "required_fee (unat (max_fee_per_gas prev)) \<le> unat m" and "unat (max_fee_per_gas prev) < unat m"
  shows "bump p prev = BumpTo \<lparr> max_fee_per_gas = m, max_priority_fee_per_gas = t \<rparr>"
proof -
  have "m = min (raise_fee p (max_fee_per_gas prev)) (max_fee_cap p)"
    and "t = min (min (raise_fee p (max_priority_fee_per_gas prev)) (max_priority_fee_cap p)) m"
    using assms(2,3) by (simp_all only: word_unat_eq_iff unat_min_word)
  then show ?thesis
    using assms by (auto simp: bump_def Let_def clears_replacement_rule_iff word_le_nat_alt)
qed

text \<open>
  A bump stays under both ceilings, keeps the tip within the total and raises the total
  fee enough for a node to accept the replacement.
\<close>
theorem bump_within_caps:
  assumes "bump p prev = BumpTo f"
  shows "max_fee_per_gas f \<le> max_fee_cap p \<and>
    max_priority_fee_per_gas f \<le> max_priority_fee_cap p \<and>
    max_priority_fee_per_gas f \<le> max_fee_per_gas f \<and>
    unat (max_fee_per_gas prev) < unat (max_fee_per_gas f) \<and>
    required_fee (unat (max_fee_per_gas prev)) \<le> unat (max_fee_per_gas f)"
  using bump_To_fields [OF assms]
  by (auto simp: clears_replacement_rule_iff min.coboundedI1 min.coboundedI2)

theorem bump_within_caps_witness:
  "bump default_gas_policy \<lparr> max_fee_per_gas = 1000, max_priority_fee_per_gas = 100 \<rparr>
     = BumpTo \<lparr> max_fee_per_gas = 1250, max_priority_fee_per_gas = 125 \<rparr> \<and>
   required_fee (unat (1000 :: u128)) \<le> unat (1250 :: u128)"
proof -
  have "bump default_gas_policy \<lparr> max_fee_per_gas = 1000, max_priority_fee_per_gas = 100 \<rparr>
      = BumpTo \<lparr> max_fee_per_gas = 1250, max_priority_fee_per_gas = 125 \<rparr>"
    by (rule bump_To_eval) (simp_all add: default_gas_policy_def unat_raise_fee required_fee_def)
  with bump_within_caps [OF this] show ?thesis by simp
qed

text \<open>
  With a bump percentage at or above the replacement minimum, the ceiling is reported only
  when no fee under it would be accepted as a replacement.
\<close>
theorem bump_ceiling_iff:
  assumes "10 \<le> unat (bump_percent p)"
  shows "bump p prev = AtCeiling \<longleftrightarrow>
    (\<forall>fee. fee \<le> max_fee_cap p \<longrightarrow> \<not> clears_replacement_rule (max_fee_per_gas prev) fee)"
proof -
  let ?from = "max_fee_per_gas prev" and ?cap = "max_fee_cap p"
  have reach: "bump p prev = AtCeiling \<longleftrightarrow> \<not> clears_replacement_rule ?from ?cap"
  proof (cases "?cap \<le> ?from")
    case True
    then show ?thesis by (simp add: bump_def clears_replacement_rule_iff word_le_nat_alt)
  next
    case False
    then have less: "unat ?from < unat ?cap" by (simp add: word_le_nat_alt)
    then have "unat ?from < u128_max" using unat_u128_max [of ?cap] by linarith
    then have "clears_replacement_rule ?from (min (raise_fee p ?from) ?cap) \<longleftrightarrow> clears_replacement_rule ?from ?cap"
      using less raise_fee_greater [of ?from p] raise_fee_required [OF assms, of ?from]
      by (simp add: clears_replacement_rule_iff unat_min_word)
    then show ?thesis using False by (simp add: bump_def Let_def)
  qed
  have "clears_replacement_rule ?from fee \<Longrightarrow> fee \<le> ?cap \<Longrightarrow> clears_replacement_rule ?from ?cap" for fee
    by (simp add: clears_replacement_rule_iff word_le_nat_alt)
  with reach show ?thesis by blast
qed

theorem bump_ceiling_iff_witness:
  "bump default_gas_policy \<lparr> max_fee_per_gas = 4900000000, max_priority_fee_per_gas = 0 \<rparr> = AtCeiling \<and>
   \<not> clears_replacement_rule 4900000000 5000000000"
proof -
  let ?prev = "\<lparr> max_fee_per_gas = 4900000000, max_priority_fee_per_gas = 0 \<rparr> :: fees"
  have "bump default_gas_policy ?prev = AtCeiling"
    by (simp add: bump_def default_gas_policy_def clears_replacement_rule_iff unat_ops required_fee_def)
  then show ?thesis
    using bump_ceiling_iff [of default_gas_policy ?prev] by (simp add: default_gas_policy_def)
qed

text \<open>
  When a bump raises the tip far enough for a node: exactly when the tip's own cap and the
  new total leave room for the required rise. The code tests the total only, so a transaction
  already at its tip cap is bumped to fees a node refuses.
\<close>
theorem bump_tip_clears_iff:
  assumes "10 \<le> unat (bump_percent p)" and "bump p prev = BumpTo f"
    and "unat (max_priority_fee_per_gas prev) < u128_max"
  shows "clears_replacement_rule (max_priority_fee_per_gas prev) (max_priority_fee_per_gas f) \<longleftrightarrow>
    clears_replacement_rule (max_priority_fee_per_gas prev)
      (min (max_priority_fee_cap p) (max_fee_per_gas f))"
  using bump_To_fields [OF assms(2)] raise_fee_required [OF assms(1), of "max_priority_fee_per_gas prev"]
    raise_fee_greater [OF assms(3), of p]
  by (auto simp: clears_replacement_rule_iff unat_min_word)

theorem bump_tip_clears_iff_witness:
  "bump default_gas_policy \<lparr> max_fee_per_gas = 2000000000, max_priority_fee_per_gas = 1000000000 \<rparr>
     = BumpTo \<lparr> max_fee_per_gas = 2500000000, max_priority_fee_per_gas = 1000000000 \<rparr> \<and>
   \<not> clears_replacement_rule 1000000000 (1000000000 :: u128)"
proof -
  let ?prev = "\<lparr> max_fee_per_gas = 2000000000, max_priority_fee_per_gas = 1000000000 \<rparr> :: fees"
  let ?f = "\<lparr> max_fee_per_gas = 2500000000, max_priority_fee_per_gas = 1000000000 \<rparr> :: fees"
  have b: "bump default_gas_policy ?prev = BumpTo ?f"
    by (rule bump_To_eval) (simp_all add: default_gas_policy_def unat_raise_fee required_fee_def)
  then show ?thesis
    using bump_tip_clears_iff [OF _ b] by (simp add: default_gas_policy_def clears_replacement_rule_iff)
qed

text \<open>Replacing a stuck transaction again and again, as the tracking loop does.\<close>

fun bumps :: "gas_policy \<Rightarrow> nat \<Rightarrow> fees \<Rightarrow> bump_result" where
  "bumps p 0 f = BumpTo f"
| "bumps p (Suc n) f = (case bump p f of AtCeiling \<Rightarrow> AtCeiling | BumpTo f' \<Rightarrow> bumps p n f')"

lemma bumps_rise: "bumps p n f = BumpTo g \<Longrightarrow> unat (max_fee_per_gas f) + n \<le> unat (max_fee_per_gas g)"
proof (induction n arbitrary: f)
  case (Suc n)
  then obtain f' where f': "bump p f = BumpTo f'" and rest: "bumps p n f' = BumpTo g"
    by (auto split: bump_result.splits)
  have "unat (max_fee_per_gas f) < unat (max_fee_per_gas f')"
    using bump_To_fields [OF f'] by (auto simp: clears_replacement_rule_iff)
  with Suc.IH [OF rest] show ?case by simp
qed simp

text \<open>
  Claim C32. Bumping ends: after as many bumps as the cap exceeds the first offer, the next one
  reports the ceiling, and no sequence of bumps ends above the cap.
\<close>
theorem bumps_end:
  assumes "max_fee_per_gas f \<le> max_fee_cap p"
  shows "bumps p (Suc (unat (max_fee_cap p) - unat (max_fee_per_gas f))) f = AtCeiling \<and>
    (\<forall>n g. bumps p n f = BumpTo g \<longrightarrow> max_fee_per_gas g \<le> max_fee_cap p)"
proof -
  have cap: "max_fee_per_gas g \<le> max_fee_cap p" if "bumps p n f = BumpTo g" for n g
    using that assms
  proof (induction n arbitrary: f)
    case (Suc n)
    then obtain f' where "bump p f = BumpTo f'" and "bumps p n f' = BumpTo g"
      by (auto split: bump_result.splits)
    then show ?case using Suc.IH bump_To_fields [of p f f'] by simp
  qed simp
  let ?n = "Suc (unat (max_fee_cap p) - unat (max_fee_per_gas f))"
  have "bumps p ?n f \<noteq> BumpTo g" for g
    using bumps_rise [of p ?n f g] cap [of ?n g] by (auto simp: word_le_nat_alt simp del: bumps.simps)
  with cap show ?thesis by (metis bump_result.exhaust)
qed

theorem bumps_end_witness:
  "bumps (default_gas_policy \<lparr> max_fee_cap := 8 \<rparr>) (Suc 6)
     \<lparr> max_fee_per_gas = 2, max_priority_fee_per_gas = 1 \<rparr> = AtCeiling"
  using bumps_end [of "\<lparr> max_fee_per_gas = 2, max_priority_fee_per_gas = 1 \<rparr>"
      "default_gas_policy \<lparr> max_fee_cap := 8 \<rparr>"]
  by (simp add: word_le_nat_alt del: bumps.simps)

text \<open>
  The gas limit covers the estimate with a fifth of headroom and the intrinsic cost of a
  transaction, and never wraps.
\<close>
theorem gas_limit_covers:
  "unat (gas_limit e) = max (min (unat e + unat e div 5) u64_max) 21000 \<and> e \<le> gas_limit e"
  using unat_le_max [of e] by (auto simp: gas_limit_def word_le_nat_alt unat_ops)

end
