(* ===== verification/Chain.thy ===== *)
theory Chain
  imports Failure Gas
begin

text \<open>
  What the relayer knows of the chain, \<open>crates/dray-relayer/src/chain.rs\<close>, and its nonce,
  \<open>crates/dray-relayer/src/nonce.rs\<close>. The node behind the RPC is not code of the repository: every
  call to it is an argument that carries its answer. What is modelled is what the code does with the
  answers, and the two pure functions \<open>circuit_id\<close> (over a parameter for Keccak-256) and
  \<open>public_inputs_from_bytes\<close>.
\<close>

section \<open>Errors and answers\<close>

text \<open>A \<open>B256\<close> is the text of its 32 bytes.\<close>

type_synonym b256 = bytes

datatype chain_error =
    ChainRpc string
  | ChainKey string
  | ChainReverted string string

fun chain_error_text :: "chain_error \<Rightarrow> string" where
  "chain_error_text (ChainRpc m) = rpc_error_text m"
| "chain_error_text (ChainKey m) = ''the relayer key is unusable: '' @ m"
| "chain_error_text (ChainReverted tx_hash reason) =
     ''transaction '' @ tx_hash @ '' reverted: '' @ reason"

record mined_transaction =
  block_number :: u64
  block_hash :: b256
  succeeded :: bool
  gas_used :: u64
  effective_gas_price :: u128

text \<open>The receipt a node returns; one it has not placed in a block has no number or no hash.\<close>

record node_receipt =
  r_block_number :: "u64 option"
  r_block_hash :: "b256 option"
  r_status :: bool
  r_gas_used :: u64
  r_effective_gas_price :: u128

fun mined :: "string + node_receipt option \<Rightarrow> chain_error + mined_transaction option" where
  "mined (Inl e) = Inl (ChainRpc e)"
| "mined (Inr None) = Inr None"
| "mined (Inr (Some r)) =
     (case (r_block_number r, r_block_hash r) of
        (Some n, Some h) \<Rightarrow>
          Inr (Some \<lparr> block_number = n, block_hash = h, succeeded = r_status r,
                      gas_used = r_gas_used r, effective_gas_price = r_effective_gas_price r \<rparr>)
      | _ \<Rightarrow> Inr None)"

text \<open>The base fee recovered from the estimate \<open>(max_fee, priority)\<close>, and the tip.\<close>

fun fee_inputs :: "string + u128 \<times> u128 \<Rightarrow> chain_error + u128 \<times> u128" where
  "fee_inputs (Inl e) = Inl (ChainRpc e)"
| "fee_inputs (Inr (max_fee, priority)) = Inr (saturating_sub max_fee priority, priority)"

text \<open>Nonce and fees of a transaction, given as \<open>(nonce, max_fee, priority if it has one)\<close>.\<close>

fun transaction_terms ::
  "string + (u64 \<times> u128 \<times> u128 option) option \<Rightarrow> chain_error + (u64 \<times> fees) option" where
  "transaction_terms (Inl e) = Inl (ChainRpc e)"
| "transaction_terms (Inr None) = Inr None"
| "transaction_terms (Inr (Some (nonce, max_fee, tip))) =
     (let priority = (case tip of Some t \<Rightarrow> t | None \<Rightarrow> max_fee) in
      Inr (Some (nonce, \<lparr> max_fee_per_gas = max_fee,
                          max_priority_fee_per_gas = min priority max_fee \<rparr>)))"

text \<open>\<open>block_still_canonical\<close>, from the hash of the block the node has at that height.\<close>

fun block_still_canonical :: "string + b256 option \<Rightarrow> b256 \<Rightarrow> chain_error + bool" where
  "block_still_canonical (Inl e) h = Inl (ChainRpc e)"
| "block_still_canonical (Inr block) h = Inr (block = Some h)"

section \<open>Circuit ids and public inputs\<close>

definition circuit_id :: "(bytes \<Rightarrow> b256) \<Rightarrow> string \<Rightarrow> b256" where
  "circuit_id keccak256 circuit = keccak256 (''dray.circuit.'' @ circuit)"

fun chunks_32 :: "bytes \<Rightarrow> b256 list" where
  "chunks_32 bs = (if length bs < 32 then [] else take 32 bs # chunks_32 (drop 32 bs))"

declare chunks_32.simps [simp del]

definition public_inputs_from_bytes :: "bytes \<Rightarrow> b256 list option" where
  "public_inputs_from_bytes bs =
     (if bs = [] \<or> length bs mod 32 \<noteq> 0 then None else Some (chunks_32 bs))"

lemma chunks_32_short: "length bs < 32 \<Longrightarrow> chunks_32 bs = []"
  by (subst chunks_32.simps) simp

lemma chunks_32_long: "\<not> length bs < 32 \<Longrightarrow> chunks_32 bs = take 32 bs # chunks_32 (drop 32 bs)"
  by (subst chunks_32.simps) simp

lemma chunks_32_whole: "length bs mod 32 = 0 \<Longrightarrow> concat (chunks_32 bs) = bs"
proof (induction bs rule: chunks_32.induct)
  case (1 bs)
  show ?case
  proof (cases "length bs < 32")
    case False
    then have "length (drop 32 bs) mod 32 = 0" using 1(2) by (simp add: le_mod_geq [symmetric])
    with False 1(1) show ?thesis by (simp add: chunks_32_long)
  qed (use 1(2) in \<open>simp add: chunks_32_short\<close>)
qed

lemma chunks_32_length: "w \<in> set (chunks_32 bs) \<Longrightarrow> length w = 32"
proof (induction bs rule: chunks_32.induct)
  case (1 bs)
  then show ?case
    by (cases "length bs < 32") (auto simp: chunks_32_short chunks_32_long)
qed

section \<open>The nonce\<close>

text \<open>
  The state behind the manager's lock. A guard is held for a whole submission, so a submission sees
  and leaves one state; the functions take it and return it.
\<close>

record nonce_state =
  next_nonce :: "u64 option"

definition new_nonce_state :: nonce_state where
  "new_nonce_state = \<lparr> next_nonce = None \<rparr>"

definition synchronise :: "u64 \<Rightarrow> nonce_state \<Rightarrow> nonce_state" where
  "synchronise from_chain s = s \<lparr> next_nonce := Some from_chain \<rparr>"

definition consumed :: "nonce_state \<Rightarrow> nonce_state" where
  "consumed s = s \<lparr> next_nonce := map_option (\<lambda>n. saturating_add n 1) (next_nonce s) \<rparr>"

definition invalidate :: "nonce_state \<Rightarrow> nonce_state" where
  "invalidate s = s \<lparr> next_nonce := None \<rparr>"

section \<open>Broadcasting under the lock\<close>

text \<open>
  \<open>Relayer::broadcast\<close> of \<open>crates/dray-relayer/src/relayer.rs\<close>. \<open>pending\<close> is the node's answer to the
  pending count, \<open>submit n\<close> its answer to the transaction with nonce \<open>n\<close>.
\<close>

definition broadcast ::
  "chain_error + u64 \<Rightarrow> (u64 \<Rightarrow> chain_error + b256) \<Rightarrow> nonce_state \<Rightarrow>
   nonce_state \<times> (submission_failure + b256 \<times> u64)" where
  "broadcast pending submit s =
     (case (case next_nonce s of
              Some n \<Rightarrow> (s, Inr n)
            | None \<Rightarrow>
                (case pending of
                   Inl e \<Rightarrow> (s, Inl (classify (chain_error_text e)))
                 | Inr from_chain \<Rightarrow> (synchronise from_chain s, Inr from_chain))) of
        (s', Inl f) \<Rightarrow> (s', Inl f)
      | (s', Inr n) \<Rightarrow>
          (case submit n of
             Inr tx_hash \<Rightarrow> (consumed s', Inr (tx_hash, n))
           | Inl e \<Rightarrow>
               (let classified = classify (chain_error_text e) in
                (if needs_nonce_resync classified then invalidate s' else s', Inl classified))))"

fun broadcasts ::
  "(chain_error + u64) list \<Rightarrow> (u64 \<Rightarrow> chain_error + b256) list \<Rightarrow> nonce_state \<Rightarrow>
   nonce_state \<times> (submission_failure + b256 \<times> u64) list" where
  "broadcasts (p # ps) (sub # subs) s =
     (case broadcast p sub s of (s', r) \<Rightarrow>
      case broadcasts ps subs s' of (s'', rs) \<Rightarrow> (s'', r # rs))"
| "broadcasts _ _ s = (s, [])"

text \<open>The nonces the node accepted, in order.\<close>

fun accepted :: "(submission_failure + b256 \<times> u64) list \<Rightarrow> u64 list" where
  "accepted [] = []"
| "accepted (Inr (_, n) # rs) = n # accepted rs"
| "accepted (Inl _ # rs) = accepted rs"

definition drifted :: "submission_failure + b256 \<times> u64 \<Rightarrow> bool" where
  "drifted r \<longleftrightarrow> (case r of Inl f \<Rightarrow> needs_nonce_resync f | Inr _ \<Rightarrow> False)"

lemma broadcast_known:
  assumes "next_nonce s = Some n" and "broadcast p sub s = (s', r)"
  shows "(\<exists>h. sub n = Inr h \<and> r = Inr (h, n) \<and> next_nonce s' = Some (saturating_add n 1)) \<or>
    (\<exists>e. sub n = Inl e \<and> r = Inl (classify (chain_error_text e)) \<and>
       next_nonce s' = (if drifted r then None else Some n))"
  using assms
  by (auto simp: broadcast_def consumed_def invalidate_def drifted_def Let_def split: sum.splits)

lemma saturating_add_one: "unat n + 1 < 2 ^ 64 \<Longrightarrow> saturating_add n (1 :: u64) = n + 1"
  by (simp add: saturating_add_def)

lemma broadcasts_consecutive:
  assumes "next_nonce s = Some n" and "broadcasts ps subs s = (s', rs)"
    and "\<not> list_ex drifted rs" and "unat n + length rs < 2 ^ 64"
  shows "map unat (accepted rs) = [unat n ..< unat n + length (accepted rs)] \<and>
    next_nonce s' = Some (n + of_nat (length (accepted rs)))"
  using assms
proof (induction ps subs s arbitrary: n rs rule: broadcasts.induct)
  case (1 p ps sub subs s)
  obtain s1 r where r: "broadcast p sub s = (s1, r)" by fastforce
  obtain s2 rs' where rs': "broadcasts ps subs s1 = (s2, rs')" by fastforce
  from 1(3) r rs' have rs: "rs = r # rs'" and s': "s' = s2" by auto
  from broadcast_known [OF 1(2) r] show ?case
  proof (elim disjE exE conjE)
    fix h assume h: "sub n = Inr h" "r = Inr (h, n)" "next_nonce s1 = Some (saturating_add n 1)"
    have n1: "saturating_add n 1 = n + 1" and u1: "unat (n + 1) = unat n + 1"
      using 1(5) rs by (simp_all add: saturating_add_one unat_word_ariths)
    have "map unat (accepted rs') = [unat (n + 1) ..< unat (n + 1) + length (accepted rs')] \<and>
        next_nonce s2 = Some (n + 1 + of_nat (length (accepted rs')))"
      using 1(1) [OF r [symmetric], of "n + 1" rs'] h(3) n1 u1 rs' 1(4,5) rs s' by simp
    moreover have "[unat n ..< unat n + Suc k] = unat n # [unat (n + 1) ..< unat (n + 1) + k]" for k
      using u1 by (subst upt_conv_Cons) simp_all
    ultimately show ?thesis using rs s' h by (simp add: add.assoc del: upt_Suc)
  next
    fix e assume e: "r = Inl (classify (chain_error_text e))"
      "next_nonce s1 = (if drifted r then None else Some n)"
    then have "next_nonce s1 = Some n" using 1(4) rs by simp
    then show ?thesis
      using 1(1) [OF r [symmetric], of n rs'] rs' 1(4,5) rs s' e by simp
  qed
qed auto

section \<open>Properties\<close>

text \<open>
  Claim C31. No gap and no reuse: while no failure says the counter has drifted, the nonces of the
  transactions the node accepted are consecutive from the known one, however many broadcasts failed
  in between, and the counter stands at the first unused nonce.
\<close>
theorem nonces_are_consecutive:
  assumes "next_nonce s = Some n" and "broadcasts ps subs s = (s', rs)"
    and "\<not> list_ex drifted rs" and "unat n + length rs < 2 ^ 64"
  shows "map unat (accepted rs) = [unat n ..< unat n + length (accepted rs)] \<and>
    next_nonce s' = Some (n + of_nat (length (accepted rs)))"
  using assms by (rule broadcasts_consecutive)

theorem nonces_are_consecutive_witness:
  "map unat (accepted (snd (broadcasts [Inr 0, Inr 0, Inr 0]
       [\<lambda>n. Inr ''a'', \<lambda>n. Inl (ChainRpc ''timeout''), \<lambda>n. Inr ''b''] \<lparr> next_nonce = Some 7 \<rparr>)))
     = [7, 8]"
proof -
  let ?subs = "[\<lambda>n. Inr ''a'', \<lambda>n. Inl (ChainRpc ''timeout''), \<lambda>n. Inr ''b'']"
  have c: "classify (rpc_error_text ''timeout'') = TransientFailure (rpc_error_text ''timeout'')"
    and d: "\<not> needs_nonce_resync (TransientFailure (rpc_error_text ''timeout''))" by code_simp+
  have run: "broadcasts [Inr 0, Inr 0, Inr 0] ?subs \<lparr> next_nonce = Some 7 \<rparr>
    = (\<lparr> next_nonce = Some 9 \<rparr>, [Inr (''a'', 7), Inl (TransientFailure (rpc_error_text ''timeout'')), Inr (''b'', 8)])"
    using d by (simp add: broadcast_def consumed_def c saturating_add_def Let_def)
  have "\<not> list_ex drifted [Inr (''a'', 7), Inl (TransientFailure (rpc_error_text ''timeout'')), Inr (''b'', 8)]"
    using d by (simp del: needs_nonce_resync.simps add: drifted_def)
  from nonces_are_consecutive [OF _ run this, of 7] show ?thesis unfolding run by (simp add: upt_rec)
qed

text \<open>
  One broadcast uses the known nonce, or else the node's pending count; a failure never
  advances the counter, and it forgets the counter exactly when the error names a nonce problem, so
  that the next attempt reads the count again.
\<close>
theorem broadcast_nonce_use:
  assumes "broadcast pending submit s = (s', r)"
  shows "(\<forall>h n. r = Inr (h, n) \<longrightarrow> submit n = Inr h \<and> next_nonce s' = Some (saturating_add n 1) \<and>
        (case next_nonce s of Some m \<Rightarrow> n = m | None \<Rightarrow> pending = Inr n)) \<and>
    (\<forall>f. r = Inl f \<longrightarrow> next_nonce s' = None \<or> next_nonce s' = next_nonce s \<or>
        (next_nonce s = None \<and> (\<exists>n. pending = Inr n \<and> next_nonce s' = Some n))) \<and>
    (\<forall>f. r = Inl f \<and> needs_nonce_resync f \<and> (\<exists>n. next_nonce s = Some n) \<longrightarrow> next_nonce s' = None)"
  using assms
  by (auto simp: broadcast_def synchronise_def consumed_def invalidate_def Let_def
      split: option.splits sum.splits if_splits prod.splits)

theorem broadcast_nonce_use_witness:
  "next_nonce (fst (broadcast (Inr 3) (\<lambda>n. Inl (ChainRpc ''nonce too low'')) \<lparr> next_nonce = Some 5 \<rparr>)) = None"
proof -
  let ?e = "classify (rpc_error_text ''nonce too low'')"
  have d: "needs_nonce_resync ?e" by code_simp
  have run: "broadcast (Inr 3) (\<lambda>n. Inl (ChainRpc ''nonce too low'')) \<lparr> next_nonce = Some 5 \<rparr>
      = (invalidate \<lparr> next_nonce = Some 5 \<rparr>, Inl ?e)"
    using d by (simp add: broadcast_def Let_def)
  show ?thesis using broadcast_nonce_use [OF run] d by (simp add: run)
qed

text \<open>
  Public inputs are read as whole field elements only: every accepted byte string is the
  concatenation of its elements of 32 bytes each, at least one of them, and every other length is
  refused rather than padded or truncated.
\<close>
theorem public_inputs_whole:
  "(case public_inputs_from_bytes bs of
      Some ws \<Rightarrow> concat ws = bs \<and> ws \<noteq> [] \<and> list_all (\<lambda>w. length w = 32) ws
    | None \<Rightarrow> (length bs mod 32 = 0) = (bs = []))"
proof (cases "bs = [] \<or> length bs mod 32 \<noteq> 0")
  case False
  then have "chunks_32 bs \<noteq> []" using chunks_32_whole [of bs] by force
  with False show ?thesis
    using chunks_32_whole [of bs] chunks_32_length [of _ bs]
    by (auto simp: public_inputs_from_bytes_def list_all_iff)
qed (auto simp: public_inputs_from_bytes_def)

end
