(* ===== verification/Store_Schema.thy ===== *)
theory Store_Schema
  imports Job Canonical
begin

text \<open>
  The durable state of \<open>crates/dray-store/src/lib.rs\<close>: the tables of \<open>migrations/*.sql\<close> as lists of
  rows in insertion order, the row types of the source, the constraints the schema puts on every
  write, and the statements the operations are made of. A statement that violates a constraint is
  the error \<open>StoreError::Database\<close>; since an operation returns either an error or the new tables, its
  error leaves the tables as they were, which is the rollback of its transaction.

  Times are microseconds (the resolution of \<open>TIMESTAMPTZ\<close>); \<open>now\<close> is the time a transaction started.
  Interval arguments are the microseconds \<open>make_interval\<close> makes of the seconds the code binds.
\<close>

section \<open>Rows\<close>

type_synonym uuid = nat
type_synonym time = int
type_synonym interval = int

record circuit =
  c_id :: string
  c_display_name :: string
  c_input_schema :: json
  c_verifier_address :: "string option"
  c_enabled :: bool

text \<open>\<open>Job\<close> is what the code reads of a row of \<open>jobs\<close>; the row also has the expiry of its lease.\<close>

record job =
  j_id :: uuid
  j_circuit_id :: string
  j_job_hash :: bytes
  j_idempotency_key :: "string option"
  j_inputs :: json
  j_state :: job_state
  j_attempts :: int
  j_max_attempts :: int
  j_submission_attempts :: int
  j_last_error :: "string option"
  j_leased_by :: "string option"
  j_proof :: "bytes option"
  j_public_inputs :: "bytes option"
  j_retry_after :: "time option"
  j_created_at :: time
  j_updated_at :: time

record job_row = job +
  j_lease_expires_at :: "time option"

datatype attempt_outcome = Succeeded | FailedAttempt | AbandonedAttempt

record attempt_row =
  a_job_id :: uuid
  a_attempt_number :: int
  a_worker_id :: string
  a_outcome :: "attempt_outcome option"
  a_error :: "string option"
  a_duration_ms :: "int option"
  a_peak_memory_kb :: "int option"
  a_started_at :: time
  a_finished_at :: "time option"

record transition_row =
  t_job_id :: uuid
  t_from_state :: job_state
  t_event :: job_event
  t_to_state :: job_state
  t_actor :: "string option"
  t_detail :: "string option"
  t_occurred_at :: time

record settlement =
  s_job_id :: uuid
  s_tx_hash :: bytes
  s_nullifier :: bytes
  s_block_number :: "int option"
  s_confirmations :: int
  s_gas_used :: "int option"
  s_effective_gas_price :: "string option"
  s_reorged_at :: "time option"

record settlement_row = settlement +
  s_created_at :: time
  s_updated_at :: time

record receipt =
  rc_block_number :: int
  rc_confirmations :: int
  rc_gas_used :: "int option"
  rc_effective_gas_price :: "string option"

record db =
  circuits_tbl :: "circuit list"
  jobs_tbl :: "job_row list"
  attempts_tbl :: "attempt_row list"
  transitions_tbl :: "transition_row list"
  settlements_tbl :: "settlement_row list"

definition empty_db :: db where
  "empty_db = \<lparr> circuits_tbl = [], jobs_tbl = [], attempts_tbl = [], transitions_tbl = [],
                settlements_tbl = [] \<rparr>"

section \<open>Errors\<close>

datatype db_error =
    CheckViolation string
  | UniqueViolation string
  | ForeignKeyViolation string
  | NumericOutOfRange
  | InvalidNumeric
  | RowNotFound

datatype store_error =
    DatabaseError db_error
  | JobNotFound uuid
  | CircuitNotFound string
  | CircuitDisabled string
  | IllegalTransitionError illegal_transition
  | CanonicalError canonical_error

text \<open>\<open>transition(..)?\<close> inside an operation of the store.\<close>

definition transition_or :: "job_state \<Rightarrow> job_event \<Rightarrow> store_error + job_state" where
  "transition_or s e = map_err IllegalTransitionError (transition s e)"

section \<open>Constraints\<close>

text \<open>The \<open>CHECK\<close> constraints of \<open>jobs\<close>, after all migrations; the first one violated is the error.\<close>

definition job_checks :: "(string \<times> (job_row \<Rightarrow> bool)) list" where
  "job_checks =
     [(''jobs_job_hash_is_32_bytes'', \<lambda>r. length (j_job_hash r) = 32),
      (''jobs_attempts_non_negative'', \<lambda>r. 0 \<le> j_attempts r),
      (''jobs_max_attempts_positive'', \<lambda>r. 0 < j_max_attempts r),
      (''jobs_lease_is_all_or_nothing'', \<lambda>r. (j_leased_by r = None) = (j_lease_expires_at r = None)),
      (''jobs_proved_states_have_a_proof'', \<lambda>r.
         j_state r \<notin> {S_Proved, S_Submitting, S_Settled} \<or>
         j_proof r \<noteq> None \<and> j_public_inputs r \<noteq> None),
      (''jobs_submission_attempts_non_negative'', \<lambda>r. 0 \<le> j_submission_attempts r),
      (''jobs_retry_after_only_when_waiting'', \<lambda>r.
         j_retry_after r = None \<or> j_state r \<in> {S_Queued, S_Proved})]"

definition attempt_checks :: "(string \<times> (attempt_row \<Rightarrow> bool)) list" where
  "attempt_checks =
     [(''job_attempts_number_positive'', \<lambda>a. 0 < a_attempt_number a),
      (''job_attempts_finished_after_started'', \<lambda>a.
         case a_finished_at a of None \<Rightarrow> True | Some t \<Rightarrow> a_started_at a \<le> t)]"

definition settlement_checks :: "(string \<times> (settlement_row \<Rightarrow> bool)) list" where
  "settlement_checks =
     [(''settlements_tx_hash_is_32_bytes'', \<lambda>s. length (s_tx_hash s) = 32),
      (''settlements_nullifier_is_32_bytes'', \<lambda>s. length (s_nullifier s) = 32),
      (''settlements_confirmations_non_negative'', \<lambda>s. 0 \<le> s_confirmations s)]"

definition check_row :: "(string \<times> ('r \<Rightarrow> bool)) list \<Rightarrow> 'r \<Rightarrow> store_error + unit" where
  "check_row checks r =
     (case find (\<lambda>c. \<not> snd c r) checks of
        None \<Rightarrow> Inr ()
      | Some c \<Rightarrow> Inl (DatabaseError (CheckViolation (fst c))))"

definition satisfies :: "(string \<times> ('r \<Rightarrow> bool)) list \<Rightarrow> 'r \<Rightarrow> bool" where
  "satisfies checks r \<longleftrightarrow> list_all (\<lambda>c. snd c r) checks"

lemma check_row_ok [res_iff]: "check_row checks r = Inr u \<longleftrightarrow> satisfies checks r"
  by (auto simp: check_row_def satisfies_def list_all_iff find_None_set split: option.splits
      dest: find_SomeD)

text \<open>An \<open>INTEGER\<close> column incremented in place.\<close>

definition increment_i32 :: "int \<Rightarrow> store_error + int" where
  "increment_i32 n = (if n + 1 \<le> i32_max then Inr (n + 1) else Inl (DatabaseError NumericOutOfRange))"

lemma increment_i32_ok [res_iff]: "increment_i32 n = Inr m \<longleftrightarrow> m = n + 1 \<and> m \<le> i32_max"
  by (auto simp: increment_i32_def)

section \<open>Statements\<close>

definition find_job :: "uuid \<Rightarrow> db \<Rightarrow> job_row option" where
  "find_job jid db = find (\<lambda>r. j_id r = jid) (jobs_tbl db)"

text \<open>
  \<open>UPDATE jobs SET .. WHERE id = $1 RETURNING ..\<close>: the trigger stamps \<open>updated_at\<close>, the constraints
  are checked, and no row is the error of \<open>fetch_one\<close>.
\<close>

definition update_job ::
  "uuid \<Rightarrow> (job_row \<Rightarrow> job_row) \<Rightarrow> time \<Rightarrow> db \<Rightarrow> store_error + job_row \<times> db" where
  "update_job jid f now db =
     and_then (ok_or (find_job jid db) (DatabaseError RowNotFound)) (\<lambda>r.
     let r' = (f r)\<lparr> j_updated_at := now \<rparr> in
     and_then (check_row job_checks r') (\<lambda>_.
     Inr (r', db\<lparr> jobs_tbl := update_where (\<lambda>x. j_id x = jid) (\<lambda>_. r') (jobs_tbl db) \<rparr>)))"

definition insert_transition ::
  "uuid \<Rightarrow> job_state \<Rightarrow> job_event \<Rightarrow> job_state \<Rightarrow> string option \<Rightarrow> string option \<Rightarrow> time \<Rightarrow> db \<Rightarrow> db"
where
  "insert_transition jid from event to actor detail now db =
     db\<lparr> transitions_tbl := transitions_tbl db @
       [\<lparr> t_job_id = jid, t_from_state = from, t_event = event, t_to_state = to,
          t_actor = actor, t_detail = detail, t_occurred_at = now \<rparr>] \<rparr>"

text \<open>\<open>INSERT INTO job_attempts .. ON CONFLICT (job_id, attempt_number) DO NOTHING\<close>.\<close>

definition insert_attempt :: "uuid \<Rightarrow> int \<Rightarrow> string \<Rightarrow> time \<Rightarrow> db \<Rightarrow> store_error + db" where
  "insert_attempt jid number worker now db =
     (if list_ex (\<lambda>a. a_job_id a = jid \<and> a_attempt_number a = number) (attempts_tbl db) then Inr db
      else
        let a = \<lparr> a_job_id = jid, a_attempt_number = number, a_worker_id = worker, a_outcome = None,
                  a_error = None, a_duration_ms = None, a_peak_memory_kb = None,
                  a_started_at = now, a_finished_at = None \<rparr> in
        and_then (check_row attempt_checks a) (\<lambda>_.
        Inr (db\<lparr> attempts_tbl := attempts_tbl db @ [a] \<rparr>)))"

text \<open>An \<open>UPDATE job_attempts\<close>; any number of rows may match.\<close>

definition update_attempts ::
  "(attempt_row \<Rightarrow> bool) \<Rightarrow> (attempt_row \<Rightarrow> attempt_row) \<Rightarrow> db \<Rightarrow> store_error + db" where
  "update_attempts p f db =
     (case find (\<lambda>a. p a \<and> \<not> satisfies attempt_checks (f a)) (attempts_tbl db) of
        Some a \<Rightarrow> and_then (check_row attempt_checks (f a)) (\<lambda>_. Inr db)
      | None \<Rightarrow> Inr (db\<lparr> attempts_tbl := update_where p f (attempts_tbl db) \<rparr>))"

text \<open>An \<open>UPDATE settlements\<close>, whose trigger stamps \<open>updated_at\<close> as the statements do themselves.\<close>

definition update_settlements ::
  "(settlement_row \<Rightarrow> bool) \<Rightarrow> (settlement_row \<Rightarrow> settlement_row) \<Rightarrow> time \<Rightarrow> db \<Rightarrow> store_error + db"
where
  "update_settlements p f now db =
     (let g = (\<lambda>s. (f s)\<lparr> s_updated_at := now \<rparr>) in
      case find (\<lambda>s. p s \<and> \<not> satisfies settlement_checks (g s)) (settlements_tbl db) of
        Some s \<Rightarrow> and_then (check_row settlement_checks (g s)) (\<lambda>_. Inr db)
      | None \<Rightarrow> Inr (db\<lparr> settlements_tbl := update_where p g (settlements_tbl db) \<rparr>))"

text \<open>
  \<open>$6::numeric\<close> into \<open>NUMERIC(78, 0)\<close>: a decimal integer of at most 78 digits, which is what the code
  prints a \<open>u128\<close> as. Other spellings PostgreSQL may accept are errors here.
\<close>

definition numeric_78 :: "string option \<Rightarrow> store_error + string option" where
  "numeric_78 v =
     (case v of
        None \<Rightarrow> Inr None
      | Some s \<Rightarrow> if dec (undec s) = s \<and> length s \<le> 78 then Inr (Some s)
                  else Inl (DatabaseError InvalidNumeric))"

section \<open>What the statements keep\<close>

lemma update_job_ok [res_iff]:
  "update_job jid f now db = Inr (r', db') \<longleftrightarrow>
   (\<exists>r. find_job jid db = Some r \<and> r' = (f r)\<lparr> j_updated_at := now \<rparr> \<and> satisfies job_checks r' \<and>
      db' = db\<lparr> jobs_tbl := update_where (\<lambda>x. j_id x = jid) (\<lambda>_. r') (jobs_tbl db) \<rparr>)"
  by (auto simp: update_job_def Let_def res_iff)

lemma update_attempts_ok:
  "update_attempts p f db = Inr db' \<Longrightarrow>
   db' = db\<lparr> attempts_tbl := update_where p f (attempts_tbl db) \<rparr>"
  by (auto simp: update_attempts_def res_iff split: option.splits dest: find_SomeD)

lemma update_settlements_ok:
  "update_settlements p f now db = Inr db' \<Longrightarrow>
   db' = db\<lparr> settlements_tbl := update_where p (\<lambda>s. (f s)\<lparr> s_updated_at := now \<rparr>) (settlements_tbl db) \<rparr>"
  by (auto simp: update_settlements_def Let_def res_iff split: option.splits dest: find_SomeD)

lemma insert_attempt_ok:
  "insert_attempt jid n w now db = Inr db' \<Longrightarrow> \<exists>ats. db' = db\<lparr> attempts_tbl := ats \<rparr>"
  by (auto simp: insert_attempt_def Let_def res_iff split: if_splits intro: exI [of _ "attempts_tbl db"])

lemma transition_or_ok [res_iff]: "transition_or s e = Inr t \<longleftrightarrow> transition s e = Inr t"
  by (simp add: transition_or_def res_iff)

lemma find_job_update:
  "find_job jid db = Some r \<Longrightarrow> j_id r' = jid \<Longrightarrow>
   find_job i (db\<lparr> jobs_tbl := update_where (\<lambda>x. j_id x = jid) (\<lambda>_. r') (jobs_tbl db) \<rparr>)
     = (if i = jid then Some r' else find_job i db)"
  by (auto simp: find_job_def find_update_where_hit intro: find_update_where_other)

lemma find_job_id: "find_job jid db = Some r \<Longrightarrow> j_id r = jid \<and> r \<in> set (jobs_tbl db)"
  by (auto simp: find_job_def dest: find_SomeD)

lemma find_job_other_tables [simp]:
  "find_job jid (db\<lparr> attempts_tbl := a \<rparr>) = find_job jid db"
  "find_job jid (db\<lparr> transitions_tbl := t \<rparr>) = find_job jid db"
  "find_job jid (db\<lparr> settlements_tbl := s \<rparr>) = find_job jid db"
  "find_job jid (db\<lparr> circuits_tbl := c \<rparr>) = find_job jid db"
  "find_job jid (insert_transition i f e t' ac d now db) = find_job jid db"
  by (simp_all add: find_job_def insert_transition_def)

lemma distinct_find:
  "distinct (map f xs) \<Longrightarrow> x \<in> set xs \<Longrightarrow> find (\<lambda>y. f y = f x) xs = Some x"
  by (induction xs) auto

end
