(* ===== verification/Store.thy ===== *)
theory Store
  imports Store_Schema
begin

text \<open>
  The operations of \<open>crates/dray-store/src/lib.rs\<close>, statement by statement. Each takes the time its
  transaction started and the tables, and returns an error or its result with the new tables.
  \<open>locked\<close> are the rows other transactions hold, which \<open>FOR UPDATE SKIP LOCKED\<close> passes over.
\<close>

section \<open>Circuits\<close>

definition find_circuit :: "string \<Rightarrow> db \<Rightarrow> circuit option" where
  "find_circuit cid db = find (\<lambda>c. c_id c = cid) (circuits_tbl db)"

definition upsert_circuit :: "circuit \<Rightarrow> db \<Rightarrow> store_error + unit \<times> db" where
  "upsert_circuit c db =
     (if list_all (\<lambda>ch. ch = CHR '' '') (c_id c)
      then Inl (DatabaseError (CheckViolation ''circuits_id_not_blank''))
      else if find_circuit (c_id c) db = None then Inr ((), db\<lparr> circuits_tbl := circuits_tbl db @ [c] \<rparr>)
      else Inr ((), db\<lparr> circuits_tbl := update_where (\<lambda>x. c_id x = c_id c) (\<lambda>_. c) (circuits_tbl db) \<rparr>))"

section \<open>Jobs\<close>

text \<open>\<open>Job::from_row\<close>: every column the code selects.\<close>

definition from_row :: "job_row \<Rightarrow> job" where
  "from_row r = job.truncate r"

datatype enqueued = Created | Duplicate

definition new_job_row ::
  "uuid \<Rightarrow> string \<Rightarrow> bytes \<Rightarrow> string option \<Rightarrow> json \<Rightarrow> int \<Rightarrow> time \<Rightarrow> job_row" where
  "new_job_row jid cid hash key inputs max_attempts now =
     \<lparr> j_id = jid, j_circuit_id = cid, j_job_hash = hash, j_idempotency_key = key,
       j_inputs = inputs, j_state = S_Queued, j_attempts = 0, j_max_attempts = max_attempts,
       j_submission_attempts = 0, j_last_error = None, j_leased_by = None, j_proof = None,
       j_public_inputs = None, j_retry_after = None, j_created_at = now, j_updated_at = now,
       j_lease_expires_at = None \<rparr>"

text \<open>\<open>new_id\<close> is what \<open>gen_random_uuid()\<close> drew.\<close>

definition enqueue ::
  "(bytes \<Rightarrow> bytes) \<Rightarrow> uuid \<Rightarrow> string \<Rightarrow> json \<Rightarrow> string option \<Rightarrow> int \<Rightarrow> time \<Rightarrow> db \<Rightarrow>
   store_error + (job \<times> enqueued) \<times> db" where
  "enqueue sha256 new_id cid inputs key max_attempts now db =
     and_then (ok_or (find_circuit cid db) (CircuitNotFound cid)) (\<lambda>c.
     if \<not> c_enabled c then Inl (CircuitDisabled cid)
     else
       and_then (map_err CanonicalError (job_hash sha256 cid inputs)) (\<lambda>hash.
       let r = new_job_row new_id cid hash key inputs max_attempts now in
       and_then (check_row job_checks r) (\<lambda>_.
       case find (\<lambda>x. j_job_hash x = hash) (jobs_tbl db) of
         Some existing \<Rightarrow> Inr ((from_row existing, Duplicate), db)
       | None \<Rightarrow>
           if find_job new_id db \<noteq> None then Inl (DatabaseError (UniqueViolation ''jobs_pkey''))
           else Inr ((from_row r, Created), db\<lparr> jobs_tbl := jobs_tbl db @ [r] \<rparr>))))"

definition job_by_id :: "uuid \<Rightarrow> db \<Rightarrow> job option" where
  "job_by_id jid db = map_option from_row (find_job jid db)"

definition job_by_hash :: "bytes \<Rightarrow> db \<Rightarrow> job option" where
  "job_by_hash hash db = map_option from_row (find (\<lambda>r. j_job_hash r = hash) (jobs_tbl db))"

definition apply_event_in_tx ::
  "uuid \<Rightarrow> job_event \<Rightarrow> string option \<Rightarrow> string option \<Rightarrow> time \<Rightarrow> db \<Rightarrow> store_error + job \<times> db" where
  "apply_event_in_tx jid event actor detail now db =
     and_then (ok_or (find_job jid db) (JobNotFound jid)) (\<lambda>r.
     and_then (transition_or (j_state r) event) (\<lambda>next.
     let keeps_lease = is_in_flight next in
     and_then (update_job jid (\<lambda>x. x\<lparr>
         j_state := next,
         j_leased_by := (if keeps_lease then j_leased_by x else None),
         j_lease_expires_at := (if keeps_lease then j_lease_expires_at x else None),
         j_last_error := (case detail of Some d \<Rightarrow> Some d | None \<Rightarrow> j_last_error x) \<rparr>) now db)
       (\<lambda>(updated, db').
     Inr (from_row updated,
          insert_transition jid (j_state r) event next actor detail now db'))))"

definition apply_event ::
  "uuid \<Rightarrow> job_event \<Rightarrow> string option \<Rightarrow> string option \<Rightarrow> time \<Rightarrow> db \<Rightarrow> store_error + job \<times> db" where
  "apply_event jid event actor detail now db = apply_event_in_tx jid event actor detail now db"

section \<open>Leasing\<close>

text \<open>\<open>ORDER BY created_at .. LIMIT 1\<close>; rows of the same age are taken in storage order.\<close>

fun oldest :: "job_row list \<Rightarrow> job_row option" where
  "oldest [] = None"
| "oldest (r # rs) =
     (case oldest rs of
        None \<Rightarrow> Some r
      | Some s \<Rightarrow> Some (if j_created_at r \<le> j_created_at s then r else s))"

text \<open>The \<open>WHERE\<close> clause the two queues share.\<close>

definition leasable :: "job_state \<Rightarrow> uuid list \<Rightarrow> time \<Rightarrow> job_row \<Rightarrow> bool" where
  "leasable st locked now r \<longleftrightarrow>
     j_state r = st \<and> (case j_retry_after r of None \<Rightarrow> True | Some t \<Rightarrow> t \<le> now) \<and> j_id r \<notin> set locked"

definition candidate :: "job_state \<Rightarrow> uuid list \<Rightarrow> time \<Rightarrow> db \<Rightarrow> job_row option" where
  "candidate st locked now db = oldest (filter (leasable st locked now) (jobs_tbl db))"

definition lease_next ::
  "uuid list \<Rightarrow> string \<Rightarrow> interval \<Rightarrow> time \<Rightarrow> db \<Rightarrow> store_error + job option \<times> db" where
  "lease_next locked worker ttl now db =
     (case candidate S_Queued locked now db of
        None \<Rightarrow> Inr (None, db)
      | Some row \<Rightarrow>
          let jid = j_id row in
          and_then (transition_or S_Queued E_Leased) (\<lambda>next.
          and_then (increment_i32 (j_attempts row)) (\<lambda>attempts.
          and_then (update_job jid (\<lambda>x. x\<lparr>
              j_state := next,
              j_leased_by := Some worker,
              j_lease_expires_at := Some (now + ttl),
              j_attempts := attempts,
              j_retry_after := None \<rparr>) now db) (\<lambda>(leased, db1).
          and_then (insert_attempt jid (j_attempts leased) worker now db1) (\<lambda>db2.
          Inr (Some (from_row leased),
               insert_transition jid S_Queued E_Leased next (Some worker) None now db2))))))"

text \<open>The states a lease is held in.\<close>

definition holds_lease_state :: "job_state \<Rightarrow> bool" where
  "holds_lease_state st \<longleftrightarrow> st \<in> {S_Leased, S_Proving, S_Submitting}"

definition renew_lease :: "uuid \<Rightarrow> string \<Rightarrow> interval \<Rightarrow> time \<Rightarrow> db \<Rightarrow> store_error + bool \<times> db" where
  "renew_lease jid worker ttl now db =
     (case find_job jid db of
        None \<Rightarrow> Inr (False, db)
      | Some r \<Rightarrow>
          if j_leased_by r = Some worker \<and> holds_lease_state (j_state r) then
            and_then (update_job jid (\<lambda>x. x\<lparr> j_lease_expires_at := Some (now + ttl) \<rparr>) now db)
              (\<lambda>(_, db'). Inr (True, db'))
          else Inr (False, db))"

definition expired :: "uuid list \<Rightarrow> time \<Rightarrow> job_row \<Rightarrow> bool" where
  "expired locked now r \<longleftrightarrow>
     holds_lease_state (j_state r) \<and>
     (case j_lease_expires_at r of None \<Rightarrow> False | Some t \<Rightarrow> t < now) \<and> j_id r \<notin> set locked"

text \<open>\<open>attempts.max(0).unsigned_abs()\<close> as the \<open>u32\<close> it is.\<close>

definition unsigned_from :: "int \<Rightarrow> int \<Rightarrow> u32" where
  "unsigned_from least n = of_int (max n least)"

text \<open>The event a row's expiry is, and the text recorded with it.\<close>

definition reap_event :: "job_row \<Rightarrow> job_event" where
  "reap_event r =
     (let attempts = (if j_state r = S_Submitting then j_submission_attempts r else j_attempts r);
          event = classify_failure Transient (unsigned_from 0 attempts)
                    (unsigned_from 1 (j_max_attempts r))
      in if event = E_RetryScheduled
         then (if j_state r = S_Submitting then E_RetryScheduled else E_LeaseExpired)
         else event)"

definition reap_detail :: "job_state \<Rightarrow> string" where
  "reap_detail next =
     (if next = S_Failed then ''lease expired without renewal; attempts exhausted''
      else ''lease expired without renewal'')"

definition reap_one :: "string \<Rightarrow> time \<Rightarrow> job_row \<Rightarrow> db \<Rightarrow> store_error + uuid \<times> db" where
  "reap_one reaper now r db =
     (let jid = j_id r; event = reap_event r in
      and_then (transition_or (j_state r) event) (\<lambda>next.
      let detail = reap_detail next in
      and_then (update_job jid (\<lambda>x. x\<lparr>
          j_state := next,
          j_leased_by := None,
          j_lease_expires_at := None,
          j_last_error := Some detail \<rparr>) now db) (\<lambda>(_, db1).
      and_then (update_attempts (\<lambda>a. a_job_id a = jid \<and> a_outcome a = None)
          (\<lambda>a. a\<lparr> a_outcome := Some AbandonedAttempt, a_finished_at := Some now \<rparr>) db1) (\<lambda>db2.
      Inr (jid, insert_transition jid (j_state r) event next (Some reaper) (Some detail) now db2)))))"

fun reap_rows :: "string \<Rightarrow> time \<Rightarrow> job_row list \<Rightarrow> db \<Rightarrow> store_error + uuid list \<times> db" where
  "reap_rows reaper now [] db = Inr ([], db)"
| "reap_rows reaper now (r # rs) db =
     and_then (reap_one reaper now r db) (\<lambda>(jid, db').
     and_then (reap_rows reaper now rs db') (\<lambda>(reaped, db'').
     Inr (jid # reaped, db'')))"

definition reap_expired_leases ::
  "uuid list \<Rightarrow> string \<Rightarrow> time \<Rightarrow> db \<Rightarrow> store_error + uuid list \<times> db" where
  "reap_expired_leases locked reaper now db =
     reap_rows reaper now (filter (expired locked now) (jobs_tbl db)) db"

definition begin_proving :: "uuid \<Rightarrow> string \<Rightarrow> time \<Rightarrow> db \<Rightarrow> store_error + job \<times> db" where
  "begin_proving jid worker now db = apply_event jid E_ProvingStarted (Some worker) None now db"

definition record_proof ::
  "uuid \<Rightarrow> string \<Rightarrow> bytes \<Rightarrow> bytes \<Rightarrow> int \<Rightarrow> int option \<Rightarrow> time \<Rightarrow> db \<Rightarrow> store_error + job \<times> db"
where
  "record_proof jid worker proof_bytes public_inputs duration_ms peak_memory_kb now db =
     and_then (ok_or (find_job jid db) (JobNotFound jid)) (\<lambda>r.
     and_then (transition_or (j_state r) E_ProofSucceeded) (\<lambda>next.
     and_then (update_job jid (\<lambda>x. x\<lparr>
         j_state := next,
         j_proof := Some proof_bytes,
         j_public_inputs := Some public_inputs,
         j_leased_by := None,
         j_lease_expires_at := None \<rparr>) now db) (\<lambda>(updated, db1).
     and_then (update_attempts (\<lambda>a. a_job_id a = jid \<and> a_attempt_number a = j_attempts r)
         (\<lambda>a. a\<lparr> a_outcome := Some Succeeded, a_finished_at := Some now,
                  a_duration_ms := Some duration_ms, a_peak_memory_kb := peak_memory_kb \<rparr>) db1) (\<lambda>db2.
     Inr (from_row updated,
          insert_transition jid (j_state r) E_ProofSucceeded next (Some worker) None now db2)))))"

definition record_failure ::
  "uuid \<Rightarrow> string \<Rightarrow> failure_kind \<Rightarrow> string \<Rightarrow> interval option \<Rightarrow> time \<Rightarrow> db \<Rightarrow> store_error + job \<times> db"
where
  "record_failure jid worker kind err retry_in now db =
     and_then (ok_or (find_job jid db) (JobNotFound jid)) (\<lambda>r.
     let event = classify_failure kind (unsigned_from 0 (j_attempts r))
                   (unsigned_from 1 (j_max_attempts r)) in
     and_then (transition_or (j_state r) event) (\<lambda>next.
     let retry = (if next = S_Queued then retry_in else None) in
     and_then (update_job jid (\<lambda>x. x\<lparr>
         j_state := next,
         j_last_error := Some err,
         j_leased_by := None,
         j_lease_expires_at := None,
         j_retry_after := map_option (\<lambda>d. now + d) retry \<rparr>) now db) (\<lambda>(updated, db1).
     and_then (update_attempts (\<lambda>a. a_job_id a = jid \<and> a_attempt_number a = j_attempts r)
         (\<lambda>a. a\<lparr> a_outcome := Some FailedAttempt, a_finished_at := Some now,
                  a_error := Some err \<rparr>) db1) (\<lambda>db2.
     Inr (from_row updated,
          insert_transition jid (j_state r) event next (Some worker) (Some err) now db2)))))"

definition release_lease :: "uuid \<Rightarrow> string \<Rightarrow> time \<Rightarrow> db \<Rightarrow> store_error + job \<times> db" where
  "release_lease jid holder now db =
     and_then (ok_or (find_job jid db) (JobNotFound jid)) (\<lambda>r.
     let event = (if j_state r = S_Submitting then E_RetryScheduled else E_LeaseExpired) in
     apply_event_in_tx jid event (Some holder) (Some ''released on shutdown'') now db)"

section \<open>Settlement\<close>

definition lease_next_proved ::
  "uuid list \<Rightarrow> string \<Rightarrow> interval \<Rightarrow> time \<Rightarrow> db \<Rightarrow> store_error + job option \<times> db" where
  "lease_next_proved locked relayer ttl now db =
     (case candidate S_Proved locked now db of
        None \<Rightarrow> Inr (None, db)
      | Some row \<Rightarrow>
          let jid = j_id row in
          and_then (transition_or S_Proved E_SubmissionStarted) (\<lambda>next.
          and_then (increment_i32 (j_submission_attempts row)) (\<lambda>attempts.
          and_then (update_job jid (\<lambda>x. x\<lparr>
              j_state := next,
              j_leased_by := Some relayer,
              j_lease_expires_at := Some (now + ttl),
              j_submission_attempts := attempts,
              j_retry_after := None \<rparr>) now db) (\<lambda>(leased, db1).
          Inr (Some (from_row leased),
               insert_transition jid S_Proved E_SubmissionStarted next (Some relayer) None now db1)))))"

text \<open>The partial unique index on \<open>settlements (nullifier) WHERE reorged_at IS NULL\<close>.\<close>

definition nullifier_live :: "bytes \<Rightarrow> db \<Rightarrow> bool" where
  "nullifier_live n db \<longleftrightarrow>
     list_ex (\<lambda>s. s_nullifier s = n \<and> s_reorged_at s = None) (settlements_tbl db)"

definition record_submission ::
  "uuid \<Rightarrow> bytes \<Rightarrow> bytes \<Rightarrow> time \<Rightarrow> db \<Rightarrow> store_error + unit \<times> db" where
  "record_submission jid tx_hash nullifier now db =
     (let s = \<lparr> s_job_id = jid, s_tx_hash = tx_hash, s_nullifier = nullifier, s_block_number = None,
                s_confirmations = 0, s_gas_used = None, s_effective_gas_price = None,
                s_reorged_at = None, s_created_at = now, s_updated_at = now \<rparr> in
      and_then (check_row settlement_checks s) (\<lambda>_.
      if nullifier_live nullifier db
      then Inl (DatabaseError (UniqueViolation ''settlements_one_live_per_nullifier''))
      else if find_job jid db = None
      then Inl (DatabaseError (ForeignKeyViolation ''settlements_job_id_fkey''))
      else Inr ((), db\<lparr> settlements_tbl := settlements_tbl db @ [s] \<rparr>)))"

definition confirm_settlement ::
  "uuid \<Rightarrow> string \<Rightarrow> bytes \<Rightarrow> receipt \<Rightarrow> time \<Rightarrow> db \<Rightarrow> store_error + job \<times> db" where
  "confirm_settlement jid relayer tx_hash rc now db =
     and_then (numeric_78 (rc_effective_gas_price rc)) (\<lambda>price.
     and_then (update_settlements
         (\<lambda>s. s_job_id s = jid \<and> s_tx_hash s = tx_hash \<and> s_reorged_at s = None)
         (\<lambda>s. s\<lparr> s_block_number := Some (rc_block_number rc),
                  s_confirmations := rc_confirmations rc,
                  s_gas_used := rc_gas_used rc,
                  s_effective_gas_price := price \<rparr>) now db) (\<lambda>db1.
     apply_event_in_tx jid E_SettlementConfirmed (Some relayer) None now db1))"

definition record_reorg ::
  "uuid \<Rightarrow> string \<Rightarrow> bytes \<Rightarrow> time \<Rightarrow> db \<Rightarrow> store_error + job \<times> db" where
  "record_reorg jid relayer tx_hash now db =
     and_then (update_settlements
         (\<lambda>s. s_job_id s = jid \<and> s_tx_hash s = tx_hash)
         (\<lambda>s. s\<lparr> s_reorged_at := Some now, s_confirmations := 0 \<rparr>) now db) (\<lambda>db1.
     apply_event_in_tx jid E_Reorged (Some relayer)
       (Some ''settlement removed by a chain reorganisation'') now db1)"

definition replace_submission_tx ::
  "uuid \<Rightarrow> bytes \<Rightarrow> bytes \<Rightarrow> time \<Rightarrow> db \<Rightarrow> store_error + unit \<times> db" where
  "replace_submission_tx jid from_tx to_tx now db =
     and_then (update_settlements
         (\<lambda>s. s_job_id s = jid \<and> s_tx_hash s = from_tx \<and> s_reorged_at s = None)
         (\<lambda>s. s\<lparr> s_tx_hash := to_tx \<rparr>) now db) (\<lambda>db'.
     Inr ((), db'))"

definition mark_settled_elsewhere ::
  "uuid \<Rightarrow> string \<Rightarrow> string \<Rightarrow> time \<Rightarrow> db \<Rightarrow> store_error + job \<times> db" where
  "mark_settled_elsewhere jid relayer detail now db =
     apply_event jid E_SettlementConfirmed (Some relayer) (Some detail) now db"

text \<open>The two joins of settlements with their jobs.\<close>

definition settlement_in_state :: "job_state \<Rightarrow> db \<Rightarrow> settlement_row \<Rightarrow> bool" where
  "settlement_in_state st db s \<longleftrightarrow>
     (case find_job (s_job_id s) db of None \<Rightarrow> False | Some r \<Rightarrow> j_state r = st) \<and> s_reorged_at s = None"

definition settlement_triple :: "settlement_row \<Rightarrow> uuid \<times> bytes \<times> bytes" where
  "settlement_triple s = (s_job_id s, s_tx_hash s, s_nullifier s)"

definition settlements_to_watch :: "interval \<Rightarrow> time \<Rightarrow> db \<Rightarrow> (uuid \<times> bytes \<times> bytes) list" where
  "settlements_to_watch within now db =
     map settlement_triple (sort_key (\<lambda>s. - s_updated_at s)
       (filter (\<lambda>s. settlement_in_state S_Settled db s \<and> now - within < s_updated_at s)
         (settlements_tbl db)))"

definition settlements_awaiting_confirmation :: "db \<Rightarrow> (uuid \<times> bytes \<times> bytes) list" where
  "settlements_awaiting_confirmation db =
     map settlement_triple (sort_key s_created_at
       (filter (settlement_in_state S_Submitting db) (settlements_tbl db)))"

text \<open>\<open>ORDER BY created_at DESC LIMIT 1\<close>; of rows created at the same time, the last inserted.\<close>

fun newest :: "settlement_row list \<Rightarrow> settlement_row option" where
  "newest [] = None"
| "newest (s # ss) =
     (case newest ss of
        None \<Rightarrow> Some s
      | Some t \<Rightarrow> Some (if s_created_at t < s_created_at s then s else t))"

definition latest_settlement :: "uuid \<Rightarrow> db \<Rightarrow> settlement option" where
  "latest_settlement jid db =
     map_option settlement.truncate (newest (filter (\<lambda>s. s_job_id s = jid) (settlements_tbl db)))"

definition record_submission_failure ::
  "uuid \<Rightarrow> string \<Rightarrow> failure_kind \<Rightarrow> string \<Rightarrow> interval option \<Rightarrow> time \<Rightarrow> db \<Rightarrow> store_error + job \<times> db"
where
  "record_submission_failure jid relayer kind err retry_in now db =
     and_then (ok_or (find_job jid db) (JobNotFound jid)) (\<lambda>r.
     let event = classify_failure kind (unsigned_from 0 (j_submission_attempts r))
                   (unsigned_from 1 (j_max_attempts r)) in
     and_then (transition_or (j_state r) event) (\<lambda>next.
     let retry = (if next = S_Proved then retry_in else None) in
     and_then (update_job jid (\<lambda>x. x\<lparr>
         j_state := next,
         j_last_error := Some err,
         j_leased_by := None,
         j_lease_expires_at := None,
         j_retry_after := map_option (\<lambda>d. now + d) retry \<rparr>) now db) (\<lambda>(updated, db1).
     Inr (from_row updated,
          insert_transition jid (j_state r) event next (Some relayer) (Some err) now db1))))"

section \<open>Reading the queue\<close>

definition live_leases :: "time \<Rightarrow> db \<Rightarrow> (uuid \<times> string \<times> interval) list" where
  "live_leases now db =
     concat (map (\<lambda>r.
       if j_state r \<in> {S_Leased, S_Proving} then
         (case (j_leased_by r, j_lease_expires_at r) of
            (Some w, Some t) \<Rightarrow> if now < t then [(j_id r, w, max (t - now) 0)] else []
          | _ \<Rightarrow> [])
       else []) (jobs_tbl db))"

definition oldest_lease_age :: "time \<Rightarrow> db \<Rightarrow> interval option" where
  "oldest_lease_age now db =
     (case filter (\<lambda>r. j_state r \<in> {S_Leased, S_Proving}) (jobs_tbl db) of
        [] \<Rightarrow> None
      | rs \<Rightarrow> Some (max (now - Min (set (map j_updated_at rs))) 0))"

definition queue_depth :: "db \<Rightarrow> nat" where
  "queue_depth db = length (filter (\<lambda>r. j_state r = S_Queued) (jobs_tbl db))"

text \<open>\<open>GROUP BY\<close> leaves the order open; here it is the order of \<open>JobState::ALL\<close>.\<close>

definition state_counts :: "db \<Rightarrow> (job_state \<times> nat) list" where
  "state_counts db =
     filter (\<lambda>(_, n). 0 < n)
       (map (\<lambda>st. (st, length (filter (\<lambda>r. j_state r = st) (jobs_tbl db)))) all_states)"

definition transitions :: "uuid \<Rightarrow> db \<Rightarrow> (job_state \<times> job_event \<times> job_state) list" where
  "transitions jid db =
     map (\<lambda>t. (t_from_state t, t_event t, t_to_state t))
       (sort_key t_occurred_at (filter (\<lambda>t. t_job_id t = jid) (transitions_tbl db)))"

end
