(* ===== verification/Store_Moves.thy ===== *)
theory Store_Moves
  imports Store
begin

text \<open>
  The abstract specification of the store: the few kinds of change the tables undergo, as a step
  relation, and the refinement lemmas that every operation of \<open>Store\<close> is a sequence of them. The
  invariants are proved over the steps.
\<close>

section \<open>The steps\<close>

text \<open>What a job is asked to do never changes.\<close>

definition same_work :: "job_row \<Rightarrow> job_row \<Rightarrow> bool" where
  "same_work r r' \<longleftrightarrow>
     j_id r' = j_id r \<and> j_circuit_id r' = j_circuit_id r \<and> j_job_hash r' = j_job_hash r \<and>
     j_idempotency_key r' = j_idempotency_key r \<and> j_inputs r' = j_inputs r \<and>
     j_max_attempts r' = j_max_attempts r \<and> j_created_at r' = j_created_at r"

text \<open>A job has a holder exactly while it is in flight.\<close>

definition lease_ok :: "job_row \<Rightarrow> bool" where
  "lease_ok r \<longleftrightarrow> (is_in_flight (j_state r) \<longleftrightarrow> j_leased_by r \<noteq> None)"

text \<open>A row moved by an event: counters count the leases, and only \<open>ProofSucceeded\<close> sets a proof.\<close>

definition moved_by :: "job_event \<Rightarrow> job_row \<Rightarrow> job_row \<Rightarrow> bool" where
  "moved_by ev r r' \<longleftrightarrow>
     same_work r r' \<and> transition (j_state r) ev = Inr (j_state r') \<and> satisfies job_checks r' \<and>
     (lease_ok r \<longrightarrow> lease_ok r') \<and>
     j_attempts r' = j_attempts r + (if ev = E_Leased then 1 else 0) \<and>
     j_submission_attempts r' = j_submission_attempts r + (if ev = E_SubmissionStarted then 1 else 0) \<and>
     (ev \<noteq> E_ProofSucceeded \<longrightarrow> j_proof r' = j_proof r \<and> j_public_inputs r' = j_public_inputs r)"

definition replace_row :: "job_row \<Rightarrow> db \<Rightarrow> db" where
  "replace_row r' db = db\<lparr> jobs_tbl := update_where (\<lambda>x. j_id x = j_id r') (\<lambda>_. r') (jobs_tbl db) \<rparr>"

inductive db_step :: "db \<Rightarrow> db \<Rightarrow> bool" where
  step_new: "find_job (j_id r) db = None \<Longrightarrow> j_job_hash r \<notin> j_job_hash ` set (jobs_tbl db) \<Longrightarrow>
    satisfies job_checks r \<Longrightarrow> j_state r = S_Queued \<Longrightarrow> j_leased_by r = None \<Longrightarrow> j_attempts r = 0 \<Longrightarrow>
    j_submission_attempts r = 0 \<Longrightarrow> db_step db (db\<lparr> jobs_tbl := jobs_tbl db @ [r] \<rparr>)"
| step_event: "find_job jid db = Some r \<Longrightarrow> moved_by ev r r' \<Longrightarrow>
    db_step db (insert_transition jid (j_state r) ev (j_state r') ac detail now (replace_row r' db))"
| step_renew: "find_job jid db = Some r \<Longrightarrow>
    r' = r\<lparr> j_lease_expires_at := Some t, j_updated_at := now \<rparr> \<Longrightarrow> j_leased_by r \<noteq> None \<Longrightarrow>
    satisfies job_checks r' \<Longrightarrow> db_step db (replace_row r' db)"
| step_attempts: "db_step db (db\<lparr> attempts_tbl := ats \<rparr>)"
| step_circuits: "db_step db (db\<lparr> circuits_tbl := cs \<rparr>)"
| step_broadcast: "\<not> nullifier_live (s_nullifier s) db \<Longrightarrow> find_job (s_job_id s) db \<noteq> None \<Longrightarrow>
    db_step db (db\<lparr> settlements_tbl := settlements_tbl db @ [s] \<rparr>)"
| step_settlements: "(\<And>s. s_nullifier (f s) = s_nullifier s \<and> s_job_id (f s) = s_job_id s \<and>
      (s_reorged_at (f s) = None \<longrightarrow> s_reorged_at s = None)) \<Longrightarrow>
    db_step db (db\<lparr> settlements_tbl := update_where p f (settlements_tbl db) \<rparr>)"

abbreviation db_steps :: "db \<Rightarrow> db \<Rightarrow> bool" where
  "db_steps \<equiv> db_step\<^sup>*\<^sup>*"

lemma one_step: "db_step db db' \<Longrightarrow> db_steps db db'"
  by (rule r_into_rtranclp)

section \<open>Statements as steps\<close>

lemma update_job_replace:
  "update_job jid f now db = Inr (r', db') \<Longrightarrow> j_id r' = jid \<Longrightarrow>
   \<exists>r. find_job jid db = Some r \<and> r' = (f r)\<lparr> j_updated_at := now \<rparr> \<and> satisfies job_checks r' \<and>
     db' = replace_row r' db"
  by (auto simp: res_iff replace_row_def)

lemma insert_transition_commute:
  "insert_transition jid f e t ac d now (db\<lparr> attempts_tbl := a \<rparr>)
     = (insert_transition jid f e t ac d now db)\<lparr> attempts_tbl := a \<rparr>"
  by (simp add: insert_transition_def)

lemma event_then_attempts:
  assumes "find_job jid db = Some r" and "moved_by ev r r'"
  shows "db_steps db (insert_transition jid (j_state r) ev (j_state r') ac detail now
    ((replace_row r' db)\<lparr> attempts_tbl := ats \<rparr>))"
  unfolding insert_transition_commute
  by (rule rtranclp.rtrancl_into_rtrancl [OF one_step], rule step_event [OF assms], rule step_attempts)

lemma event_only:
  assumes "find_job jid db = Some r" and "moved_by ev r r'"
  shows "db_steps db (insert_transition jid (j_state r) ev (j_state r') ac detail now (replace_row r' db))"
  by (rule one_step, rule step_event [OF assms])

lemma oldest_in: "oldest rs = Some r \<Longrightarrow> r \<in> set rs"
  by (induction rs arbitrary: r) (auto split: option.splits if_splits)

lemma candidate_in:
  "candidate st locked now db = Some r \<Longrightarrow> r \<in> set (jobs_tbl db) \<and> leasable st locked now r"
  by (auto simp: candidate_def dest: oldest_in)

lemma find_job_member:
  "distinct (map j_id (jobs_tbl db)) \<Longrightarrow> r \<in> set (jobs_tbl db) \<Longrightarrow> find_job (j_id r) db = Some r"
  by (simp add: find_job_def distinct_find)

section \<open>Operations as steps\<close>

lemma upsert_circuit_steps: "upsert_circuit c db = Inr (x, db') \<Longrightarrow> db_steps db db'"
  by (auto simp: upsert_circuit_def split: if_splits intro: one_step step_circuits)

lemma enqueue_steps:
  assumes "enqueue sha jid cid inputs key m now db = Inr (x, db')"
  shows "db_steps db db'"
proof -
  from assms obtain hash where ok: "satisfies job_checks (new_job_row jid cid hash key inputs m now)"
    and res: "db' = db \<or> find (\<lambda>x. j_job_hash x = hash) (jobs_tbl db) = None \<and> find_job jid db = None \<and>
      db' = db\<lparr> jobs_tbl := jobs_tbl db @ [new_job_row jid cid hash key inputs m now] \<rparr>"
    by (auto simp: enqueue_def Let_def res_iff split: if_splits option.splits)
  then show ?thesis
    using step_new [of "new_job_row jid cid hash key inputs m now" db]
    by (auto simp: new_job_row_def find_None_set intro: one_step)
qed

lemma apply_event_steps:
  assumes "apply_event_in_tx jid ev ac detail now db = Inr (x, db')"
    and "ev \<noteq> E_Leased" and "ev \<noteq> E_SubmissionStarted"
  shows "db_steps db db'"
proof -
  from assms(1) obtain r nxt where r: "find_job jid db = Some r"
    and t: "transition (j_state r) ev = Inr nxt"
    and eq: "\<exists>r'. r' = r\<lparr> j_state := nxt, j_leased_by := (if is_in_flight nxt then j_leased_by r else None),
        j_lease_expires_at := (if is_in_flight nxt then j_lease_expires_at r else None),
        j_last_error := (case detail of Some d \<Rightarrow> Some d | None \<Rightarrow> j_last_error r), j_updated_at := now \<rparr> \<and>
      satisfies job_checks r' \<and>
      db' = insert_transition jid (j_state r) ev nxt ac detail now
        (db\<lparr> jobs_tbl := update_where (\<lambda>x. j_id x = jid) (\<lambda>_. r') (jobs_tbl db) \<rparr>)"
    by (auto simp: apply_event_in_tx_def Let_def res_iff)
  from eq obtain r' where r': "r' = r\<lparr> j_state := nxt, j_leased_by := (if is_in_flight nxt then j_leased_by r else None),
        j_lease_expires_at := (if is_in_flight nxt then j_lease_expires_at r else None),
        j_last_error := (case detail of Some d \<Rightarrow> Some d | None \<Rightarrow> j_last_error r), j_updated_at := now \<rparr>"
      and ok: "satisfies job_checks r'"
      and db': "db' = insert_transition jid (j_state r) ev nxt ac detail now
        (db\<lparr> jobs_tbl := update_where (\<lambda>x. j_id x = jid) (\<lambda>_. r') (jobs_tbl db) \<rparr>)" by blast
  have st: "j_state r' = nxt" and jd: "j_id r' = jid" using find_job_id [OF r] by (simp_all add: r')
  have "moved_by ev r r'"
    using t ok assms(2,3) transition_in_flight [OF t]
    by (auto simp: moved_by_def same_work_def lease_ok_def r')
  from event_only [OF r this] show ?thesis by (simp add: db' st jd replace_row_def)
qed

lemma begin_proving_steps: "begin_proving jid w now db = Inr (x, db') \<Longrightarrow> db_steps db db'"
  by (auto simp: begin_proving_def apply_event_def dest: apply_event_steps)

lemma release_lease_steps: "release_lease jid w now db = Inr (x, db') \<Longrightarrow> db_steps db db'"
  by (auto simp: release_lease_def Let_def res_iff dest: apply_event_steps split: if_splits)

lemma mark_settled_elsewhere_steps:
  "mark_settled_elsewhere jid w d now db = Inr (x, db') \<Longrightarrow> db_steps db db'"
  by (auto simp: mark_settled_elsewhere_def apply_event_def dest: apply_event_steps)

lemma settlements_then_event:
  assumes "update_settlements p f now db = Inr db1"
    and "apply_event_in_tx jid ev ac detail now db1 = Inr (x, db')"
    and "ev \<noteq> E_Leased" and "ev \<noteq> E_SubmissionStarted"
    and "\<And>s. s_nullifier (f s) = s_nullifier s \<and> s_job_id (f s) = s_job_id s \<and>
      (s_reorged_at (f s) = None \<longrightarrow> s_reorged_at s = None)"
  shows "db_steps db db'"
proof -
  have "db_step db db1"
    unfolding update_settlements_ok [OF assms(1)] using assms(5) by (intro step_settlements) simp
  then show ?thesis
    using apply_event_steps [OF assms(2-4)] by (rule converse_rtranclp_into_rtranclp)
qed

lemma confirm_settlement_steps: "confirm_settlement jid w h rc now db = Inr (x, db') \<Longrightarrow> db_steps db db'"
  by (auto simp: confirm_settlement_def res_iff intro!: settlements_then_event)

lemma record_reorg_steps: "record_reorg jid w h now db = Inr (x, db') \<Longrightarrow> db_steps db db'"
  by (auto simp: record_reorg_def res_iff intro!: settlements_then_event)

lemma replace_submission_tx_steps:
  "replace_submission_tx jid h h' now db = Inr (x, db') \<Longrightarrow> db_steps db db'"
  by (auto simp: replace_submission_tx_def res_iff dest!: update_settlements_ok
      intro!: one_step step_settlements)

lemma record_submission_steps: "record_submission jid h n now db = Inr (x, db') \<Longrightarrow> db_steps db db'"
  by (auto simp: record_submission_def Let_def res_iff split: if_splits intro!: one_step step_broadcast)

lemma renew_lease_steps:
  assumes "renew_lease jid w ttl now db = Inr (b, db')"
  shows "db_steps db db'"
proof (cases "\<exists>r. find_job jid db = Some r \<and> j_leased_by r = Some w \<and> holds_lease_state (j_state r)")
  case True
  then obtain r where r: "find_job jid db = Some r" "j_leased_by r = Some w" "holds_lease_state (j_state r)"
    by blast
  let ?r' = "r\<lparr> j_lease_expires_at := Some (now + ttl), j_updated_at := now \<rparr>"
  have "satisfies job_checks ?r' \<and> db' = replace_row ?r' db"
    using assms r find_job_id [OF r(1)] by (auto simp: renew_lease_def res_iff replace_row_def)
  then show ?thesis using step_renew [OF r(1) refl] r(2) by (auto intro: one_step)
next
  case False
  then have "db' = db" using assms by (auto simp: renew_lease_def split: option.splits)
  then show ?thesis by simp
qed

text \<open>The shape the remaining operations share: update the row, perhaps the attempts, log the event.\<close>

lemma update_then_log:
  assumes "find_job jid db = Some r" and "update_job jid f now db = Inr (r', db1)"
    and "moved_by ev r ((f r)\<lparr> j_updated_at := now \<rparr>)" and "j_state (f r) = nxt"
    and "db2 = db1 \<or> (\<exists>ats. db2 = db1\<lparr> attempts_tbl := ats \<rparr>)"
  shows "db_steps db (insert_transition jid (j_state r) ev nxt ac detail now db2)"
proof -
  have r': "r' = (f r)\<lparr> j_updated_at := now \<rparr>" and "db1 = db\<lparr> jobs_tbl := update_where (\<lambda>x. j_id x = jid) (\<lambda>_. r') (jobs_tbl db) \<rparr>"
    using assms(1,2) by (auto simp: res_iff)
  moreover have "j_id r' = jid"
    using assms(3) find_job_id [OF assms(1)] by (simp add: r' moved_by_def same_work_def)
  ultimately have db1: "db1 = replace_row r' db" by (simp add: replace_row_def)
  show ?thesis
    using assms(5) event_only [OF assms(1,3)] event_then_attempts [OF assms(1,3)] assms(4)
    by (auto simp: db1 r')
qed

lemma not_in_flight_after:
  "transition s e = Inr t \<Longrightarrow> e \<notin> {E_Leased, E_ProvingStarted, E_SubmissionStarted} \<Longrightarrow> \<not> is_in_flight t"
  using transition_in_flight by blast

lemma classified_not_in_flight:
  "transition s (classify_failure k a m) = Inr t \<Longrightarrow> \<not> is_in_flight t"
  using classify_failure_range [of k a m] by (auto dest!: not_in_flight_after)

lemma classified_event:
  "classify_failure k a m \<notin> {E_Leased, E_SubmissionStarted, E_ProofSucceeded}"
  using classify_failure_range [of k a m] by auto

lemma reap_event_range:
  "reap_event r \<in> {E_LeaseExpired, E_RetryScheduled, E_AttemptsExhausted, E_PermanentlyFailed}"
  using classify_failure_range [of Transient] by (auto simp: reap_event_def Let_def)

lemmas moved_by_defs = moved_by_def same_work_def lease_ok_def

lemma lease_next_steps:
  assumes "lease_next locked w ttl now db = Inr (x, db')" and "distinct (map j_id (jobs_tbl db))"
  shows "db_steps db db'"
proof (cases "candidate S_Queued locked now db")
  case (Some row)
  let ?f = "\<lambda>n x. x\<lparr> j_state := S_Leased, j_leased_by := Some w, j_lease_expires_at := Some (now + ttl),
      j_attempts := n, j_retry_after := None \<rparr>"
  from assms(1) Some obtain n leased db1 db2 where inc: "increment_i32 (j_attempts row) = Inr n"
    and up: "update_job (j_id row) (?f n) now db = Inr (leased, db1)"
    and att: "insert_attempt (j_id row) (j_attempts leased) w now db1 = Inr db2"
    and db': "db' = insert_transition (j_id row) S_Queued E_Leased S_Leased (Some w) None now db2"
    by (auto simp: lease_next_def Let_def and_then_Inr transition_or_ok)
  from Some have row: "find_job (j_id row) db = Some row" "j_state row = S_Queued"
    using assms(2) by (auto dest!: candidate_in simp: leasable_def find_job_member)
  have "moved_by E_Leased row ((?f n row)\<lparr> j_updated_at := now \<rparr>)"
    using up row inc by (auto simp: moved_by_defs res_iff)
  from update_then_log [OF row(1) up this, of S_Leased db2] insert_attempt_ok [OF att]
  show ?thesis by (simp add: db' row(2))
qed (use assms in \<open>simp add: lease_next_def\<close>)

lemma lease_next_proved_steps:
  assumes "lease_next_proved locked w ttl now db = Inr (x, db')" and "distinct (map j_id (jobs_tbl db))"
  shows "db_steps db db'"
proof (cases "candidate S_Proved locked now db")
  case (Some row)
  let ?f = "\<lambda>n x. x\<lparr> j_state := S_Submitting, j_leased_by := Some w, j_lease_expires_at := Some (now + ttl),
      j_submission_attempts := n, j_retry_after := None \<rparr>"
  from assms(1) Some obtain n leased db1 where inc: "increment_i32 (j_submission_attempts row) = Inr n"
    and up: "update_job (j_id row) (?f n) now db = Inr (leased, db1)"
    and db': "db' = insert_transition (j_id row) S_Proved E_SubmissionStarted S_Submitting (Some w) None now db1"
    by (auto simp: lease_next_proved_def Let_def and_then_Inr transition_or_ok)
  from Some have row: "find_job (j_id row) db = Some row" "j_state row = S_Proved"
    using assms(2) by (auto dest!: candidate_in simp: leasable_def find_job_member)
  have "moved_by E_SubmissionStarted row ((?f n row)\<lparr> j_updated_at := now \<rparr>)"
    using up row inc by (auto simp: moved_by_defs res_iff)
  from update_then_log [OF row(1) up this, of S_Submitting db1]
  show ?thesis by (simp add: db' row(2))
qed (use assms in \<open>simp add: lease_next_proved_def\<close>)

lemma record_proof_steps:
  assumes "record_proof jid w pr pub ms mem now db = Inr (x, db')"
  shows "db_steps db db'"
proof -
  let ?f = "\<lambda>nxt x. x\<lparr> j_state := nxt, j_proof := Some pr, j_public_inputs := Some pub,
      j_leased_by := None, j_lease_expires_at := None \<rparr>"
  from assms obtain r nxt updated db1 db2 where r: "find_job jid db = Some r"
    and t: "transition (j_state r) E_ProofSucceeded = Inr nxt"
    and up: "update_job jid (?f nxt) now db = Inr (updated, db1)"
    and att: "\<exists>ats. db2 = db1\<lparr> attempts_tbl := ats \<rparr>"
    and db': "db' = insert_transition jid (j_state r) E_ProofSucceeded nxt (Some w) None now db2"
    by (auto simp: record_proof_def Let_def and_then_Inr ok_or_Inr transition_or_ok dest!: update_attempts_ok) blast
  have "moved_by E_ProofSucceeded r ((?f nxt r)\<lparr> j_updated_at := now \<rparr>)"
    using up r t not_in_flight_after [OF t] by (auto simp: moved_by_defs res_iff)
  from update_then_log [OF r up this, of nxt db2] att show ?thesis by (simp add: db')
qed

lemma record_failure_steps:
  assumes "record_failure jid w k err retry now db = Inr (x, db')"
  shows "db_steps db db'"
proof -
  let ?f = "\<lambda>nxt d x. x\<lparr> j_state := nxt, j_last_error := Some err, j_leased_by := None,
      j_lease_expires_at := None, j_retry_after := d \<rparr>"
  from assms obtain r nxt ev d updated db1 db2 where r: "find_job jid db = Some r"
    and ev: "ev = classify_failure k (unsigned_from 0 (j_attempts r)) (unsigned_from 1 (j_max_attempts r))"
    and t: "transition (j_state r) ev = Inr nxt"
    and up: "update_job jid (?f nxt d) now db = Inr (updated, db1)"
    and att: "\<exists>ats. db2 = db1\<lparr> attempts_tbl := ats \<rparr>"
    and db': "db' = insert_transition jid (j_state r) ev nxt (Some w) (Some err) now db2"
    by (auto simp: record_failure_def Let_def and_then_Inr ok_or_Inr transition_or_ok dest!: update_attempts_ok) blast
  have ev': "ev \<notin> {E_Leased, E_SubmissionStarted, E_ProofSucceeded}"
    unfolding ev by (rule classified_event)
  have "moved_by ev r ((?f nxt d r)\<lparr> j_updated_at := now \<rparr>)"
    using up r t ev' classified_not_in_flight [OF t [unfolded ev]]
    by (auto simp: moved_by_defs res_iff)
  from update_then_log [OF r up this, of nxt db2] att show ?thesis by (simp add: db')
qed

lemma record_submission_failure_steps:
  assumes "record_submission_failure jid w k err retry now db = Inr (x, db')"
  shows "db_steps db db'"
proof -
  let ?f = "\<lambda>nxt d x. x\<lparr> j_state := nxt, j_last_error := Some err, j_leased_by := None,
      j_lease_expires_at := None, j_retry_after := d \<rparr>"
  from assms obtain r nxt ev d updated db1 where r: "find_job jid db = Some r"
    and ev: "ev = classify_failure k (unsigned_from 0 (j_submission_attempts r)) (unsigned_from 1 (j_max_attempts r))"
    and t: "transition (j_state r) ev = Inr nxt"
    and up: "update_job jid (?f nxt d) now db = Inr (updated, db1)"
    and db': "db' = insert_transition jid (j_state r) ev nxt (Some w) (Some err) now db1"
    by (auto simp: record_submission_failure_def Let_def and_then_Inr ok_or_Inr transition_or_ok)
  have ev': "ev \<notin> {E_Leased, E_SubmissionStarted, E_ProofSucceeded}"
    unfolding ev by (rule classified_event)
  have "moved_by ev r ((?f nxt d r)\<lparr> j_updated_at := now \<rparr>)"
    using up r t ev' classified_not_in_flight [OF t [unfolded ev]]
    by (auto simp: moved_by_defs res_iff)
  from update_then_log [OF r up this, of nxt db1] show ?thesis by (simp add: db')
qed

lemma reap_one_steps:
  assumes "reap_one w now r db = Inr (i, db')" and "find_job (j_id r) db = Some r"
  shows "db_steps db db' \<and> i = j_id r \<and> (\<forall>j. j \<noteq> j_id r \<longrightarrow> find_job j db' = find_job j db)"
proof -
  let ?f = "\<lambda>nxt d x. x\<lparr> j_state := nxt, j_leased_by := None, j_lease_expires_at := None,
      j_last_error := d \<rparr>"
  from assms(1) obtain nxt d updated db1 db2 where t: "transition (j_state r) (reap_event r) = Inr nxt"
    and up: "update_job (j_id r) (?f nxt (Some d)) now db = Inr (updated, db1)"
    and att: "\<exists>ats. db2 = db1\<lparr> attempts_tbl := ats \<rparr>"
    and db': "db' = insert_transition (j_id r) (j_state r) (reap_event r) nxt (Some w) (Some d) now db2"
    and i: "i = j_id r"
    by (auto simp: reap_one_def Let_def and_then_Inr transition_or_ok dest!: update_attempts_ok) blast
  have "moved_by (reap_event r) r ((?f nxt (Some d) r)\<lparr> j_updated_at := now \<rparr>)"
    using up assms(2) t not_in_flight_after [OF t] reap_event_range [of r]
    by (auto simp: moved_by_defs res_iff)
  moreover have "\<forall>j. j \<noteq> j_id r \<longrightarrow> find_job j db' = find_job j db"
    using up assms(2) att by (auto simp: db' res_iff find_job_update dest: find_job_id)
  ultimately show ?thesis
    using update_then_log [OF assms(2) up, of "reap_event r" nxt db2] att i by (simp add: db')
qed

lemma reap_rows_steps:
  "reap_rows w now rs db = Inr (ids, db') \<Longrightarrow> distinct (map j_id rs) \<Longrightarrow>
   (\<And>r. r \<in> set rs \<Longrightarrow> find_job (j_id r) db = Some r) \<Longrightarrow> db_steps db db' \<and> ids = map j_id rs"
proof (induction rs arbitrary: db ids)
  case (Cons r rs)
  then obtain i db1 ids1 where one: "reap_one w now r db = Inr (i, db1)"
    and rest: "reap_rows w now rs db1 = Inr (ids1, db')" and ids: "ids = i # ids1"
    by (auto simp: and_then_Inr)
  note r = reap_one_steps [OF one Cons.prems(3) [of r]]
  have "find_job (j_id x) db1 = Some x" if "x \<in> set rs" for x
    using that r Cons.prems(2,3) by (auto simp: image_iff)
  with Cons.IH [OF rest] Cons.prems(2) r ids show ?case
    by (auto intro: rtranclp_trans)
qed simp

lemma reap_expired_leases_steps:
  assumes "reap_expired_leases locked w now db = Inr (ids, db')" and "distinct (map j_id (jobs_tbl db))"
  shows "db_steps db db' \<and> ids = map j_id (filter (expired locked now) (jobs_tbl db))"
  using assms(1) unfolding reap_expired_leases_def
  by (rule reap_rows_steps) (use assms(2) in \<open>auto simp: find_job_member distinct_map_filter\<close>)

end
