(* ===== verification/Store_Invariants.thy ===== *)
theory Store_Invariants
  imports Store_Moves
begin

text \<open>
  The invariants of the store, proved over the steps of \<open>Store_Moves\<close> and carried to every sequence
  of operations by an interpretation of the contract \<open>preserved\<close>.
\<close>

section \<open>The audit log\<close>

definition audit_log :: "uuid \<Rightarrow> db \<Rightarrow> (job_state \<times> job_event \<times> job_state) list" where
  "audit_log jid db =
     map (\<lambda>t. (t_from_state t, t_event t, t_to_state t)) (filter (\<lambda>t. t_job_id t = jid) (transitions_tbl db))"

text \<open>Every entry starts where the one before ended and is a legal transition.\<close>

fun replays :: "job_state \<Rightarrow> (job_state \<times> job_event \<times> job_state) list \<Rightarrow> job_state \<Rightarrow> bool" where
  "replays s [] t \<longleftrightarrow> s = t"
| "replays s ((f, e, u) # l) t \<longleftrightarrow> f = s \<and> transition s e = Inr u \<and> replays u l t"

definition log_events :: "(job_state \<times> job_event \<times> job_state) list \<Rightarrow> job_event list" where
  "log_events l = map (\<lambda>(_, e, _). e) l"

lemma replays_append: "replays s (l @ l') t \<longleftrightarrow> (\<exists>u. replays s l u \<and> replays u l' t)"
  by (induction s l t rule: replays.induct) auto

lemma replays_run: "replays s l t \<Longrightarrow> run s (log_events l) = t"
  by (induction s l t rule: replays.induct) (auto simp: log_events_def try_event_def)

lemma audit_log_insert:
  "audit_log i (insert_transition jid f e t ac d now db) =
     (if i = jid then audit_log i db @ [(f, e, t)] else audit_log i db)"
  by (simp add: audit_log_def insert_transition_def)

lemma audit_log_other_tables [simp]:
  "audit_log i (db\<lparr> jobs_tbl := js \<rparr>) = audit_log i db"
  "audit_log i (db\<lparr> attempts_tbl := a \<rparr>) = audit_log i db"
  "audit_log i (db\<lparr> settlements_tbl := s \<rparr>) = audit_log i db"
  "audit_log i (db\<lparr> circuits_tbl := c \<rparr>) = audit_log i db"
  "audit_log i (replace_row r db) = audit_log i db"
  by (simp_all add: audit_log_def replace_row_def)

section \<open>The invariant\<close>

definition row_ok :: "db \<Rightarrow> job_row \<Rightarrow> bool" where
  "row_ok db r \<longleftrightarrow>
     satisfies job_checks r \<and> lease_ok r \<and> replays S_Queued (audit_log (j_id r) db) (j_state r) \<and>
     int (length (filter (\<lambda>e. e = E_Leased) (log_events (audit_log (j_id r) db)))) = j_attempts r \<and>
     int (length (filter (\<lambda>e. e = E_SubmissionStarted) (log_events (audit_log (j_id r) db))))
       = j_submission_attempts r"

definition live_nullifiers :: "db \<Rightarrow> bytes list" where
  "live_nullifiers db = map s_nullifier (filter (\<lambda>s. s_reorged_at s = None) (settlements_tbl db))"

definition store_ok :: "db \<Rightarrow> bool" where
  "store_ok db \<longleftrightarrow>
     distinct (map j_id (jobs_tbl db)) \<and> distinct (map j_job_hash (jobs_tbl db)) \<and>
     (\<forall>r \<in> set (jobs_tbl db). row_ok db r) \<and>
     t_job_id ` set (transitions_tbl db) \<subseteq> j_id ` set (jobs_tbl db) \<and>
     distinct (live_nullifiers db) \<and>
     s_job_id ` set (settlements_tbl db) \<subseteq> j_id ` set (jobs_tbl db)"

lemma store_ok_ids: "store_ok db \<Longrightarrow> distinct (map j_id (jobs_tbl db))"
  by (simp add: store_ok_def)

lemma store_ok_row: "store_ok db \<Longrightarrow> find_job jid db = Some r \<Longrightarrow> row_ok db r"
  by (auto simp: store_ok_def dest: find_job_id)

lemma store_ok_logged:
  "store_ok db \<Longrightarrow> t \<in> set (transitions_tbl db) \<Longrightarrow> t_job_id t \<in> j_id ` set (jobs_tbl db)"
  by (fastforce simp: store_ok_def)

lemma store_ok_settled_job:
  "store_ok db \<Longrightarrow> s \<in> set (settlements_tbl db) \<Longrightarrow> s_job_id s \<in> j_id ` set (jobs_tbl db)"
  by (fastforce simp: store_ok_def)

lemma store_ok_empty: "store_ok empty_db"
  by (simp add: store_ok_def empty_db_def live_nullifiers_def)

section \<open>The steps keep it\<close>

lemma same_id_row:
  "distinct (map j_id (jobs_tbl db)) \<Longrightarrow> find_job jid db = Some r \<Longrightarrow> x \<in> set (jobs_tbl db) \<Longrightarrow>
   j_id x = jid \<Longrightarrow> x = r"
  using find_job_member by force

lemma replace_row_map:
  assumes "distinct (map j_id (jobs_tbl db))" and "find_job (j_id r') db = Some r" and "g r' = g r"
  shows "map g (jobs_tbl (replace_row r' db)) = map g (jobs_tbl db)"
  using same_id_row [OF assms(1,2)] assms(3) by (auto simp: replace_row_def update_where_def)

lemma replace_row_set:
  assumes "find_job (j_id r') db = Some r"
  shows "set (jobs_tbl (replace_row r' db)) = insert r' {x \<in> set (jobs_tbl db). j_id x \<noteq> j_id r'}"
  using find_job_id [OF assms] by (auto simp: replace_row_def set_update_where)

lemma replace_row_tables [simp]:
  "transitions_tbl (replace_row r db) = transitions_tbl db"
  "settlements_tbl (replace_row r db) = settlements_tbl db"
  by (simp_all add: replace_row_def)

lemma row_ok_cong: "audit_log (j_id r) db' = audit_log (j_id r) db \<Longrightarrow> row_ok db' r = row_ok db r"
  by (simp add: row_ok_def)

lemma row_ok_event:
  assumes "row_ok db r" and "moved_by ev r r'" and "audit_log (j_id r) db' = audit_log (j_id r) db"
  shows "row_ok (insert_transition (j_id r) (j_state r) ev (j_state r') ac d now db') r'"
proof -
  let ?L = "audit_log (j_id r) db"
  have jd: "j_id r' = j_id r" and st: "transition (j_state r) ev = Inr (j_state r')"
    and a: "j_attempts r' = j_attempts r + (if ev = E_Leased then 1 else 0)"
    and b: "j_submission_attempts r' = j_submission_attempts r + (if ev = E_SubmissionStarted then 1 else 0)"
    using assms(2) by (simp_all add: moved_by_def same_work_def)
  have log: "audit_log (j_id r') (insert_transition (j_id r) (j_state r) ev (j_state r') ac d now db')
      = ?L @ [(j_state r, ev, j_state r')]"
    using assms(3) jd by (simp add: audit_log_insert)
  have "replays S_Queued (?L @ [(j_state r, ev, j_state r')]) (j_state r')"
    using assms(1) st by (simp add: replays_append row_ok_def)
  moreover have "lease_ok r'" "satisfies job_checks r'"
    using assms(1,2) by (simp_all add: row_ok_def moved_by_def)
  moreover have "log_events (?L @ [(j_state r, ev, j_state r')]) = log_events ?L @ [ev]"
    by (simp add: log_events_def)
  ultimately show ?thesis
    using assms(1) unfolding row_ok_def log by (simp add: a b)
qed

lemma store_ok_new:
  assumes "store_ok db" and "find_job (j_id r) db = None" and "j_job_hash r \<notin> j_job_hash ` set (jobs_tbl db)"
    and "satisfies job_checks r" and "j_state r = S_Queued" and "j_leased_by r = None"
    and "j_attempts r = 0" and "j_submission_attempts r = 0"
  shows "store_ok (db\<lparr> jobs_tbl := jobs_tbl db @ [r] \<rparr>)"
proof -
  have fresh: "j_id r \<notin> j_id ` set (jobs_tbl db)"
    using assms(2) by (auto simp: find_job_def find_None_set)
  have "t_job_id t \<noteq> j_id r" if "t \<in> set (transitions_tbl db)" for t
    using store_ok_logged [OF assms(1) that] fresh by metis
  then have "audit_log (j_id r) db = []"
    by (simp add: audit_log_def filter_empty_conv)
  then have new: "row_ok db r"
    using assms(4-8) by (simp add: row_ok_def lease_ok_def log_events_def)
  let ?db' = "db\<lparr> jobs_tbl := jobs_tbl db @ [r] \<rparr>"
  have same: "row_ok ?db' x = row_ok db x" for x by (rule row_ok_cong) simp
  have "distinct (map j_id (jobs_tbl ?db'))" "distinct (map j_job_hash (jobs_tbl ?db'))"
    using assms(1,3) fresh by (simp_all add: store_ok_def)
  moreover have "\<forall>x \<in> set (jobs_tbl ?db'). row_ok ?db' x"
    unfolding same using assms(1) new by (simp add: store_ok_def)
  moreover have "distinct (live_nullifiers ?db')" using assms(1) by (simp add: store_ok_def live_nullifiers_def)
  moreover have "t_job_id ` set (transitions_tbl ?db') \<subseteq> j_id ` set (jobs_tbl ?db')"
    "s_job_id ` set (settlements_tbl ?db') \<subseteq> j_id ` set (jobs_tbl ?db')"
    using assms(1) by (auto simp: store_ok_def)
  ultimately show ?thesis unfolding store_ok_def by blast
qed

lemma store_ok_replace:
  assumes "store_ok db" and "find_job (j_id r') db = Some r" and "same_work r r'" and "row_ok db' r'"
    and "jobs_tbl db' = jobs_tbl (replace_row r' db)" and "settlements_tbl db' = settlements_tbl db"
    and "\<And>i. i \<noteq> j_id r' \<Longrightarrow> audit_log i db' = audit_log i db"
    and "\<And>t. t \<in> set (transitions_tbl db') \<Longrightarrow> t \<in> set (transitions_tbl db) \<or> t_job_id t = j_id r'"
  shows "store_ok db'"
proof -
  note ids = store_ok_ids [OF assms(1)]
  have maps: "map j_id (jobs_tbl db') = map j_id (jobs_tbl db)"
      "map j_job_hash (jobs_tbl db') = map j_job_hash (jobs_tbl db)"
    using replace_row_map [OF ids assms(2), of j_id] replace_row_map [OF ids assms(2), of j_job_hash]
      assms(3,5) by (simp_all add: same_work_def)
  have ids': "j_id ` set (jobs_tbl db') = j_id ` set (jobs_tbl db)"
    using maps(1) by (metis set_map)
  have "j_id r' \<in> j_id ` set (jobs_tbl db)" using find_job_id [OF assms(2)] by (metis imageI)
  then have logged: "t_job_id ` set (transitions_tbl db') \<subseteq> j_id ` set (jobs_tbl db')"
    using assms(8) store_ok_logged [OF assms(1)] unfolding ids' by (metis image_subsetI)
  have "row_ok db' x" if "x \<in> set (jobs_tbl db')" for x
    using that assms(1,4,5,7) row_ok_cong [of x db' db]
    by (auto simp: replace_row_set [OF assms(2)] store_ok_def)
  then show ?thesis
    using assms(1,6) logged unfolding store_ok_def live_nullifiers_def maps ids' by simp
qed

lemma store_ok_event:
  assumes "store_ok db" and "find_job jid db = Some r" and "moved_by ev r r'"
  shows "store_ok (insert_transition jid (j_state r) ev (j_state r') ac d now (replace_row r' db))"
proof -
  have jd: "j_id r = jid" "j_id r' = jid" and w: "same_work r r'"
    using find_job_id [OF assms(2)] assms(3) by (auto simp: moved_by_defs)
  show ?thesis
  proof (rule store_ok_replace [OF assms(1) _ w])
    show "row_ok (insert_transition jid (j_state r) ev (j_state r') ac d now (replace_row r' db)) r'"
      using row_ok_event [OF store_ok_row [OF assms(1,2)] assms(3), of "replace_row r' db" ac d now] jd
      by simp
  qed (use assms(2) jd in \<open>auto simp: audit_log_insert\<close>, auto simp: insert_transition_def)
qed

lemma store_ok_renew:
  assumes "store_ok db" and "find_job jid db = Some r" and "j_leased_by r \<noteq> None"
    and "r' = r\<lparr> j_lease_expires_at := Some t, j_updated_at := now \<rparr>" and "satisfies job_checks r'"
  shows "store_ok (replace_row r' db)"
proof (rule store_ok_replace [OF assms(1)])
  show "row_ok (replace_row r' db) r'"
    using store_ok_row [OF assms(1,2)] assms(3-5) by (auto simp: row_ok_def lease_ok_def)
qed (use assms find_job_id [OF assms(2)] in \<open>auto simp: same_work_def\<close>)

lemma live_nullifiers_update:
  assumes "\<And>s. s_nullifier (f s) = s_nullifier s \<and> s_job_id (f s) = s_job_id s \<and>
      (s_reorged_at (f s) = None \<longrightarrow> s_reorged_at s = None)"
  shows "\<exists>p'. map s_nullifier (filter (\<lambda>s. s_reorged_at s = None) (update_where p f ss))
    = map s_nullifier (filter p' (filter (\<lambda>s. s_reorged_at s = None) ss))"
proof -
  have "map s_nullifier (filter (\<lambda>s. s_reorged_at s = None) (update_where p f ss))
    = map s_nullifier (filter (\<lambda>s. if p s then s_reorged_at (f s) = None else s_reorged_at s = None)
        (filter (\<lambda>s. s_reorged_at s = None) ss))"
    using assms by (induction ss) auto
  then show ?thesis by blast
qed

lemma store_ok_settlements:
  assumes "store_ok db" and "\<And>s. s_nullifier (f s) = s_nullifier s \<and> s_job_id (f s) = s_job_id s \<and>
      (s_reorged_at (f s) = None \<longrightarrow> s_reorged_at s = None)"
  shows "store_ok (db\<lparr> settlements_tbl := update_where p f (settlements_tbl db) \<rparr>)"
proof -
  obtain p' where "live_nullifiers (db\<lparr> settlements_tbl := update_where p f (settlements_tbl db) \<rparr>)
      = map s_nullifier (filter p' (filter (\<lambda>s. s_reorged_at s = None) (settlements_tbl db)))"
    using live_nullifiers_update [OF assms(2), of p "settlements_tbl db"]
    by (auto simp: live_nullifiers_def)
  moreover have "distinct (map s_nullifier (filter (\<lambda>s. s_reorged_at s = None) (settlements_tbl db)))"
    using assms(1) by (simp add: store_ok_def live_nullifiers_def)
  ultimately have "distinct (live_nullifiers (db\<lparr> settlements_tbl := update_where p f (settlements_tbl db) \<rparr>))"
    by (simp only: distinct_map_filter)
  with assms show ?thesis
    by (auto simp: store_ok_def row_ok_def set_update_where)
qed

lemma store_ok_broadcast:
  assumes "store_ok db" and "\<not> nullifier_live (s_nullifier s) db" and "find_job (s_job_id s) db \<noteq> None"
  shows "store_ok (db\<lparr> settlements_tbl := settlements_tbl db @ [s] \<rparr>)"
proof -
  obtain r where "find_job (s_job_id s) db = Some r" using assms(3) by blast
  then have "s_job_id s \<in> j_id ` set (jobs_tbl db)" using find_job_id by (metis imageI)
  moreover have "s_nullifier s \<notin> set (live_nullifiers db)"
    using assms(2) by (auto simp: live_nullifiers_def nullifier_live_def list_ex_iff)
  ultimately show ?thesis
    using assms(1) by (auto simp: store_ok_def live_nullifiers_def row_ok_def)
qed

lemma db_step_ok: "db_step db db' \<Longrightarrow> store_ok db \<Longrightarrow> store_ok db'"
proof (induction rule: db_step.induct)
  case (step_attempts db ats)
  then show ?case by (simp add: store_ok_def live_nullifiers_def row_ok_def)
next
  case (step_circuits db cs)
  then show ?case by (simp add: store_ok_def live_nullifiers_def row_ok_def)
qed (blast intro: store_ok_new store_ok_event store_ok_renew store_ok_settlements store_ok_broadcast)+

lemma db_steps_ok: "db_steps db db' \<Longrightarrow> store_ok db \<Longrightarrow> store_ok db'"
  by (induction rule: rtranclp_induct) (auto intro: db_step_ok)

section \<open>No step loses a job\<close>

definition work_kept :: "db \<Rightarrow> db \<Rightarrow> bool" where
  "work_kept db db' \<longleftrightarrow>
     (\<forall>jid r. find_job jid db = Some r \<longrightarrow> (\<exists>r'. find_job jid db' = Some r' \<and> same_work r r')) \<and>
     (\<forall>jid. \<exists>l. audit_log jid db' = audit_log jid db @ l)"

lemma work_kept_refl: "work_kept db db"
  by (simp add: work_kept_def same_work_def)

lemma same_work_trans: "same_work a b \<Longrightarrow> same_work b c \<Longrightarrow> same_work a c"
  by (simp add: same_work_def)

lemma work_kept_trans:
  assumes "work_kept a b" and "work_kept b c"
  shows "work_kept a c"
proof -
  have "\<exists>r'. find_job jid c = Some r' \<and> same_work r r'" if "find_job jid a = Some r" for jid r
    using that assms same_work_trans unfolding work_kept_def by blast
  moreover have "\<exists>l. audit_log jid c = audit_log jid a @ l" for jid
    using assms unfolding work_kept_def by (metis append.assoc)
  ultimately show ?thesis unfolding work_kept_def by blast
qed

lemma find_job_replace:
  "find_job (j_id r') db = Some r \<Longrightarrow>
   find_job i (replace_row r' db) = (if i = j_id r' then Some r' else find_job i db)"
  by (simp add: replace_row_def find_job_update)

lemma db_step_work_kept: "db_step db db' \<Longrightarrow> work_kept db db'"
proof (induction rule: db_step.induct)
  case (step_new r db)
  have "find_job jid (db\<lparr> jobs_tbl := jobs_tbl db @ [r] \<rparr>) = Some x" if "find_job jid db = Some x" for jid x
    using that by (simp add: find_job_def find_append_rows)
  then show ?case by (auto simp: work_kept_def same_work_def)
next
  case (step_event jid db r ev r' ac detail now)
  then have "j_id r' = jid" "same_work r r'" using find_job_id [of jid db r] by (auto simp: moved_by_defs)
  with step_event show ?case
    by (auto simp: work_kept_def find_job_replace audit_log_insert same_work_def)
next
  case (step_renew jid db r r' t now)
  then show ?case
    using find_job_id [of jid db r] by (auto simp: work_kept_def find_job_replace same_work_def)
qed (auto simp: work_kept_def same_work_def)

lemma db_steps_work_kept: "db_steps db db' \<Longrightarrow> work_kept db db'"
  by (induction rule: rtranclp_induct) (auto intro: work_kept_refl work_kept_trans db_step_work_kept)

section \<open>Sequences of operations\<close>

text \<open>
  The calls the services make, with their arguments; \<open>now\<close> is carried beside each. \<open>apply_event\<close>, which
  is public too, is called by no service except through two of these; it is added in \<open>public_op\<close>.
\<close>

datatype store_op =
    OpUpsertCircuit circuit
  | OpEnqueue uuid string json "string option" int
  | OpLeaseNext "uuid list" string interval
  | OpRenewLease uuid string interval
  | OpReap "uuid list" string
  | OpBeginProving uuid string
  | OpRecordProof uuid string bytes bytes int "int option"
  | OpRecordFailure uuid string failure_kind string "interval option"
  | OpReleaseLease uuid string
  | OpLeaseNextProved "uuid list" string interval
  | OpRecordSubmission uuid bytes bytes
  | OpConfirmSettlement uuid string bytes receipt
  | OpRecordReorg uuid string bytes
  | OpReplaceTx uuid bytes bytes
  | OpSettledElsewhere uuid string string
  | OpSubmissionFailure uuid string failure_kind string "interval option"

text \<open>An operation that fails leaves the tables as they were.\<close>

definition commit :: "db \<Rightarrow> store_error + 'a \<times> db \<Rightarrow> db" where
  "commit db res = (case res of Inl _ \<Rightarrow> db | Inr (_, db') \<Rightarrow> db')"

fun exec_op :: "(bytes \<Rightarrow> bytes) \<Rightarrow> db \<Rightarrow> time \<times> store_op \<Rightarrow> db" where
  "exec_op sha db (now, OpUpsertCircuit c) = commit db (upsert_circuit c db)"
| "exec_op sha db (now, OpEnqueue i c v k m) = commit db (enqueue sha i c v k m now db)"
| "exec_op sha db (now, OpLeaseNext l w ttl) = commit db (lease_next l w ttl now db)"
| "exec_op sha db (now, OpRenewLease i w ttl) = commit db (renew_lease i w ttl now db)"
| "exec_op sha db (now, OpReap l w) = commit db (reap_expired_leases l w now db)"
| "exec_op sha db (now, OpBeginProving i w) = commit db (begin_proving i w now db)"
| "exec_op sha db (now, OpRecordProof i w p q d m) = commit db (record_proof i w p q d m now db)"
| "exec_op sha db (now, OpRecordFailure i w k e r) = commit db (record_failure i w k e r now db)"
| "exec_op sha db (now, OpReleaseLease i w) = commit db (release_lease i w now db)"
| "exec_op sha db (now, OpLeaseNextProved l w ttl) = commit db (lease_next_proved l w ttl now db)"
| "exec_op sha db (now, OpRecordSubmission i h n) = commit db (record_submission i h n now db)"
| "exec_op sha db (now, OpConfirmSettlement i w h rc) = commit db (confirm_settlement i w h rc now db)"
| "exec_op sha db (now, OpRecordReorg i w h) = commit db (record_reorg i w h now db)"
| "exec_op sha db (now, OpReplaceTx i h h') = commit db (replace_submission_tx i h h' now db)"
| "exec_op sha db (now, OpSettledElsewhere i w d) = commit db (mark_settled_elsewhere i w d now db)"
| "exec_op sha db (now, OpSubmissionFailure i w k e r) =
     commit db (record_submission_failure i w k e r now db)"

definition run_store :: "(bytes \<Rightarrow> bytes) \<Rightarrow> db \<Rightarrow> (time \<times> store_op) list \<Rightarrow> db" where
  "run_store sha db ops = foldl (exec_op sha) db ops"

lemma commit_steps:
  "(\<And>x db'. res = Inr (x, db') \<Longrightarrow> db_steps db db') \<Longrightarrow> db_steps db (commit db res)"
  by (auto simp: commit_def split: sum.splits)

lemma exec_op_steps:
  assumes "distinct (map j_id (jobs_tbl db))"
  shows "db_steps db (exec_op sha db nop)"
proof -
  obtain now op where nop: "nop = (now, op)" by (cases nop)
  show ?thesis unfolding nop
    by (cases op; simp only: exec_op.simps; rule commit_steps)
       (blast intro: upsert_circuit_steps enqueue_steps renew_lease_steps begin_proving_steps
          record_proof_steps record_failure_steps release_lease_steps record_submission_steps
          confirm_settlement_steps record_reorg_steps replace_submission_tx_steps
          mark_settled_elsewhere_steps record_submission_failure_steps
          lease_next_steps [OF _ assms] lease_next_proved_steps [OF _ assms]
          conjunct1 [OF reap_expired_leases_steps [OF _ assms]])+
qed

interpretation store_runs: preserved "exec_op sha" store_ok for sha
  by unfold_locales (blast intro: db_steps_ok exec_op_steps store_ok_ids)

interpretation work_runs: preserved "exec_op sha" "\<lambda>db'. store_ok db' \<and> work_kept db db'" for sha db
  by unfold_locales
     (blast intro: db_steps_ok exec_op_steps store_ok_ids work_kept_trans db_steps_work_kept)

lemma run_store_ok: "store_ok db \<Longrightarrow> store_ok (run_store sha db ops)"
  unfolding run_store_def by (rule store_runs.run_inv)

lemma run_store_kept: "store_ok db \<Longrightarrow> work_kept db (run_store sha db ops)"
  unfolding run_store_def using work_runs.run_inv [of db db] work_kept_refl by blast

section \<open>Any event by anyone\<close>

text \<open>
  \<open>apply_event\<close> is public and takes any event. With \<open>Leased\<close> or \<open>SubmissionStarted\<close> it moves a job in
  flight without a holder and without counting (finding at lib.rs:395), so \<open>store_ok\<close> does not survive it;
  what does is that the log is the history.
\<close>

datatype public_op =
    Service store_op
  | ApplyEvent uuid job_event "string option" "string option"

fun exec_public :: "(bytes \<Rightarrow> bytes) \<Rightarrow> db \<Rightarrow> time \<times> public_op \<Rightarrow> db" where
  "exec_public sha db (now, Service op) = exec_op sha db (now, op)"
| "exec_public sha db (now, ApplyEvent i ev ac d) = commit db (apply_event i ev ac d now db)"

definition run_public :: "(bytes \<Rightarrow> bytes) \<Rightarrow> db \<Rightarrow> (time \<times> public_op) list \<Rightarrow> db" where
  "run_public sha db ops = foldl (exec_public sha) db ops"

text \<open>The operations that take a lease only by leasing.\<close>

fun leases_properly :: "time \<times> public_op \<Rightarrow> bool" where
  "leases_properly (now, ApplyEvent i ev ac d) = (ev \<notin> {E_Leased, E_SubmissionStarted})"
| "leases_properly (now, Service op) = True"

definition log_ok :: "db \<Rightarrow> bool" where
  "log_ok db \<longleftrightarrow>
     distinct (map j_id (jobs_tbl db)) \<and>
     (\<forall>r \<in> set (jobs_tbl db). replays S_Queued (audit_log (j_id r) db) (j_state r)) \<and>
     t_job_id ` set (transitions_tbl db) \<subseteq> j_id ` set (jobs_tbl db)"

lemma log_ok_logged:
  "log_ok db \<Longrightarrow> t \<in> set (transitions_tbl db) \<Longrightarrow> t_job_id t \<in> j_id ` set (jobs_tbl db)"
  by (fastforce simp: log_ok_def)

lemma log_ok_row: "log_ok db \<Longrightarrow> find_job jid db = Some r \<Longrightarrow> replays S_Queued (audit_log jid db) (j_state r)"
  by (auto simp: log_ok_def dest: find_job_id)

lemma log_ok_empty: "log_ok empty_db"
  by (simp add: log_ok_def empty_db_def)

lemma log_ok_new:
  assumes "log_ok db" and "find_job (j_id r) db = None" and "j_state r = S_Queued"
  shows "log_ok (db\<lparr> jobs_tbl := jobs_tbl db @ [r] \<rparr>)"
proof -
  have fresh: "j_id r \<notin> j_id ` set (jobs_tbl db)"
    using assms(2) by (auto simp: find_job_def find_None_set)
  have "t_job_id t \<noteq> j_id r" if "t \<in> set (transitions_tbl db)" for t
    using log_ok_logged [OF assms(1) that] fresh by metis
  then have "audit_log (j_id r) db = []" by (simp add: audit_log_def filter_empty_conv)
  with assms fresh show ?thesis by (auto simp: log_ok_def)
qed

lemma log_ok_replace:
  assumes "log_ok db" and "find_job (j_id r') db = Some r" and "replays S_Queued (audit_log (j_id r') db') (j_state r')"
    and "jobs_tbl db' = jobs_tbl (replace_row r' db)"
    and "\<And>i. i \<noteq> j_id r' \<Longrightarrow> audit_log i db' = audit_log i db"
    and "\<And>t. t \<in> set (transitions_tbl db') \<Longrightarrow> t \<in> set (transitions_tbl db) \<or> t_job_id t = j_id r'"
  shows "log_ok db'"
proof -
  have ids: "distinct (map j_id (jobs_tbl db))" using assms(1) by (simp add: log_ok_def)
  have map_ids: "map j_id (jobs_tbl db') = map j_id (jobs_tbl db)"
    using replace_row_map [OF ids assms(2), of j_id] find_job_id [OF assms(2)] assms(4) by simp
  then have ids': "j_id ` set (jobs_tbl db') = j_id ` set (jobs_tbl db)" by (metis set_map)
  have "j_id r' \<in> j_id ` set (jobs_tbl db)" using find_job_id [OF assms(2)] by (metis imageI)
  then have "t_job_id ` set (transitions_tbl db') \<subseteq> j_id ` set (jobs_tbl db')"
    using assms(6) log_ok_logged [OF assms(1)] unfolding ids' by (metis image_subsetI)
  moreover have "replays S_Queued (audit_log (j_id x) db') (j_state x)" if "x \<in> set (jobs_tbl db')" for x
    using that assms(1,3-5) by (auto simp: replace_row_set [OF assms(2)] log_ok_def)
  ultimately show ?thesis using ids unfolding log_ok_def map_ids by blast
qed

lemma log_ok_event:
  assumes "log_ok db" and "find_job jid db = Some r" and "j_id r' = jid"
    and "transition (j_state r) ev = Inr (j_state r')"
  shows "log_ok (insert_transition jid (j_state r) ev (j_state r') ac d now (replace_row r' db))"
proof (rule log_ok_replace [OF assms(1), of r'])
  show "replays S_Queued (audit_log (j_id r') (insert_transition jid (j_state r) ev (j_state r') ac d now
      (replace_row r' db))) (j_state r')"
    using log_ok_row [OF assms(1,2)] assms(3,4) by (simp add: audit_log_insert replays_append)
qed (use assms(2,3) in \<open>auto simp: audit_log_insert\<close>, auto simp: insert_transition_def)

lemma log_ok_same:
  assumes "log_ok db" and "jobs_tbl db' = jobs_tbl db" and "transitions_tbl db' = transitions_tbl db"
  shows "log_ok db'"
  using assms by (simp add: log_ok_def audit_log_def)

lemma db_step_log_ok: "db_step db db' \<Longrightarrow> log_ok db \<Longrightarrow> log_ok db'"
proof (induction rule: db_step.induct)
  case (step_event jid db r ev r' ac d now)
  then show ?case
    using find_job_id [of jid db r] by (intro log_ok_event) (auto simp: moved_by_defs)
next
  case (step_renew jid db r r' t now)
  then have id: "j_id r' = jid" and st: "j_state r' = j_state r" using find_job_id [OF step_renew(1)] by simp_all
  show ?case
    by (rule log_ok_replace [OF step_renew.prems, of r' r])
      (use step_renew(1) id st log_ok_row [OF step_renew.prems step_renew(1)] in simp_all)
next
  case (step_new r db)
  then show ?case by (intro log_ok_new)
qed (simp_all add: log_ok_def)

lemma db_steps_log_ok: "db_steps db db' \<Longrightarrow> log_ok db \<Longrightarrow> log_ok db'"
  by (induction rule: rtranclp_induct) (auto intro: db_step_log_ok)

lemma apply_event_log_ok:
  assumes "apply_event_in_tx jid ev ac d now db = Inr (x, db')" and "log_ok db"
  shows "log_ok db'"
proof -
  from assms(1) obtain r nxt where r: "find_job jid db = Some r" and t: "transition (j_state r) ev = Inr nxt"
    by (auto simp: apply_event_in_tx_def Let_def res_iff)
  let ?r' = "r\<lparr> j_state := nxt, j_leased_by := (if is_in_flight nxt then j_leased_by r else None),
      j_lease_expires_at := (if is_in_flight nxt then j_lease_expires_at r else None),
      j_last_error := (case d of Some d \<Rightarrow> Some d | None \<Rightarrow> j_last_error r), j_updated_at := now \<rparr>"
  have id: "j_id ?r' = jid" using find_job_id [OF r] by simp
  have "db' = insert_transition jid (j_state r) ev (j_state ?r') ac d now (replace_row ?r' db)"
    using assms(1) r t id by (auto simp: apply_event_in_tx_def Let_def res_iff replace_row_def)
  with log_ok_event [OF assms(2) r id, of ev ac d now] t show ?thesis by simp
qed

lemma exec_public_log_ok: "log_ok db \<Longrightarrow> log_ok (exec_public sha db nop)"
proof -
  assume ok: "log_ok db"
  obtain now op where nop: "nop = (now, op)" by (cases nop)
  show ?thesis
  proof (cases op)
    case (Service o')
    have "db_steps db (exec_op sha db (now, o'))" using ok by (intro exec_op_steps) (simp add: log_ok_def)
    with ok Service show ?thesis by (simp add: nop db_steps_log_ok)
  next
    case (ApplyEvent i ev ac d)
    with ok show ?thesis
      by (auto simp: nop commit_def apply_event_def split: sum.splits intro: apply_event_log_ok)
  qed
qed

lemma exec_public_ok:
  assumes "store_ok db" and "leases_properly nop"
  shows "store_ok (exec_public sha db nop)"
proof -
  obtain now op where nop: "nop = (now, op)" by (cases nop)
  have "db_steps db (exec_public sha db nop)"
  proof (cases op)
    case (Service o')
    with exec_op_steps [OF store_ok_ids [OF assms(1)]] show ?thesis by (simp add: nop)
  next
    case (ApplyEvent i ev ac d)
    with assms(2) show ?thesis
      by (auto simp: nop apply_event_def intro!: commit_steps dest: apply_event_steps)
  qed
  then show ?thesis using assms(1) by (rule db_steps_ok)
qed

interpretation public_runs: preserved "exec_public sha" log_ok for sha
  by unfold_locales (rule exec_public_log_ok)

lemma run_public_log_ok: "log_ok db \<Longrightarrow> log_ok (run_public sha db ops)"
  unfolding run_public_def by (rule public_runs.run_inv)

lemma run_public_ok: "store_ok db \<Longrightarrow> list_all leases_properly ops \<Longrightarrow> store_ok (run_public sha db ops)"
  unfolding run_public_def by (induction ops arbitrary: db) (simp_all add: exec_public_ok)

end
