(* ===== verification/Lease_Queue.thy ===== *)
theory Lease_Queue
  imports Store_Invariants
begin

text \<open>
  The contract both work queues of the store keep, the workers' (\<open>lease_next\<close>) and the relayers'
  (\<open>lease_next_proved\<close>): taking hands out the oldest eligible job, marks it held, touches no other
  job, and finds nothing only when nothing is eligible. That concurrent takers get distinct jobs in
  order of age is proved once from the contract.
\<close>

section \<open>The contract\<close>

lemma oldest_None: "oldest rs = None \<longleftrightarrow> rs = []"
  by (cases rs) (auto split: option.splits)

text \<open>
  What a sequence of takers gets from a queue, each with its own identity, clock and set of locked
  rows. A taker that finds nothing, or whose transaction fails, gets nothing.
\<close>

fun take_all ::
  "(uuid list \<Rightarrow> string \<Rightarrow> interval \<Rightarrow> time \<Rightarrow> db \<Rightarrow> store_error + job option \<times> db) \<Rightarrow>
   (uuid list \<times> string \<times> interval \<times> time) list \<Rightarrow> db \<Rightarrow> job list \<times> db" where
  "take_all tk [] db = ([], db)"
| "take_all tk ((locked, w, ttl, now) # ts) db =
     (case tk locked w ttl now db of
        Inr (Some j, db') \<Rightarrow> (case take_all tk ts db' of (js, db'') \<Rightarrow> (j # js, db''))
      | _ \<Rightarrow> take_all tk ts db)"

locale lease_queue =
  fixes take_next :: "uuid list \<Rightarrow> string \<Rightarrow> interval \<Rightarrow> time \<Rightarrow> db \<Rightarrow> store_error + job option \<times> db"
    and waiting :: job_state
    and held :: job_state
    and counter :: "job_row \<Rightarrow> int"
  assumes take_some: "store_ok db \<Longrightarrow> take_next locked w ttl now db = Inr (Some j, db') \<Longrightarrow>
      \<exists>r r'. candidate waiting locked now db = Some r \<and> j_id r' = j_id r \<and> j = from_row r' \<and>
        j_created_at r' = j_created_at r \<and>
        find_job (j_id r) db' = Some r' \<and> j_state r' = held \<and> j_leased_by r' = Some w \<and>
        j_lease_expires_at r' = Some (now + ttl) \<and> counter r' = counter r + 1 \<and>
        (\<forall>i. i \<noteq> j_id r \<longrightarrow> find_job i db' = find_job i db)"
    and take_nothing: "candidate waiting locked now db = None \<Longrightarrow> take_next locked w ttl now db = Inr (None, db)"
    and take_total: "store_ok db \<Longrightarrow> candidate waiting locked now db = Some r \<Longrightarrow> counter r < i32_max \<Longrightarrow>
      \<exists>j db'. take_next locked w ttl now db = Inr (Some j, db')"
    and take_keeps: "store_ok db \<Longrightarrow> take_next locked w ttl now db = Inr (res, db') \<Longrightarrow> store_ok db'"
    and waiting_not_held: "waiting \<noteq> held"
begin

lemma take_hands_out_waiting:
  assumes "store_ok db" and "take_next locked w ttl now db = Inr (Some j, db')"
  shows "\<exists>r. find_job (j_id j) db = Some r \<and> leasable waiting locked now r"
  using take_some [OF assms] find_job_member [OF store_ok_ids [OF assms(1)]]
  by (auto simp: from_row_def job.defs dest!: candidate_in)

lemma take_all_cases:
  assumes "store_ok db"
  obtains (taken) j1 db1 r where "candidate waiting locked now db = Some r" and "j_id j1 = j_id r"
      and "j_created_at j1 = j_created_at r"
      and "find_job (j_id r) db = Some r" and "j_state r = waiting" and "store_ok db1"
      and "\<And>x. find_job (j_id r) db1 = Some x \<Longrightarrow> j_state x = held"
      and "\<And>i. i \<noteq> j_id r \<Longrightarrow> find_job i db1 = find_job i db"
      and "fst (take_all take_next ((locked, w, ttl, now) # ts) db) = j1 # fst (take_all take_next ts db1)"
  | (nothing) "take_all take_next ((locked, w, ttl, now) # ts) db = take_all take_next ts db"
proof (cases "\<exists>j1 db1. take_next locked w ttl now db = Inr (Some j1, db1)")
  case True
  then obtain j1 db1 where t: "take_next locked w ttl now db = Inr (Some j1, db1)" by blast
  from take_some [OF assms t] obtain r r' where r: "candidate waiting locked now db = Some r"
      "j_id r' = j_id r" "j1 = from_row r'" "j_created_at r' = j_created_at r"
      "find_job (j_id r) db1 = Some r'" "j_state r' = held"
      "\<forall>i. i \<noteq> j_id r \<longrightarrow> find_job i db1 = find_job i db" by blast
  show thesis
  proof (rule taken)
    show "find_job (j_id r) db = Some r" "j_state r = waiting"
      using candidate_in [OF r(1)] find_job_member [OF store_ok_ids [OF assms]] by (auto simp: leasable_def)
    show "store_ok db1" using take_keeps [OF assms t] .
    show "fst (take_all take_next ((locked, w, ttl, now) # ts) db) = j1 # fst (take_all take_next ts db1)"
      using t by (simp split: prod.splits)
  qed (use r in \<open>auto simp: from_row_def job.defs\<close>)
next
  case False
  then have "take_all take_next ((locked, w, ttl, now) # ts) db = take_all take_next ts db"
    by (auto split: sum.splits option.splits)
  then show thesis by (rule nothing)
qed

text \<open>What is handed out was waiting, so a job that is held is not handed out again.\<close>

lemma take_all_fresh:
  "store_ok db \<Longrightarrow> j \<in> set (fst (take_all take_next ts db)) \<Longrightarrow> \<exists>r. find_job (j_id j) db = Some r \<and> j_state r = waiting"
proof (induction ts arbitrary: db)
  case (Cons t ts)
  obtain locked w ttl now where t: "t = (locked, w, ttl, now)" by (cases t)
  show ?case
  proof (rule take_all_cases [OF Cons.prems(1), of locked now w ttl ts])
    fix j1 db1 r
    assume r: "j_id j1 = j_id r" "find_job (j_id r) db = Some r" "j_state r = waiting" "store_ok db1"
      "\<And>x. find_job (j_id r) db1 = Some x \<Longrightarrow> j_state x = held"
      "\<And>i. i \<noteq> j_id r \<Longrightarrow> find_job i db1 = find_job i db"
      "fst (take_all take_next ((locked, w, ttl, now) # ts) db) = j1 # fst (take_all take_next ts db1)"
    show ?thesis
    proof (cases "j_id j = j_id r")
      case False
      then have "j \<in> set (fst (take_all take_next ts db1))" using Cons.prems(2) r(1,7) t by auto
      with Cons.IH [OF r(4)] r(6) [OF False] show ?thesis by auto
    qed (use r in simp)
  next
    assume "take_all take_next ((locked, w, ttl, now) # ts) db = take_all take_next ts db"
    then show ?thesis using Cons t by simp
  qed
qed simp

lemma take_all_distinct: "store_ok db \<Longrightarrow> distinct (map j_id (fst (take_all take_next ts db)))"
proof (induction ts arbitrary: db)
  case (Cons t ts)
  obtain locked w ttl now where t: "t = (locked, w, ttl, now)" by (cases t)
  show ?case
  proof (rule take_all_cases [OF Cons.prems, of locked now w ttl ts])
    fix j1 db1 r
    assume r: "j_id j1 = j_id r" "store_ok db1"
      "\<And>x. find_job (j_id r) db1 = Some x \<Longrightarrow> j_state x = held"
      "fst (take_all take_next ((locked, w, ttl, now) # ts) db) = j1 # fst (take_all take_next ts db1)"
    have "j_id j \<noteq> j_id r" if "j \<in> set (fst (take_all take_next ts db1))" for j
      using take_all_fresh [OF r(2) that] r(3) waiting_not_held by auto
    then have "j_id r \<notin> j_id ` set (fst (take_all take_next ts db1))" by (metis imageE)
    with Cons.IH [OF r(2)] r(1,4) t show ?thesis by simp
  next
    assume "take_all take_next ((locked, w, ttl, now) # ts) db = take_all take_next ts db"
    then show ?thesis using Cons t by simp
  qed
qed simp

lemma take_oldest:
  assumes "store_ok db" and "take_next locked w ttl now db = Inr (Some j, db')"
    and "x \<in> set (jobs_tbl db)" and "leasable waiting locked now x"
  shows "j_created_at j \<le> j_created_at x"
proof -
  have least: "oldest rs = Some r \<Longrightarrow> x \<in> set rs \<Longrightarrow> j_created_at r \<le> j_created_at x" for rs and r :: job_row
  proof (induction rs arbitrary: r)
    case (Cons a rs)
    then show ?case by (cases "oldest rs") (fastforce split: if_splits dest: oldest_None [THEN iffD1])+
  qed simp
  from take_some [OF assms(1,2)] obtain r r' where r: "candidate waiting locked now db = Some r"
      "j = from_row r'" "j_created_at r' = j_created_at r" by blast
  then have "j_created_at r \<le> j_created_at x"
    using assms(3,4) by (intro least [of "filter (leasable waiting locked now) (jobs_tbl db)"])
      (simp_all add: candidate_def)
  with r show ?thesis by (simp add: from_row_def job.defs)
qed

lemma take_none_iff:
  assumes "store_ok db" and "\<And>r. r \<in> set (jobs_tbl db) \<Longrightarrow> counter r < i32_max"
  shows "take_next locked w ttl now db = Inr (None, db) \<longleftrightarrow>
    (\<forall>r \<in> set (jobs_tbl db). \<not> leasable waiting locked now r)"
proof -
  have none: "candidate waiting locked now db = None \<longleftrightarrow> (\<forall>r \<in> set (jobs_tbl db). \<not> leasable waiting locked now r)"
    by (auto simp: candidate_def oldest_None filter_empty_conv)
  show ?thesis
  proof (cases "candidate waiting locked now db")
    case None
    then have "take_next locked w ttl now db = Inr (None, db)" by (rule take_nothing)
    with None none show ?thesis by simp
  next
    case (Some r)
    with take_total [OF assms(1) Some assms(2)] candidate_in [OF Some] none show ?thesis
      by (metis Inr_inject option.distinct(1) prod.inject)
  qed
qed

end

section \<open>The two queues\<close>

lemma taken_row_ok:
  assumes "satisfies job_checks r" and "j_state r = S_Queued \<and> st = S_Leased \<or> j_state r = S_Proved \<and> st = S_Submitting"
    and "0 \<le> n" and "0 \<le> m"
  shows "satisfies job_checks (r\<lparr> j_state := st, j_leased_by := Some w, j_lease_expires_at := Some t,
    j_attempts := n, j_submission_attempts := m, j_retry_after := None, j_updated_at := now \<rparr>)"
  using assms by (auto simp: satisfies_def job_checks_def)

lemma row_counters: "satisfies job_checks r \<Longrightarrow> 0 \<le> j_attempts r \<and> 0 \<le> j_submission_attempts r"
  by (simp add: satisfies_def job_checks_def)

lemma insert_attempt_total:
  assumes "0 < n"
  shows "\<exists>ats. insert_attempt jid n w now db = Inr (db\<lparr> attempts_tbl := ats \<rparr>)"
proof (cases "list_ex (\<lambda>a. a_job_id a = jid \<and> a_attempt_number a = n) (attempts_tbl db)")
  case True
  then have "insert_attempt jid n w now db = Inr (db\<lparr> attempts_tbl := attempts_tbl db \<rparr>)"
    by (simp add: insert_attempt_def)
  then show ?thesis by blast
next
  case False
  with assms show ?thesis
    by (auto simp: insert_attempt_def Let_def check_row_def attempt_checks_def)
qed

lemma lease_next_some:
  assumes "store_ok db" and "candidate S_Queued locked now db = Some r" and "j_attempts r < i32_max"
  shows "\<exists>r' ats. r' = r\<lparr> j_state := S_Leased, j_leased_by := Some w, j_lease_expires_at := Some (now + ttl),
      j_attempts := j_attempts r + 1, j_retry_after := None, j_updated_at := now \<rparr> \<and>
    lease_next locked w ttl now db = Inr (Some (from_row r'),
      insert_transition (j_id r) S_Queued E_Leased S_Leased (Some w) None now
        ((replace_row r' db)\<lparr> attempts_tbl := ats \<rparr>))"
proof -
  let ?r' = "r\<lparr> j_state := S_Leased, j_leased_by := Some w, j_lease_expires_at := Some (now + ttl),
      j_attempts := j_attempts r + 1, j_retry_after := None, j_updated_at := now \<rparr>"
  have f: "find_job (j_id r) db = Some r" "j_state r = S_Queued"
    using candidate_in [OF assms(2)] find_job_member [OF store_ok_ids [OF assms(1)]] by (auto simp: leasable_def)
  have ok: "satisfies job_checks r" using store_ok_row [OF assms(1) f(1)] by (simp add: row_ok_def)
  have "satisfies job_checks ?r'"
    using taken_row_ok [OF ok, of S_Leased "j_attempts r + 1" "j_submission_attempts r"] f(2) row_counters [OF ok]
    by simp
  then have up: "update_job (j_id r) (\<lambda>x. x\<lparr> j_state := S_Leased, j_leased_by := Some w,
      j_lease_expires_at := Some (now + ttl), j_attempts := j_attempts r + 1, j_retry_after := None \<rparr>) now db
      = Inr (?r', replace_row ?r' db)"
    using f(1) by (simp add: update_job_ok replace_row_def)
  obtain ats where "insert_attempt (j_id r) (j_attempts r + 1) w now (replace_row ?r' db)
      = Inr ((replace_row ?r' db)\<lparr> attempts_tbl := ats \<rparr>)"
    using insert_attempt_total [of "j_attempts r + 1"] row_counters [OF ok] by force
  then have "lease_next locked w ttl now db = Inr (Some (from_row ?r'),
      insert_transition (j_id r) S_Queued E_Leased S_Leased (Some w) None now
        ((replace_row ?r' db)\<lparr> attempts_tbl := ats \<rparr>))"
    using assms(2,3) up by (simp add: lease_next_def Let_def transition_or_def increment_i32_def)
  then show ?thesis by blast
qed

lemma lease_next_proved_some:
  assumes "store_ok db" and "candidate S_Proved locked now db = Some r" and "j_submission_attempts r < i32_max"
  shows "\<exists>r'. r' = r\<lparr> j_state := S_Submitting, j_leased_by := Some w, j_lease_expires_at := Some (now + ttl),
      j_submission_attempts := j_submission_attempts r + 1, j_retry_after := None, j_updated_at := now \<rparr> \<and>
    lease_next_proved locked w ttl now db = Inr (Some (from_row r'),
      insert_transition (j_id r) S_Proved E_SubmissionStarted S_Submitting (Some w) None now (replace_row r' db))"
proof -
  let ?r' = "r\<lparr> j_state := S_Submitting, j_leased_by := Some w, j_lease_expires_at := Some (now + ttl),
      j_submission_attempts := j_submission_attempts r + 1, j_retry_after := None, j_updated_at := now \<rparr>"
  have f: "find_job (j_id r) db = Some r" "j_state r = S_Proved"
    using candidate_in [OF assms(2)] find_job_member [OF store_ok_ids [OF assms(1)]] by (auto simp: leasable_def)
  have ok: "satisfies job_checks r" using store_ok_row [OF assms(1) f(1)] by (simp add: row_ok_def)
  have "satisfies job_checks ?r'"
    using taken_row_ok [OF ok, of S_Submitting "j_attempts r" "j_submission_attempts r + 1"] f(2) row_counters [OF ok]
    by simp
  then have up: "update_job (j_id r) (\<lambda>x. x\<lparr> j_state := S_Submitting, j_leased_by := Some w,
      j_lease_expires_at := Some (now + ttl), j_submission_attempts := j_submission_attempts r + 1,
      j_retry_after := None \<rparr>) now db = Inr (?r', replace_row ?r' db)"
    using f(1) by (simp add: update_job_ok replace_row_def)
  then show ?thesis
    using assms(2,3) by (simp add: lease_next_proved_def Let_def transition_or_def increment_i32_def)
qed

lemma lease_next_taken:
  assumes "lease_next locked w ttl now db = Inr (Some j, db')"
  shows "\<exists>r. candidate S_Queued locked now db = Some r \<and> j_attempts r < i32_max"
  using assms by (auto simp: lease_next_def Let_def and_then_Inr increment_i32_ok split: option.splits)

lemma lease_next_proved_taken:
  assumes "lease_next_proved locked w ttl now db = Inr (Some j, db')"
  shows "\<exists>r. candidate S_Proved locked now db = Some r \<and> j_submission_attempts r < i32_max"
  using assms by (auto simp: lease_next_proved_def Let_def and_then_Inr increment_i32_ok split: option.splits)

lemma candidate_found:
  "store_ok db \<Longrightarrow> candidate st locked now db = Some r \<Longrightarrow> find_job (j_id r) db = Some r"
  using candidate_in find_job_member store_ok_ids by blast

lemma find_job_replace_other [simp]:
  "find_job (j_id r) db = Some x \<Longrightarrow> find_job i (replace_row r db) = (if i = j_id r then Some r else find_job i db)"
  by (rule find_job_replace)

interpretation proving_queue: lease_queue lease_next S_Queued S_Leased j_attempts
proof
  fix db locked w ttl now j db'
  assume ok: "store_ok db" and t: "lease_next locked w ttl now db = Inr (Some j, db')"
  obtain r where r: "candidate S_Queued locked now db = Some r" "j_attempts r < i32_max"
    using lease_next_taken [OF t] by blast
  from lease_next_some [OF ok r, where w = w and ttl = ttl] t r(1) candidate_found [OF ok r(1)]
  show "\<exists>r r'. candidate S_Queued locked now db = Some r \<and> j_id r' = j_id r \<and> j = from_row r' \<and>
        j_created_at r' = j_created_at r \<and>
        find_job (j_id r) db' = Some r' \<and> j_state r' = S_Leased \<and> j_leased_by r' = Some w \<and>
        j_lease_expires_at r' = Some (now + ttl) \<and> j_attempts r' = j_attempts r + 1 \<and>
        (\<forall>i. i \<noteq> j_id r \<longrightarrow> find_job i db' = find_job i db)"
    by auto
next
  fix db locked now w ttl
  assume "candidate S_Queued locked now db = None"
  then show "lease_next locked w ttl now db = Inr (None, db)" by (simp add: lease_next_def)
next
  fix db locked now r w ttl
  assume "store_ok db" "candidate S_Queued locked now db = Some r" "j_attempts r < i32_max"
  from lease_next_some [OF this] show "\<exists>j db'. lease_next locked w ttl now db = Inr (Some j, db')" by blast
next
  fix db locked w ttl now res db'
  assume "store_ok db" "lease_next locked w ttl now db = Inr (res, db')"
  then show "store_ok db'" by (blast intro: db_steps_ok lease_next_steps store_ok_ids)
qed simp

interpretation submit_queue: lease_queue lease_next_proved S_Proved S_Submitting j_submission_attempts
proof
  fix db locked w ttl now j db'
  assume ok: "store_ok db" and t: "lease_next_proved locked w ttl now db = Inr (Some j, db')"
  obtain r where r: "candidate S_Proved locked now db = Some r" "j_submission_attempts r < i32_max"
    using lease_next_proved_taken [OF t] by blast
  from lease_next_proved_some [OF ok r, where w = w and ttl = ttl] t r(1) candidate_found [OF ok r(1)]
  show "\<exists>r r'. candidate S_Proved locked now db = Some r \<and> j_id r' = j_id r \<and> j = from_row r' \<and>
        j_created_at r' = j_created_at r \<and>
        find_job (j_id r) db' = Some r' \<and> j_state r' = S_Submitting \<and> j_leased_by r' = Some w \<and>
        j_lease_expires_at r' = Some (now + ttl) \<and> j_submission_attempts r' = j_submission_attempts r + 1 \<and>
        (\<forall>i. i \<noteq> j_id r \<longrightarrow> find_job i db' = find_job i db)"
    by auto
next
  fix db locked now w ttl
  assume "candidate S_Proved locked now db = None"
  then show "lease_next_proved locked w ttl now db = Inr (None, db)" by (simp add: lease_next_proved_def)
next
  fix db locked now r w ttl
  assume "store_ok db" "candidate S_Proved locked now db = Some r" "j_submission_attempts r < i32_max"
  from lease_next_proved_some [OF this]
  show "\<exists>j db'. lease_next_proved locked w ttl now db = Inr (Some j, db')" by blast
next
  fix db locked w ttl now res db'
  assume "store_ok db" "lease_next_proved locked w ttl now db = Inr (res, db')"
  then show "store_ok db'" by (blast intro: db_steps_ok lease_next_proved_steps store_ok_ids)
qed simp

end
