(* ===== verification/Store_Properties.thy ===== *)
theory Store_Properties
  imports Lease_Queue Job_Identity
begin

text \<open>
  The properties of the store: nothing is lost, the audit log is the history, a proof survives, one
  live settlement per nullifier, the work queues, the reaper, and what the operations do not check.
\<close>

section \<open>Sample tables\<close>

text \<open>A store with one queued job, built by the operations, for the concrete instances below.\<close>

definition sample_hash :: "bytes \<Rightarrow> bytes" where
  "sample_hash b = replicate 32 (CHR ''h'')"

definition sample_circuit :: circuit where
  "sample_circuit = \<lparr> c_id = ''c'', c_display_name = ''C'', c_input_schema = JObject [],
     c_verifier_address = None, c_enabled = True \<rparr>"

definition queued_db :: db where
  "queued_db = run_store sample_hash empty_db
     [(0, OpUpsertCircuit sample_circuit), (1, OpEnqueue 7 ''c'' (JBool True) None 3)]"

definition leased_db :: db where
  "leased_db = run_store sample_hash queued_db [(2, OpLeaseNext [] ''w'' 10)]"

definition proved_db :: db where
  "proved_db = run_store sample_hash leased_db
     [(3, OpBeginProving 7 ''w''), (4, OpRecordProof 7 ''w'' ''p'' ''q'' 1 None)]"

lemma sample_ok: "store_ok queued_db" "store_ok leased_db" "store_ok proved_db"
  unfolding queued_db_def leased_db_def proved_db_def by (intro run_store_ok store_ok_empty)+

definition sample_row :: job_row where
  "sample_row = new_job_row 7 ''c'' (replicate 32 (CHR ''h'')) None (JBool True) 3 1"

lemma sample_rows:
  "find_job 7 queued_db = Some sample_row"
  "find_job 7 leased_db = Some (sample_row\<lparr> j_state := S_Leased, j_leased_by := Some ''w'',
     j_lease_expires_at := Some 12, j_attempts := 1, j_updated_at := 2 \<rparr>)"
  "find_job 7 proved_db = Some (sample_row\<lparr> j_state := S_Proved, j_attempts := 1,
     j_proof := Some ''p'', j_public_inputs := Some ''q'', j_updated_at := 4 \<rparr>)"
  by code_simp+

section \<open>Facts about runs\<close>

lemma replays_unique: "replays s l t \<Longrightarrow> replays s l u \<Longrightarrow> t = u"
  using replays_run by blast

lemma run_row_ok:
  "store_ok db \<Longrightarrow> find_job jid (run_store sha db ops) = Some r \<Longrightarrow> row_ok (run_store sha db ops) r"
  by (rule store_ok_row [OF run_store_ok])

interpretation step_runs: preserved "exec_op sha" "\<lambda>db'. store_ok db' \<and> db_steps db db'" for sha db
  by unfold_locales (blast intro: db_steps_ok exec_op_steps store_ok_ids rtranclp_trans)

lemma run_steps: "store_ok db \<Longrightarrow> db_steps db (run_store sha db ops)"
  unfolding run_store_def using step_runs.run_inv [of db db] by blast

text \<open>A job with a proof, followed over the steps.\<close>

definition proof_held :: "uuid \<Rightarrow> bytes option \<Rightarrow> bytes option \<Rightarrow> db \<Rightarrow> bool" where
  "proof_held jid p q db \<longleftrightarrow> (\<exists>r. find_job jid db = Some r \<and>
     (past_proving (j_state r) \<or> j_state r = S_Failed) \<and> j_proof r = p \<and> j_public_inputs r = q)"

lemma db_step_proof_held: "db_step db db' \<Longrightarrow> proof_held jid p q db \<Longrightarrow> proof_held jid p q db'"
proof (induction rule: db_step.induct)
  case (step_new r db)
  then show ?case by (auto simp: proof_held_def find_job_def find_append_rows)
next
  case (step_event i db r ev r' ac detail now)
  show ?case
  proof (cases "i = jid")
    case True
    then have st: "past_proving (j_state r) \<or> j_state r = S_Failed" and pq: "j_proof r = p" "j_public_inputs r = q"
      using step_event by (auto simp: proof_held_def)
    have t: "transition (j_state r) ev = Inr (j_state r')" using step_event(2) by (simp add: moved_by_def)
    have "past_proving (j_state r)" using st t transition_terminal [of "j_state r" ev] by auto
    then have "ev \<noteq> E_ProofSucceeded" and "past_proving (j_state r') \<or> j_state r' = S_Failed"
      using t transition_keeps_proof [OF t] by (auto simp: past_proving_def)
    then show ?thesis
      using step_event(1,2) pq True find_job_id [OF step_event(1)]
      by (auto simp: proof_held_def moved_by_defs find_job_replace)
  next
    case False
    then show ?thesis
      using step_event find_job_id [OF step_event(1)]
      by (auto simp: proof_held_def moved_by_defs find_job_replace)
  qed
next
  case (step_renew i db r r' t now)
  then show ?case
    using find_job_id [OF step_renew(1)] by (auto simp: proof_held_def find_job_replace)
qed (simp_all add: proof_held_def)

lemma db_steps_proof_held: "db_steps db db' \<Longrightarrow> proof_held jid p q db \<Longrightarrow> proof_held jid p q db'"
  by (induction rule: rtranclp_induct) (auto intro: db_step_proof_held)

section \<open>Nothing is lost\<close>

text \<open>
  Claim C2. No job is lost: whatever operations run, whether they succeed or fail, every job is
  still there with the same circuit, inputs, hash and budget, and its new log entries lead by legal
  transitions from the state it had to the state it has.
\<close>
theorem no_job_lost:
  assumes "store_ok db" and "find_job jid db = Some r"
  shows "\<exists>r' l. find_job jid (run_store sha db ops) = Some r' \<and> same_work r r' \<and>
    audit_log jid (run_store sha db ops) = audit_log jid db @ l \<and> replays (j_state r) l (j_state r')"
proof -
  let ?db' = "run_store sha db ops"
  obtain r' l where r': "find_job jid ?db' = Some r'" "same_work r r'"
    and l: "audit_log jid ?db' = audit_log jid db @ l"
    using run_store_kept [OF assms(1)] assms(2) unfolding work_kept_def by blast
  have "replays S_Queued (audit_log jid db @ l) (j_state r')" and "replays S_Queued (audit_log jid db) (j_state r)"
    using run_row_ok [OF assms(1) r'(1)] store_ok_row [OF assms] find_job_id [OF r'(1)] find_job_id [OF assms(2)] l
    by (auto simp: row_ok_def)
  then have "replays (j_state r) l (j_state r')" using replays_unique by (auto simp: replays_append)
  with r' l show ?thesis by blast
qed

theorem no_job_lost_witness:
  "\<exists>r' l. find_job 7 (run_store sample_hash leased_db [(20, OpReap [] ''r'')]) = Some r' \<and>
    audit_log 7 (run_store sample_hash leased_db [(20, OpReap [] ''r'')]) = audit_log 7 leased_db @ l \<and>
    replays S_Leased l (j_state r')"
  using no_job_lost [OF sample_ok(2) sample_rows(2), of sample_hash "[(20, OpReap [] ''r'')]"] by auto

text \<open>
  Claim C20. The audit log is the history: after any public operations on an empty store, \<open>apply_event\<close>
  with any event included, replaying a job's log from \<open>queued\<close> gives its state. When \<open>apply_event\<close> was not
  used to take a job into flight (it was never called with \<open>Leased\<close> or \<open>SubmissionStarted\<close>, and no service
  does), the attempt counters are the numbers of leases logged and the job has a holder exactly while it is
  in flight; the finding at lib.rs:395 is what happens otherwise.
\<close>
theorem audit_log_is_the_history:
  assumes "find_job jid (run_public sha empty_db ops) = Some r"
  shows "replays S_Queued (audit_log jid (run_public sha empty_db ops)) (j_state r) \<and>
    run S_Queued (log_events (audit_log jid (run_public sha empty_db ops))) = j_state r \<and>
    (list_all leases_properly ops \<longrightarrow>
      j_attempts r = int (length (filter (\<lambda>e. e = E_Leased)
        (log_events (audit_log jid (run_public sha empty_db ops))))) \<and>
      j_submission_attempts r = int (length (filter (\<lambda>e. e = E_SubmissionStarted)
        (log_events (audit_log jid (run_public sha empty_db ops))))) \<and>
      (is_in_flight (j_state r) \<longleftrightarrow> j_leased_by r \<noteq> None))"
proof -
  have "replays S_Queued (audit_log jid (run_public sha empty_db ops)) (j_state r)"
    using log_ok_row [OF run_public_log_ok [OF log_ok_empty] assms] .
  moreover have "row_ok (run_public sha empty_db ops) r" if "list_all leases_properly ops"
    using store_ok_row [OF run_public_ok [OF store_ok_empty that] assms] .
  ultimately show ?thesis
    using find_job_id [OF assms] by (auto simp: row_ok_def lease_ok_def replays_run)
qed

definition sample_ops :: "(time \<times> store_op) list" where
  "sample_ops =
     [(0, OpUpsertCircuit sample_circuit), (1, OpEnqueue 7 ''c'' (JBool True) None 3),
      (2, OpLeaseNext [] ''w'' 10), (3, OpReleaseLease 7 ''w''), (4, OpLeaseNext [] ''v'' 10)]"

text \<open>The second job is leased by an event, which counts nothing and names no holder.\<close>

theorem audit_log_is_the_history_witness:
  "run S_Queued (log_events (audit_log 7 (run_public sample_hash empty_db (map (apsnd Service) sample_ops)))) = S_Leased \<and>
   (let db = run_public sample_hash empty_db (map (apsnd Service) (take 2 sample_ops) @ [(2, ApplyEvent 7 E_Leased None None)]) in
    run S_Queued (log_events (audit_log 7 db)) = S_Leased \<and>
    (case find_job 7 db of Some r \<Rightarrow> j_leased_by r = None \<and> j_attempts r = 0 | None \<Rightarrow> False))"
proof -
  let ?db1 = "run_public sample_hash empty_db (map (apsnd Service) sample_ops)"
  let ?db2 = "run_public sample_hash empty_db
    (map (apsnd Service) (take 2 sample_ops) @ [(2, ApplyEvent 7 E_Leased None None)])"
  have 1: "find_job 7 ?db1 = Some (sample_row\<lparr> j_state := S_Leased,
      j_leased_by := Some ''v'', j_lease_expires_at := Some 14, j_attempts := 2,
      j_last_error := Some ''released on shutdown'', j_updated_at := 4 \<rparr>)" by code_simp
  have 2: "find_job 7 ?db2 = Some (sample_row\<lparr> j_state := S_Leased, j_updated_at := 2 \<rparr>)" by code_simp
  have r: "j_leased_by sample_row = None" "j_attempts sample_row = 0" by (simp_all add: sample_row_def new_job_row_def)
  from audit_log_is_the_history [OF 1] audit_log_is_the_history [OF 2] 2 r show ?thesis
    unfolding Let_def by simp
qed

text \<open>
  Claim C5. A proof is never thrown away: once a job is past proving, no operation by anyone changes
  its proof or its public inputs, and the only way out of the states past proving is to fail.
\<close>
theorem recorded_proof_survives:
  assumes "store_ok db" and "find_job jid db = Some r" and "past_proving (j_state r)"
  shows "\<exists>r'. find_job jid (run_store sha db ops) = Some r' \<and>
    j_proof r' = j_proof r \<and> j_public_inputs r' = j_public_inputs r \<and>
    (past_proving (j_state r') \<or> j_state r' = S_Failed)"
proof -
  have "proof_held jid (j_proof r) (j_public_inputs r) db" using assms(2,3) by (auto simp: proof_held_def)
  from db_steps_proof_held [OF run_steps [OF assms(1)] this] show ?thesis by (auto simp: proof_held_def)
qed

theorem recorded_proof_survives_witness:
  "\<exists>r'. find_job 7 (run_store sample_hash proved_db
       [(9, OpLeaseNextProved [] ''rel'' 5), (99, OpReap [] ''r''), (100, OpRecordProof 7 ''w'' ''x'' ''y'' 1 None)])
     = Some r' \<and> j_proof r' = Some ''p'' \<and> (past_proving (j_state r') \<or> j_state r' = S_Failed)"
  using recorded_proof_survives [OF sample_ok(3) sample_rows(3), of sample_hash
      "[(9, OpLeaseNextProved [] ''rel'' 5), (99, OpReap [] ''r''), (100, OpRecordProof 7 ''w'' ''x'' ''y'' 1 None)]"]
  by auto

text \<open>
  Claim C4. No two live settlements consume one nullifier and no two jobs have one hash, after any
  sequence of operations.
\<close>
theorem unique_settlements_and_jobs:
  "distinct (live_nullifiers (run_store sha empty_db ops)) \<and>
   distinct (map j_job_hash (jobs_tbl (run_store sha empty_db ops))) \<and>
   distinct (map j_id (jobs_tbl (run_store sha empty_db ops)))"
  using run_store_ok [OF store_ok_empty, of sha ops] by (simp add: store_ok_def)

section \<open>Submitting twice\<close>

lemma enqueue_stored:
  assumes "store_ok db" and "enqueue sha jid cid v key m now db = Inr ((j, e), db')"
  shows "\<exists>h r. job_hash sha cid v = Inr h \<and> find (\<lambda>x. j_job_hash x = h) (jobs_tbl db') = Some r \<and>
    j = from_row r \<and> j_job_hash r = h \<and> find_circuit cid db' = find_circuit cid db \<and>
    (\<exists>c. find_circuit cid db = Some c \<and> c_enabled c) \<and> length h = 32"
  using assms(2)
  by (auto simp: enqueue_def Let_def res_iff find_append_rows new_job_row_def find_circuit_def satisfies_def
      job_checks_def split: if_splits option.splits dest: find_SomeD)

text \<open>
  Claim C27. Submitting the same work again is a duplicate, not a second job: after an accepted
  request, one for the same circuit with the same inputs up to key order returns the same job and
  changes nothing, whatever id it drew and whatever key it carries.
\<close>
theorem enqueue_is_idempotent:
  assumes "store_ok db" and "wf_json v" and "wf_json v'" and "normalise v' = normalise v"
    and "enqueue sha jid cid v key m now db = Inr ((j, e), db')" and "0 < m'"
  shows "enqueue sha jid' cid v' key' m' now' db' = Inr ((j, Duplicate), db')"
proof -
  obtain h r c where h: "job_hash sha cid v = Inr h" "find (\<lambda>x. j_job_hash x = h) (jobs_tbl db') = Some r"
    "j = from_row r" "find_circuit cid db' = Some c" "c_enabled c" "length h = 32"
    using enqueue_stored [OF assms(1,5)] by auto
  have "canonicalise v' = canonicalise v"
    using canonicalise_normalise [OF assms(2)] canonicalise_normalise [OF assms(3)] assms(4) by simp
  then have "job_hash sha cid v' = Inr h" using h(1) by (simp add: job_hash_def job_preimage_def)
  moreover have "check_row job_checks (new_job_row jid' cid h key' v' m' now') = Inr ()"
    using h(6) assms(6) by (simp add: check_row_ok satisfies_def job_checks_def new_job_row_def)
  ultimately show ?thesis using h by (simp add: enqueue_def Let_def)
qed

theorem enqueue_is_idempotent_witness:
  "\<exists>j db'. enqueue sample_hash 8 ''c'' (JObject [(''a'', JNull), (''b'', JNull)]) None 3 5 queued_db = Inr ((j, Duplicate), db')"
proof -
  let ?v = "JObject [(''a'', JNull), (''b'', JNull)]" and ?v' = "JObject [(''b'', JNull), (''a'', JNull)]"
  have "\<exists>j e db'. enqueue sample_hash 9 ''c'' ?v' (Some ''k'') 2 4 queued_db = Inr ((j, e), db') \<and> db' = queued_db"
    by (intro exI conjI) code_simp+
  then obtain j e where e: "enqueue sample_hash 9 ''c'' ?v' (Some ''k'') 2 4 queued_db = Inr ((j, e), queued_db)"
    by blast
  have n: "normalise ?v = normalise ?v'" by simp
  show ?thesis
    using enqueue_is_idempotent [OF sample_ok(1) _ _ n e, of 3 8 None 5] by auto
qed

section \<open>The queues\<close>

text \<open>
  Workers polling at once get distinct jobs: no job is handed out twice by any sequence of
  leases without being given back in between, whatever clocks, identities and locked rows they have.
\<close>
theorem workers_get_distinct_jobs:
  assumes "store_ok db"
  shows "distinct (map j_id (fst (take_all lease_next ts db)))"
  using assms by (rule proving_queue.take_all_distinct)

theorem workers_get_distinct_jobs_witness:
  "distinct (map j_id (fst (take_all lease_next [([], ''a'', 5, 2), ([], ''b'', 5, 2)] queued_db)))"
  by (rule workers_get_distinct_jobs [OF sample_ok(1)])

text \<open>
  Two relayers never hold one proof: the jobs handed out for submission are distinct.
\<close>
theorem relayers_get_distinct_jobs:
  assumes "store_ok db"
  shows "distinct (map j_id (fst (take_all lease_next_proved ts db)))"
  using assms by (rule submit_queue.take_all_distinct)

theorem relayers_get_distinct_jobs_witness:
  "distinct (map j_id (fst (take_all lease_next_proved [([], ''a'', 5, 9), ([], ''b'', 5, 9)] proved_db)))"
  by (rule relayers_get_distinct_jobs [OF sample_ok(3)])

text \<open>
  The queue is fair and complete: a lease takes the oldest eligible job that is not locked,
  and finds nothing only when there is none.
\<close>
theorem lease_takes_the_oldest:
  assumes "store_ok db" and "\<And>r. r \<in> set (jobs_tbl db) \<Longrightarrow> j_attempts r < i32_max"
  shows "(lease_next locked w ttl now db = Inr (None, db) \<longleftrightarrow>
      (\<forall>r \<in> set (jobs_tbl db). \<not> leasable S_Queued locked now r)) \<and>
    (\<forall>j db' x. lease_next locked w ttl now db = Inr (Some j, db') \<and> x \<in> set (jobs_tbl db) \<and>
       leasable S_Queued locked now x \<longrightarrow> j_created_at j \<le> j_created_at x)"
  using proving_queue.take_none_iff [OF assms] proving_queue.take_oldest [OF assms(1)] by blast

theorem lease_takes_the_oldest_witness:
  "lease_next [7] ''w'' 5 9 queued_db = Inr (None, queued_db)"
proof -
  have js: "jobs_tbl queued_db = [sample_row]" by code_simp
  have "\<not> leasable S_Queued [7] 9 sample_row" "j_attempts sample_row = 0" by code_simp+
  then show ?thesis
    using lease_takes_the_oldest [OF sample_ok(1), of "[7]" "''w''" 5 9] js by auto
qed

section \<open>Keeping a lease\<close>

lemma renewal_is_the_holders':
  assumes "store_ok db"
  shows "\<exists>b db'. renew_lease jid w ttl now db = Inr (b, db') \<and>
    (b \<longleftrightarrow> (\<exists>r. find_job jid db = Some r \<and> j_leased_by r = Some w \<and> is_in_flight (j_state r))) \<and>
    (\<not> b \<longrightarrow> db' = db) \<and>
    (b \<longrightarrow> (\<exists>r. find_job jid db = Some r \<and>
       db' = replace_row (r\<lparr> j_lease_expires_at := Some (now + ttl), j_updated_at := now \<rparr>) db))"
proof (cases "\<exists>r. find_job jid db = Some r \<and> j_leased_by r = Some w \<and> is_in_flight (j_state r)")
  case True
  then obtain r where r: "find_job jid db = Some r" "j_leased_by r = Some w" "is_in_flight (j_state r)" by blast
  let ?r' = "r\<lparr> j_lease_expires_at := Some (now + ttl), j_updated_at := now \<rparr>"
  have "satisfies job_checks ?r'"
    using store_ok_row [OF assms r(1)] r(2) by (auto simp: row_ok_def satisfies_def job_checks_def)
  then have "update_job jid (\<lambda>x. x\<lparr> j_lease_expires_at := Some (now + ttl) \<rparr>) now db = Inr (?r', replace_row ?r' db)"
    using r(1) find_job_id [OF r(1)] by (simp add: update_job_ok replace_row_def)
  moreover have "holds_lease_state (j_state r)" using r(3) by (cases "j_state r") (simp_all add: holds_lease_state_def)
  ultimately have "renew_lease jid w ttl now db = Inr (True, replace_row ?r' db)"
    using r by (simp add: renew_lease_def)
  with r show ?thesis by blast
next
  case False
  then have "renew_lease jid w ttl now db = Inr (False, db)"
    by (auto simp: renew_lease_def holds_lease_state_def split: option.splits)
  with False show ?thesis by blast
qed

text \<open>
  Claim C22. A heartbeat extends a lease exactly for its holder: it succeeds when the job is in flight
  and held by this worker, then changes only the expiry and the time stamp of the row, and otherwise
  it changes nothing, so a lease that was lost cannot be taken back.
\<close>
theorem renewal_is_the_holders:
  assumes "store_ok db"
  shows "\<exists>b db'. renew_lease jid w ttl now db = Inr (b, db') \<and>
    (b \<longleftrightarrow> (\<exists>r. find_job jid db = Some r \<and> j_leased_by r = Some w \<and> is_in_flight (j_state r))) \<and>
    (\<not> b \<longrightarrow> db' = db) \<and>
    (b \<longrightarrow> (\<exists>r. find_job jid db = Some r \<and>
       db' = replace_row (r\<lparr> j_lease_expires_at := Some (now + ttl), j_updated_at := now \<rparr>) db))"
  using assms by (rule renewal_is_the_holders')

theorem renewal_is_the_holders_witness:
  "renew_lease 7 ''other'' 10 5 leased_db = Inr (False, leased_db)"
  using renewal_is_the_holders [OF sample_ok(2), of 7 "''other''" 10 5] by (auto simp: sample_rows(2))

lemma oldest_lease_age_held:
  "filter (\<lambda>r. j_state r \<in> {S_Leased, S_Proving}) (jobs_tbl db) = h \<Longrightarrow> h \<noteq> [] \<Longrightarrow>
   oldest_lease_age now db = Some (max (now - Min (set (map j_updated_at h))) 0)"
  by (cases h) (simp_all add: oldest_lease_age_def)

text \<open>
  The lease-age metric does not measure how long a lease is held: a heartbeat stamps
  \<open>updated_at\<close>, so right after it the age of the only lease is zero, however long ago it was taken.
\<close>
theorem heartbeat_resets_lease_age:
  assumes "store_ok db" and "renew_lease jid w ttl now db = Inr (True, db')"
    and "find_job jid db = Some r" and "j_state r \<in> {S_Leased, S_Proving}"
    and "\<And>x. x \<in> set (jobs_tbl db) \<Longrightarrow> j_state x \<in> {S_Leased, S_Proving} \<Longrightarrow> j_id x = jid"
  shows "oldest_lease_age now db' = Some 0"
proof -
  let ?r' = "r\<lparr> j_lease_expires_at := Some (now + ttl), j_updated_at := now \<rparr>"
  have db': "db' = replace_row ?r' db"
    using renewal_is_the_holders' [OF assms(1), of jid w ttl now] assms(2,3) by auto
  have f: "find_job (j_id ?r') db = Some r" using assms(3) find_job_id [OF assms(3)] by simp
  let ?held = "filter (\<lambda>x. j_state x \<in> {S_Leased, S_Proving}) (jobs_tbl db')"
  have jd: "j_id ?r' = jid" using find_job_id [OF assms(3)] by simp
  have "x \<in> set ?held \<longleftrightarrow> x = ?r'" for x
  proof
    assume "x \<in> set ?held"
    then have "x = ?r' \<or> x \<in> set (jobs_tbl db) \<and> j_id x \<noteq> jid" and "j_state x \<in> {S_Leased, S_Proving}"
      using replace_row_set [OF f] jd by (auto simp: db')
    then show "x = ?r'" using assms(5) by blast
  next
    assume "x = ?r'"
    then show "x \<in> set ?held" using replace_row_set [OF f] assms(4) by (simp add: db')
  qed
  then have held: "set ?held = {?r'}" by blast
  have "set (map j_updated_at ?held) = {now}" unfolding set_map held by simp
  moreover have "?held \<noteq> []" using held by (metis empty_set insert_not_empty)
  ultimately have "oldest_lease_age now db' = Some (max (now - Min {now}) 0)"
    using oldest_lease_age_held [OF refl, of db' now] by metis
  then show ?thesis by simp
qed

theorem heartbeat_resets_lease_age_witness:
  "oldest_lease_age 1000 leased_db = Some 998 \<and>
   (\<exists>db'. renew_lease 7 ''w'' 10 1000 leased_db = Inr (True, db') \<and> oldest_lease_age 1000 db' = Some 0)"
proof -
  have js: "jobs_tbl leased_db = [sample_row\<lparr> j_state := S_Leased, j_leased_by := Some ''w'',
     j_lease_expires_at := Some 12, j_attempts := 1, j_updated_at := 2 \<rparr>]" by code_simp
  have id7: "j_id sample_row = 7" by code_simp
  have "\<exists>db'. renew_lease 7 ''w'' 10 1000 leased_db = Inr (True, db')"
    using renewal_is_the_holders' [OF sample_ok(2), of 7 "''w''" 10 1000] sample_rows(2) by fastforce
  then obtain db' where r: "renew_lease 7 ''w'' 10 1000 leased_db = Inr (True, db')" by blast
  have "oldest_lease_age 1000 db' = Some 0"
    by (rule heartbeat_resets_lease_age [OF sample_ok(2) r sample_rows(2)]) (use js id7 in auto)
  moreover have "oldest_lease_age 1000 leased_db = Some 998" by (simp add: oldest_lease_age_def js)
  ultimately show ?thesis using r by blast
qed

section \<open>The reaper\<close>

text \<open>The columns of type \<open>INTEGER\<close> hold 32-bit values.\<close>

definition i32_columns :: "job_row \<Rightarrow> bool" where
  "i32_columns r \<longleftrightarrow>
     j_attempts r \<le> i32_max \<and> j_submission_attempts r \<le> i32_max \<and> j_max_attempts r \<le> i32_max"

text \<open>Every attempt started before now, so that closing it satisfies its constraint.\<close>

definition attempts_started :: "time \<Rightarrow> db \<Rightarrow> bool" where
  "attempts_started now db \<longleftrightarrow> (\<forall>a \<in> set (attempts_tbl db). a_started_at a \<le> now \<and> 0 < a_attempt_number a)"

text \<open>The budget an expired job is charged against, and where it goes.\<close>

definition budget_spent :: "job_row \<Rightarrow> bool" where
  "budget_spent r \<longleftrightarrow>
     j_max_attempts r \<le> (if j_state r = S_Submitting then j_submission_attempts r else j_attempts r)"

definition reaped_state :: "job_row \<Rightarrow> job_state" where
  "reaped_state r =
     (if budget_spent r then S_Failed else if j_state r = S_Submitting then S_Proved else S_Queued)"

lemma unsigned_from_le:
  assumes "0 \<le> n" and "n \<le> i32_max" and "0 < m" and "m \<le> i32_max"
  shows "unsigned_from 1 m \<le> unsigned_from 0 n \<longleftrightarrow> m \<le> n"
proof -
  have "uint (of_int k :: u32) = k" if "0 \<le> k" "k \<le> i32_max" for k
    using that by (simp add: unsigned_of_int take_bit_int_eq_self)
  moreover have "max m 1 = m" and "max n 0 = n" using assms by simp_all
  ultimately show ?thesis using assms by (simp add: unsigned_from_def word_le_def)
qed

lemma reap_event_reaches:
  assumes "satisfies job_checks r" and "i32_columns r" and "holds_lease_state (j_state r)"
  shows "transition (j_state r) (reap_event r) = Inr (reaped_state r)"
proof -
  have "0 \<le> j_attempts r" "0 \<le> j_submission_attempts r" "0 < j_max_attempts r"
    using assms(1) by (simp_all add: satisfies_def job_checks_def)
  then have "unsigned_from 1 (j_max_attempts r) \<le> unsigned_from 0 (j_attempts r) \<longleftrightarrow> j_max_attempts r \<le> j_attempts r"
    "unsigned_from 1 (j_max_attempts r) \<le> unsigned_from 0 (j_submission_attempts r)
      \<longleftrightarrow> j_max_attempts r \<le> j_submission_attempts r"
    using assms(2) unsigned_from_le by (auto simp: i32_columns_def)
  then show ?thesis
    using assms(3) by (auto simp: reap_event_def reaped_state_def budget_spent_def holds_lease_state_def Let_def)
qed

lemma reap_one_total:
  assumes r: "find_job (j_id r) db = Some r" and ok: "satisfies job_checks r" and "i32_columns r"
    and "holds_lease_state (j_state r)" and st: "attempts_started now db"
  shows "\<exists>db' r'. reap_one w now r db = Inr (j_id r, db') \<and> find_job (j_id r) db' = Some r' \<and>
    j_state r' = reaped_state r \<and> j_leased_by r' = None \<and> same_work r r' \<and> attempts_started now db' \<and>
    (\<forall>i. i \<noteq> j_id r \<longrightarrow> find_job i db' = find_job i db)"
proof -
  let ?d = "reap_detail (reaped_state r)"
  let ?r' = "r\<lparr> j_state := reaped_state r, j_leased_by := None, j_lease_expires_at := None,
      j_last_error := Some ?d, j_updated_at := now \<rparr>"
  let ?p = "\<lambda>a. a_job_id a = j_id r \<and> a_outcome a = None"
  let ?g = "\<lambda>a. a\<lparr> a_outcome := Some AbandonedAttempt, a_finished_at := Some now \<rparr>"
  have t: "transition (j_state r) (reap_event r) = Inr (reaped_state r)"
    using ok assms(3,4) by (rule reap_event_reaches)
  have "satisfies job_checks ?r'"
    using ok assms(4)
    by (auto simp: satisfies_def job_checks_def holds_lease_state_def reaped_state_def)
  then have up: "update_job (j_id r) (\<lambda>x. x\<lparr> j_state := reaped_state r, j_leased_by := None,
      j_lease_expires_at := None, j_last_error := Some ?d \<rparr>) now db = Inr (?r', replace_row ?r' db)"
    using r by (simp add: update_job_ok replace_row_def)
  have tbl: "attempts_tbl (replace_row ?r' db) = attempts_tbl db" by (simp add: replace_row_def)
  have "find (\<lambda>a. ?p a \<and> \<not> satisfies attempt_checks (?g a)) (attempts_tbl db) = None"
    using st by (auto simp: find_None_set attempts_started_def satisfies_def attempt_checks_def)
  then have at: "update_attempts ?p ?g (replace_row ?r' db)
      = Inr ((replace_row ?r' db)\<lparr> attempts_tbl := update_where ?p ?g (attempts_tbl db) \<rparr>)"
    by (simp add: update_attempts_def tbl)
  let ?db' = "insert_transition (j_id r) (j_state r) (reap_event r) (reaped_state r) (Some w) (Some ?d) now
      ((replace_row ?r' db)\<lparr> attempts_tbl := update_where ?p ?g (attempts_tbl db) \<rparr>)"
  have "reap_one w now r db = Inr (j_id r, ?db')"
    using t up at by (simp add: reap_one_def Let_def transition_or_def)
  moreover have "attempts_started now ?db'"
    using st by (auto simp: attempts_started_def insert_transition_def set_update_where)
  moreover have "find_job (j_id r) ?db' = Some ?r'" "\<forall>i. i \<noteq> j_id r \<longrightarrow> find_job i ?db' = find_job i db"
    using r by auto
  ultimately show ?thesis by (intro exI [of _ ?db'] exI [of _ ?r']) (simp add: same_work_def)
qed

lemma reap_rows_total:
  assumes "distinct (map j_id rs)" and "attempts_started now db"
    and "\<And>r. r \<in> set rs \<Longrightarrow> find_job (j_id r) db = Some r \<and> satisfies job_checks r \<and> i32_columns r \<and>
      holds_lease_state (j_state r)"
  shows "\<exists>db'. reap_rows w now rs db = Inr (map j_id rs, db') \<and>
    (\<forall>r \<in> set rs. \<exists>r'. find_job (j_id r) db' = Some r' \<and> j_state r' = reaped_state r \<and>
       j_leased_by r' = None \<and> same_work r r') \<and>
    (\<forall>i. i \<notin> j_id ` set rs \<longrightarrow> find_job i db' = find_job i db)"
  using assms
proof (induction rs arbitrary: db)
  case (Cons r rs)
  from reap_one_total [of r db now w] Cons.prems obtain db1 r1 where one: "reap_one w now r db = Inr (j_id r, db1)"
    and r1: "find_job (j_id r) db1 = Some r1" "j_state r1 = reaped_state r" "j_leased_by r1 = None" "same_work r r1"
    and st1: "attempts_started now db1" and other: "\<forall>i. i \<noteq> j_id r \<longrightarrow> find_job i db1 = find_job i db"
    by (metis list.set_intros(1))
  have hyp: "find_job (j_id x) db1 = Some x \<and> satisfies job_checks x \<and> i32_columns x \<and> holds_lease_state (j_state x)"
    if "x \<in> set rs" for x
  proof -
    have "j_id x \<noteq> j_id r" using that Cons.prems(1) by (auto simp: image_iff)
    then show ?thesis using that Cons.prems(3) [of x] other by simp
  qed
  have "distinct (map j_id rs)" using Cons.prems(1) by simp
  from Cons.IH [OF this st1 hyp] obtain db' where rest: "reap_rows w now rs db1 = Inr (map j_id rs, db')"
    and each: "\<forall>x \<in> set rs. \<exists>r'. find_job (j_id x) db' = Some r' \<and> j_state r' = reaped_state x \<and>
       j_leased_by r' = None \<and> same_work x r'"
    and kept: "\<forall>i. i \<notin> j_id ` set rs \<longrightarrow> find_job i db' = find_job i db1" by blast
  have "find_job (j_id r) db' = Some r1" using kept Cons.prems(1) r1(1) by simp
  with r1 each kept other one rest show ?case by auto
qed simp

text \<open>
  Claim C16. A dead worker's job comes back: the reaper always succeeds, reports exactly the expired
  leases and takes each of them from its holder, to \<open>queued\<close>, or to \<open>proved\<close> when it was being
  submitted, or to \<open>failed\<close> when the budget of the work it was doing is spent; every other job is
  left as it was.
\<close>
theorem reaper_recovers_expired_leases:
  assumes "store_ok db" and "\<And>r. r \<in> set (jobs_tbl db) \<Longrightarrow> i32_columns r" and "attempts_started now db"
  shows "\<exists>db'. reap_expired_leases locked w now db
      = Inr (map j_id (filter (expired locked now) (jobs_tbl db)), db') \<and>
    (\<forall>r \<in> set (jobs_tbl db).
       if expired locked now r
       then \<exists>r'. find_job (j_id r) db' = Some r' \<and> j_state r' = reaped_state r \<and> j_leased_by r' = None
       else find_job (j_id r) db' = Some r)"
proof -
  let ?rs = "filter (expired locked now) (jobs_tbl db)"
  note ids = store_ok_ids [OF assms(1)]
  have "\<exists>db'. reap_rows w now ?rs db = Inr (map j_id ?rs, db') \<and>
    (\<forall>r \<in> set ?rs. \<exists>r'. find_job (j_id r) db' = Some r' \<and> j_state r' = reaped_state r \<and>
       j_leased_by r' = None \<and> same_work r r') \<and>
    (\<forall>i. i \<notin> j_id ` set ?rs \<longrightarrow> find_job i db' = find_job i db)"
  proof (rule reap_rows_total)
    show "distinct (map j_id ?rs)" using ids by (rule distinct_map_filter)
    fix r assume r: "r \<in> set ?rs"
    then have f: "find_job (j_id r) db = Some r" using ids by (simp add: find_job_member)
    with r assms(2) store_ok_row [OF assms(1) f]
    show "find_job (j_id r) db = Some r \<and> satisfies job_checks r \<and> i32_columns r \<and> holds_lease_state (j_state r)"
      by (simp add: expired_def row_ok_def)
  qed (rule assms(3))
  then obtain db' where db': "reap_rows w now ?rs db = Inr (map j_id ?rs, db')"
    and each: "\<forall>r \<in> set ?rs. \<exists>r'. find_job (j_id r) db' = Some r' \<and> j_state r' = reaped_state r \<and>
       j_leased_by r' = None \<and> same_work r r'"
    and kept: "\<forall>i. i \<notin> j_id ` set ?rs \<longrightarrow> find_job i db' = find_job i db" by blast
  have "find_job (j_id r) db' = Some r" if "r \<in> set (jobs_tbl db)" "\<not> expired locked now r" for r
  proof -
    have f: "find_job (j_id r) db = Some r" using ids that(1) by (rule find_job_member)
    have "j_id r \<notin> j_id ` set ?rs" using that f find_job_member [OF ids] by force
    with kept f show ?thesis by simp
  qed
  with db' each show ?thesis by (auto simp: reap_expired_leases_def)
qed

theorem reaper_recovers_expired_leases_witness:
  "\<exists>db' r'. reap_expired_leases [] ''r'' 20 leased_db = Inr ([7], db') \<and>
     find_job 7 db' = Some r' \<and> j_state r' = S_Queued \<and> j_leased_by r' = None"
proof -
  let ?r = "sample_row\<lparr> j_state := S_Leased, j_leased_by := Some ''w'',
     j_lease_expires_at := Some 12, j_attempts := 1, j_updated_at := 2 \<rparr>"
  have js: "jobs_tbl leased_db = [?r]" by code_simp
  have e: "expired [] 20 ?r" "reaped_state ?r = S_Queued" "j_id sample_row = 7" "i32_columns ?r" by code_simp+
  have "attempts_started 20 leased_db" by code_simp
  from reaper_recovers_expired_leases [OF sample_ok(2) _ this, of "[]" "''r''"] js e
  show ?thesis by auto
qed

section \<open>What the operations do not check\<close>



text \<open>
  The history a client reads is the audit log as long as the time stamps of a job's
  entries are in the order they were written; the time stamp is the start of the transaction, which
  a transaction that waited for a row lock can have before the one it waited for.
\<close>
theorem transitions_are_the_log_in_clock_order:
  assumes "sorted (map t_occurred_at (filter (\<lambda>t. t_job_id t = jid) (transitions_tbl db)))"
  shows "transitions jid db = audit_log jid db"
  using assms by (simp add: transitions_def audit_log_def sort_key_id_if_sorted)

theorem transitions_are_the_log_in_clock_order_witness:
  "transitions 7 proved_db =
     [(S_Queued, E_Leased, S_Leased), (S_Leased, E_ProvingStarted, S_Proving),
      (S_Proving, E_ProofSucceeded, S_Proved)]"
proof -
  have "sorted (map t_occurred_at (filter (\<lambda>t. t_job_id t = 7) (transitions_tbl proved_db)))" by code_simp
  from transitions_are_the_log_in_clock_order [OF this]
  have "transitions 7 proved_db = audit_log 7 proved_db" .
  also have "\<dots> = [(S_Queued, E_Leased, S_Leased), (S_Leased, E_ProvingStarted, S_Proving),
      (S_Proving, E_ProofSucceeded, S_Proved)]" by code_simp
  finally show ?thesis .
qed

end
