(* ===== verification/Floats.thy ===== *)
theory Floats
  imports Complex_Main Dray_Prelude
begin

text \<open>
  64-bit floats as the program uses them: values that are not negative, far from overflow and above the
  subnormal numbers. A float is the rational it stands for; every arithmetic operation is the exact one
  rounded to 53 significant bits, ties to even, as IEEE 754 and Rust's \<open>f64\<close> do it.
\<close>

section \<open>Rounding\<close>

fun bit_length :: "nat \<Rightarrow> nat" where
  "bit_length n = (if n = 0 then 0 else Suc (bit_length (n div 2)))"

declare bit_length.simps [simp del]

definition round_half_even :: "rat \<Rightarrow> int" where
  "round_half_even x =
     (let n = \<lfloor>x\<rfloor>; r = x - of_int n in
      if r < 1 / 2 \<or> (r = 1 / 2 \<and> even n) then n else n + 1)"

definition binary_exponent :: "rat \<Rightarrow> int" where
  "binary_exponent x =
     (case quotient_of x of (p, q) \<Rightarrow>
        let e = int (bit_length (nat p)) - int (bit_length (nat q)) in
        if 2 powi e \<le> x then e else e - 1)"

definition f64 :: "rat \<Rightarrow> rat" where
  "f64 x =
     (if x \<le> 0 then 0
      else let e = binary_exponent x - 52 in of_int (round_half_even (x / 2 powi e)) * 2 powi e)"

section \<open>Errors\<close>

lemma round_half_even_error: "\<bar>of_int (round_half_even x) - x\<bar> \<le> 1 / 2"
proof -
  have "of_int \<lfloor>x\<rfloor> \<le> x" "x < of_int \<lfloor>x\<rfloor> + 1" by linarith+
  then show ?thesis by (auto simp: round_half_even_def Let_def abs_le_iff)
qed

lemma bit_length_bounds: "0 < n \<Longrightarrow> 2 ^ bit_length n \<le> 2 * n \<and> n < 2 ^ bit_length n"
proof (induction n rule: bit_length.induct)
  case (1 n)
  show ?case
  proof (cases "n = 1")
    case True
    then show ?thesis by (simp add: bit_length.simps [of "Suc 0"] bit_length.simps [of 0])
  next
    case False
    with 1 have "2 ^ bit_length (n div 2) \<le> 2 * (n div 2) \<and> n div 2 < 2 ^ bit_length (n div 2)" by simp
    then obtain k where k: "k = (2 :: nat) ^ bit_length (n div 2)" "k \<le> 2 * (n div 2)" "n div 2 < k" by simp
    then have "k \<le> n" "n < 2 * k" by linarith+
    then show ?thesis using k(1) 1(2) by (simp add: bit_length.simps [of n])
  qed
qed

lemma binary_exponent_le:
  assumes "0 < x"
  shows "2 powi binary_exponent x \<le> (x :: rat)"
proof -
  obtain p q where pq: "quotient_of x = (p, q)" by fastforce
  have q: "0 < q" and x: "x = of_int p / of_int q"
    using quotient_of_denom_pos [OF pq] quotient_of_div [OF pq] by simp_all
  then have p: "0 < p" using assms by (simp add: zero_less_divide_iff)
  let ?m = "bit_length (nat p)" and ?n = "bit_length (nat q)"
  have "2 ^ ?m \<le> 2 * nat p" using bit_length_bounds [of "nat p"] p by simp
  then have "int (2 ^ ?m) \<le> int (2 * nat p)" by (simp only: of_nat_le_iff)
  then have "2 ^ ?m \<le> 2 * p" using p by simp
  then have "of_int (2 ^ ?m) \<le> (of_int (2 * p) :: rat)" by (simp only: of_int_le_iff)
  then have m: "(2 :: rat) ^ ?m \<le> 2 * of_int p" by simp
  have "nat q < 2 ^ ?n" using bit_length_bounds [of "nat q"] q by simp
  then have "int (nat q) \<le> int (2 ^ ?n)" by (simp only: of_nat_le_iff)
  then have "of_int q \<le> (of_int (2 ^ ?n) :: rat)" using q by (simp only: of_int_le_iff) simp
  then have n: "of_int q \<le> (2 :: rat) ^ ?n" by simp
  have "2 powi (int ?m - int ?n - 1) = (2 :: rat) ^ ?m / 2 / 2 ^ ?n"
    by (simp add: power_int_diff)
  also have "\<dots> \<le> of_int p / 2 ^ ?n" using m by (intro divide_right_mono) simp_all
  also have "\<dots> \<le> x" unfolding x using p q n by (intro divide_left_mono) simp_all
  finally show ?thesis using pq by (simp add: binary_exponent_def Let_def)
qed

text \<open>The relative error of one rounding: half a unit in the last of 53 places.\<close>

definition ulp :: rat where "ulp = 1 / 2 ^ 53"

lemma f64_error:
  assumes "0 \<le> x"
  shows "\<bar>f64 x - x\<bar> \<le> x * ulp"
proof (cases "x = 0")
  case True
  then show ?thesis by (simp add: f64_def)
next
  case False
  with assms have x: "0 < x" by simp
  define e where "e = binary_exponent x - 52"
  have e: "(0 :: rat) < 2 powi e" by (simp add: zero_less_power_int)
  have *: "f64 x = of_int (round_half_even (x / 2 powi e)) * 2 powi e"
    using x by (simp add: f64_def Let_def e_def)
  have "f64 x - x = (of_int (round_half_even (x / 2 powi e)) - x / 2 powi e) * 2 powi e"
    unfolding * using e by (simp add: algebra_simps)
  then have "\<bar>f64 x - x\<bar> = \<bar>of_int (round_half_even (x / 2 powi e)) - x / 2 powi e\<bar> * 2 powi e"
    using e by (simp add: abs_mult)
  also have "\<dots> \<le> 1 / 2 * 2 powi e"
    using round_half_even_error e by (intro mult_right_mono) simp_all
  also have "\<dots> = 2 powi binary_exponent x * ulp"
    by (simp add: e_def power_int_diff ulp_def)
  also have "\<dots> \<le> x * ulp" using binary_exponent_le [OF x] by (intro mult_right_mono) (simp_all add: ulp_def)
  finally show ?thesis .
qed

lemma f64_nonneg: "0 \<le> f64 x"
proof (cases "0 < x")
  case True
  then have "\<bar>f64 x - x\<bar> \<le> x * ulp" by (simp add: f64_error)
  moreover have "x * ulp \<le> x" using True by (simp add: ulp_def)
  ultimately show ?thesis by linarith
qed (simp add: f64_def)

lemma f64_between:
  assumes "0 \<le> l" and "l \<le> x" and "x \<le> u"
  shows "l * (1 - ulp) \<le> f64 x" and "f64 x \<le> u * (1 + ulp)"
proof -
  have u: "0 \<le> ulp" "ulp \<le> 1" by (simp_all add: ulp_def)
  have "\<bar>f64 x - x\<bar> \<le> x * ulp" using assms by (simp add: f64_error)
  then have "x * (1 - ulp) \<le> f64 x" "f64 x \<le> x * (1 + ulp)" by (simp_all add: algebra_simps abs_le_iff)
  moreover have "l * (1 - ulp) \<le> x * (1 - ulp)" "x * (1 + ulp) \<le> u * (1 + ulp)"
    using assms u by (simp_all add: mult_right_mono)
  ultimately show "l * (1 - ulp) \<le> f64 x" "f64 x \<le> u * (1 + ulp)" by linarith+
qed

end
