(* ===== verification/Backoff.thy ===== *)
theory Backoff
  imports Floats
begin

text \<open>
  The retry schedule of \<open>crates/dray-worker/src/backoff.rs\<close>. A \<open>Duration\<close> is its nanoseconds. The
  jitter is a float, \<open>None\<close> for NaN, and the arithmetic on it is that of 64-bit floats (theory
  \<open>Floats\<close>), the conversions of \<open>Duration\<close> to seconds and back included. The draw is an argument of
  the schedule in the source too; its generator (SplitMix64) is \<open>splitmix_next\<close>.
\<close>

section \<open>The schedule\<close>

type_synonym duration = nat

abbreviation seconds :: "nat \<Rightarrow> duration" where "seconds n \<equiv> n * 10 ^ 9"

definition DURATION_MAX :: duration where
  "DURATION_MAX = (2 ^ 64 - 1) * 10 ^ 9 + 999999999"

definition duration_saturating_mul :: "duration \<Rightarrow> u32 \<Rightarrow> duration" where
  "duration_saturating_mul d n = min (d * unat n) DURATION_MAX"

record backoff =
  b_base :: duration
  b_max :: duration

definition default_backoff :: backoff where
  "default_backoff = \<lparr> b_base = seconds 1, b_max = seconds 60 \<rparr>"

text \<open>\<open>1_u32.checked_shl(n).unwrap_or(u32::MAX)\<close>: \<open>None\<close> from the width of the word on.\<close>

definition shl_one :: "u32 \<Rightarrow> u32" where
  "shl_one n = (if unat n < 32 then push_bit (unat n) 1 else - 1)"

definition clamp_draw :: "rat option \<Rightarrow> rat" where
  "clamp_draw jitter = (case jitter of None \<Rightarrow> 0 | Some j \<Rightarrow> max 0 (min 1 j))"

definition capped_delay :: "backoff \<Rightarrow> u32 \<Rightarrow> duration" where
  "capped_delay self attempt =
     (let attempt = max attempt 1; doublings = attempt - 1;
          scaled = duration_saturating_mul (b_base self) (shl_one doublings)
      in min scaled (b_max self))"

text \<open>
  \<open>Duration::as_secs_f64\<close>, and \<open>Duration::from_secs_f64\<close>: to the nearest nanosecond, ties to even, and
  \<open>None\<close> for the panic on a value that does not fit. \<open>mul_f64\<close> goes through both.
\<close>

definition as_secs_f64 :: "duration \<Rightarrow> rat" where
  "as_secs_f64 d = f64 (f64 (of_nat (d div 10 ^ 9)) + f64 (of_nat (d mod 10 ^ 9) / 10 ^ 9))"

definition from_secs_f64 :: "rat \<Rightarrow> duration option" where
  "from_secs_f64 x = (if 2 ^ 64 \<le> x then None else Some (nat (round_half_even (x * 10 ^ 9))))"

definition mul_f64 :: "duration \<Rightarrow> rat \<Rightarrow> duration option" where
  "mul_f64 d f = from_secs_f64 (f64 (f * as_secs_f64 d))"

definition delay_or_panic :: "backoff \<Rightarrow> u32 \<Rightarrow> rat option \<Rightarrow> duration option" where
  "delay_or_panic self attempt jitter =
     (let factor = f64 (1 / 2 + f64 (clamp_draw jitter / 2)) in mul_f64 (capped_delay self attempt) factor)"

text \<open>
  The delay where it is returned, which is with every ceiling a service can be given, a count of
  seconds below two to the 63. The value for the panic is never used.
\<close>

definition delay :: "backoff \<Rightarrow> u32 \<Rightarrow> rat option \<Rightarrow> duration" where
  "delay self attempt jitter = (case delay_or_panic self attempt jitter of Some d \<Rightarrow> d | None \<Rightarrow> 0)"

section \<open>The generator\<close>

definition splitmix_next :: "u64 \<Rightarrow> u64 \<times> u64" where
  "splitmix_next state =
     (let z = state + 0x9e3779b97f4a7c15;
          a = (xor z (drop_bit 30 z)) * 0xbf58476d1ce4e5b9;
          b = (xor a (drop_bit 27 a)) * 0x94d049bb133111eb;
          c = xor b (drop_bit 31 b)
      in (z, c))"

definition random_unit :: "u64 \<Rightarrow> u64 \<times> rat" where
  "random_unit state =
     (case splitmix_next state of (state', z) \<Rightarrow>
        (state', of_nat (unat (drop_bit 11 z)) / 2 ^ 53))"

definition delay_random :: "backoff \<Rightarrow> u32 \<Rightarrow> u64 \<Rightarrow> u64 \<times> duration" where
  "delay_random self attempt state =
     (case random_unit state of (state', j) \<Rightarrow> (state', delay self attempt (Some j)))"

section \<open>Facts\<close>

lemma clamp_draw_range: "0 \<le> clamp_draw j \<and> clamp_draw j \<le> 1"
  by (auto simp: clamp_draw_def split: option.splits)

lemma as_secs_bounds:
  "of_nat d / 10 ^ 9 * (1 - ulp) ^ 2 \<le> as_secs_f64 d" "as_secs_f64 d \<le> of_nat d / 10 ^ 9 * (1 + ulp) ^ 2"
proof -
  define s r :: rat where "s = of_nat (d div 10 ^ 9)" and "r = of_nat (d mod 10 ^ 9) / 10 ^ 9"
  have pos: "0 \<le> s" "0 \<le> r" "ulp \<le> 1" by (simp_all add: s_def r_def ulp_def)
  have "(of_nat d :: rat) = of_nat (d div k) * of_nat k + of_nat (d mod k)" for k
    by (metis div_mult_mod_eq of_nat_add of_nat_mult)
  from this [of "10 ^ 9"] have d: "of_nat d / 10 ^ 9 = s + r" by (simp add: s_def r_def)
  have "(s + r) * (1 - ulp) \<le> f64 s + f64 r" "f64 s + f64 r \<le> (s + r) * (1 + ulp)"
    using f64_between [of s s s] f64_between [of r r r] pos by (simp_all add: algebra_simps)
  moreover have "0 \<le> (s + r) * (1 - ulp)" using pos by simp
  ultimately have "(s + r) * (1 - ulp) * (1 - ulp) \<le> as_secs_f64 d"
    "as_secs_f64 d \<le> (s + r) * (1 + ulp) * (1 + ulp)"
    unfolding as_secs_f64_def s_def [symmetric] r_def [symmetric] by (blast intro: f64_between)+
  then show "of_nat d / 10 ^ 9 * (1 - ulp) ^ 2 \<le> as_secs_f64 d"
    "as_secs_f64 d \<le> of_nat d / 10 ^ 9 * (1 + ulp) ^ 2"
    unfolding d by (simp_all add: power2_eq_square mult.assoc)
qed

lemma factor_bounds:
  defines "f \<equiv> \<lambda>j. f64 (1 / 2 + f64 (clamp_draw j / 2))"
  shows "1 / 2 * (1 - ulp) \<le> f j" and "f j \<le> (1 + ulp) ^ 2"
proof -
  have "0 \<le> f64 (clamp_draw j / 2)" "f64 (clamp_draw j / 2) \<le> 1 / 2 * (1 + ulp)"
    using f64_between [of 0 "clamp_draw j / 2" "1 / 2"] clamp_draw_range [of j] by simp_all
  then have "1 / 2 \<le> 1 / 2 + f64 (clamp_draw j / 2)" "1 / 2 + f64 (clamp_draw j / 2) \<le> 1 + ulp"
    by (simp_all add: ulp_def)
  then show "1 / 2 * (1 - ulp) \<le> f j" "f j \<le> (1 + ulp) ^ 2"
    using f64_between [of "1 / 2" "1 / 2 + f64 (clamp_draw j / 2)" "1 + ulp"]
    by (simp_all add: f_def power2_eq_square)
qed

text \<open>The four roundings together stay below one part in two to the 50.\<close>

lemma product_bounds:
  assumes "1 / 2 * (1 - ulp) \<le> f" and "f \<le> (1 + ulp) ^ 2"
  shows "of_nat d / 10 ^ 9 / 2 * (1 - 1 / 2 ^ 50) \<le> f64 (f * as_secs_f64 d)"
    and "f64 (f * as_secs_f64 d) \<le> of_nat d / 10 ^ 9 * (1 + 1 / 2 ^ 50)"
proof -
  define x :: rat where "x = of_nat d / 10 ^ 9"
  have x: "0 \<le> x" and u: "0 \<le> 1 - ulp" "0 \<le> 1 / 2 * (1 - ulp)" by (simp_all add: x_def ulp_def)
  note s = as_secs_bounds [of d, folded x_def]
  have s0: "0 \<le> as_secs_f64 d" by (simp add: as_secs_f64_def f64_nonneg)
  have lo: "1 / 2 * (1 - ulp) * (x * (1 - ulp) ^ 2) \<le> f * as_secs_f64 d"
    using assms(1) s(1) u x s0 by (intro mult_mono) simp_all
  have hi: "f * as_secs_f64 d \<le> (1 + ulp) ^ 2 * (x * (1 + ulp) ^ 2)"
    using assms(2) s(2) s0 by (intro mult_mono) simp_all
  have "0 \<le> 1 / 2 * (1 - ulp) * (x * (1 - ulp) ^ 2)" using u x by simp
  note f = f64_between [OF this lo hi]
  have "x / 2 * (1 - 1 / 2 ^ 50) \<le> x / 2 * (1 - ulp) ^ 4"
    using x by (intro mult_left_mono) (simp_all add: ulp_def field_simps)
  also have "\<dots> = 1 / 2 * (1 - ulp) * (x * (1 - ulp) ^ 2) * (1 - ulp)" by (simp add: power_def)
  finally show "of_nat d / 10 ^ 9 / 2 * (1 - 1 / 2 ^ 50) \<le> f64 (f * as_secs_f64 d)"
    using f(1) unfolding x_def by linarith
  have "(1 + ulp) ^ 2 * (x * (1 + ulp) ^ 2) * (1 + ulp) = x * (1 + ulp) ^ 5" by (simp add: power_def)
  also have "\<dots> \<le> x * (1 + 1 / 2 ^ 50)"
    using x by (intro mult_left_mono) (simp_all add: ulp_def field_simps)
  finally show "f64 (f * as_secs_f64 d) \<le> of_nat d / 10 ^ 9 * (1 + 1 / 2 ^ 50)"
    using f(2) unfolding x_def by linarith
qed

text \<open>What is left after rounding to a nanosecond.\<close>

lemma nearest_nanosecond:
  fixes x :: rat
  assumes "of_nat c / 2 * (1 - 1 / 2 ^ 50) \<le> x" and "x \<le> of_nat c * (1 + 1 / 2 ^ 50)"
  defines "d \<equiv> nat (round_half_even x)"
  shows "d \<le> c + 1 + c div 2 ^ 50" and "c \<le> 2 * d + 1 + c div 2 ^ 50"
    and "c < 2 ^ 49 \<Longrightarrow> d \<le> c" and "c < 2 ^ 49 \<Longrightarrow> c \<le> 2 * d + 1"
proof -
  define e :: rat where "e = of_nat c / 2 ^ 50"
  have "c < (c div 2 ^ 50 + 1) * 2 ^ 50" by (simp add: dividend_less_div_times)
  then have "(of_nat c :: rat) < of_nat ((c div 2 ^ 50 + 1) * 2 ^ 50)" by (simp only: of_nat_less_iff)
  then have e1: "e < of_nat (c div 2 ^ 50) + 1" by (simp add: e_def field_simps)
  have e2: "e < 1 / 2" if "c < 2 ^ 49"
  proof -
    from that have "(of_nat c :: rat) < of_nat (2 ^ 49)" by (simp only: of_nat_less_iff)
    then show ?thesis by (simp add: e_def)
  qed
  have x: "of_nat c / 2 - e / 2 \<le> x" "x \<le> of_nat c + e"
    using assms(1,2) by (simp_all add: e_def field_simps)
  have e0: "0 \<le> e" "e \<le> of_nat c" by (simp_all add: e_def field_simps)
  have r: "x - 1 / 2 \<le> of_int (round_half_even x)" "of_int (round_half_even x) \<le> x + 1 / 2"
    using round_half_even_error [of x] by linarith+
  have "0 \<le> x" using x(1) e0 by linarith
  then have "- 1 < (of_int (round_half_even x) :: rat)" using r(1) by linarith
  then have "0 \<le> round_half_even x" by linarith
  then have "of_nat d = (of_int (round_half_even x) :: rat)" by (simp add: d_def)
  with r x have d: "of_nat d \<le> of_nat c + e + 1 / 2" "of_nat c - e - 1 \<le> 2 * (of_nat d :: rat)" by linarith+
  have "(of_nat d :: rat) < of_nat (c + 2 + c div 2 ^ 50)" using d(1) e1 by simp
  then show "d \<le> c + 1 + c div 2 ^ 50" by (simp only: of_nat_less_iff)
  have "(of_nat c :: rat) < of_nat (2 * d + 2 + c div 2 ^ 50)" using d(2) e1 by simp
  then show "c \<le> 2 * d + 1 + c div 2 ^ 50" by (simp only: of_nat_less_iff)
  show "d \<le> c" if "c < 2 ^ 49"
  proof -
    have "(of_nat d :: rat) < of_nat (c + 1)" using d(1) e2 [OF that] by simp
    then show ?thesis by (simp only: of_nat_less_iff)
  qed
  show "c \<le> 2 * d + 1" if "c < 2 ^ 49"
  proof -
    have "(of_nat c :: rat) < of_nat (2 * d + 2)" using d(2) e2 [OF that] by simp
    then show ?thesis by (simp only: of_nat_less_iff)
  qed
qed

lemma shl_one_unat: "unat (shl_one n) = (if unat n < 32 then 2 ^ unat n else u32_max)"
proof (cases "unat n < 32")
  case True
  then have "(2 :: nat) ^ unat n < 2 ^ 32" by (intro power_strict_increasing) simp_all
  then have "unat (push_bit (unat n) (1 :: u32)) = 2 ^ unat n"
    using True by (subst unsigned_push_bit_eq) (simp add: push_bit_eq_mult take_bit_nat_eq_self)
  with True show ?thesis by (simp add: shl_one_def)
next
  case False
  then show ?thesis using unat_max_value [where 'a = 32] by (simp add: shl_one_def)
qed

lemma shl_one_mono: "unat m \<le> unat n \<Longrightarrow> unat (shl_one m) \<le> unat (shl_one n)"
proof -
  assume le: "unat m \<le> unat n"
  have "(2 :: nat) ^ unat m \<le> 2 ^ 31" if "unat m < 32"
    using that by (intro power_increasing) simp_all
  then show ?thesis
    using le by (auto simp: shl_one_unat intro: power_increasing)
qed

section \<open>Properties\<close>

text \<open>
  Claim C34. With a ceiling below two to the 63 seconds, which is every ceiling a service can be given,
  the delay is returned (\<open>mul_f64\<close> does not panic) whatever the draw, NaN, infinities and draws outside
  the unit interval included. Up to six days it lies between half of the capped exponential delay and all
  of it, half rounded down to a nanosecond, and never exceeds the ceiling; beyond, the roundings of the
  floats add at most one nanosecond and one part in two to the 50.
\<close>
theorem delay_within_half_of_capped:
  assumes "b_max b < seconds (2 ^ 63)"
  shows "delay_or_panic b n j = Some (delay b n j) \<and>
    (capped_delay b n < 2 ^ 49 \<longrightarrow>
       capped_delay b n \<le> 2 * delay b n j + 1 \<and> delay b n j \<le> capped_delay b n \<and> delay b n j \<le> b_max b) \<and>
    delay b n j \<le> capped_delay b n + 1 + capped_delay b n div 2 ^ 50 \<and>
    capped_delay b n \<le> 2 * delay b n j + 1 + capped_delay b n div 2 ^ 50"
proof -
  define c where "c = capped_delay b n"
  define y where "y = f64 (f64 (1 / 2 + f64 (clamp_draw j / 2)) * as_secs_f64 c)"
  have le: "c \<le> b_max b" by (simp add: c_def capped_delay_def Let_def)
  with assms have "(of_nat c :: rat) < of_nat (seconds (2 ^ 63))" by (simp only: of_nat_less_iff)
  then have "(of_nat c / 10 ^ 9 :: rat) < 2 ^ 63" by simp
  moreover note y = product_bounds [OF factor_bounds (1) [of j] factor_bounds (2) [of j], of c, folded y_def]
  ultimately have "y < 2 ^ 64" by simp
  then have d: "delay_or_panic b n j = Some (nat (round_half_even (y * 10 ^ 9)))"
    by (simp add: delay_or_panic_def mul_f64_def from_secs_f64_def Let_def y_def c_def)
  have "of_nat c / 2 * (1 - 1 / 2 ^ 50) \<le> y * 10 ^ 9" "y * 10 ^ 9 \<le> of_nat c * (1 + 1 / 2 ^ 50)"
    using y by (simp_all add: field_simps)
  note nearest_nanosecond [OF this]
  with d le show ?thesis by (auto simp: delay_def c_def)
qed

theorem delay_within_half_of_capped_witness:
  "delay_or_panic default_backoff 7 None = Some (delay default_backoff 7 None)"
  using delay_within_half_of_capped [of default_backoff 7 None] by (simp add: default_backoff_def)

text \<open>
  The schedule never folds back: more attempts never wait less before the jitter, however
  far the count runs past the width of the shift.
\<close>
theorem schedule_is_monotone:
  assumes "m \<le> n"
  shows "capped_delay b m \<le> capped_delay b n"
proof -
  have one: "unat (1 :: u32) = 1" by simp
  have "unat (max k 1 - 1) = unat k - 1" for k :: u32
    by (auto simp: max_def unat_sub_if' word_le_nat_alt)
  then have "unat (max m 1 - 1) \<le> unat (max n 1 - 1)"
    using assms by (simp add: word_le_nat_alt diff_le_mono)
  then have "unat (shl_one (max m 1 - 1)) \<le> unat (shl_one (max n 1 - 1))" by (rule shl_one_mono)
  then show ?thesis
    unfolding capped_delay_def duration_saturating_mul_def Let_def
    by (intro min.mono mult_le_mono2) simp_all
qed

theorem schedule_is_monotone_witness:
  "capped_delay default_backoff 7 \<le> capped_delay default_backoff 64"
  by (rule schedule_is_monotone) simp

lemma random_unit_range: "0 \<le> snd (random_unit s) \<and> snd (random_unit s) < 1"
proof -
  have "unat (drop_bit 11 z) < 2 ^ 53" for z :: u64
  proof -
    have "unat z < 2 ^ 64" using unsigned_less [of z, where ?'a = nat] by simp
    then show ?thesis by (simp add: drop_bit_eq_div unat_div_word less_mult_imp_div_less)
  qed
  then have "(of_nat (unat (drop_bit 11 z)) :: rat) < 2 ^ 53" for z :: u64
    by (metis of_nat_less_iff of_nat_numeral of_nat_power)
  moreover have "0 \<le> (of_nat (unat (drop_bit 11 z)) :: rat)" for z :: u64 by (rule of_nat_0_le_iff)
  ultimately show ?thesis by (auto simp: random_unit_def split: prod.splits)
qed

end
