(* ===== verification/Service.thy ===== *)
theory Service
  imports Backoff Store_Invariants
begin

text \<open>
  How a service calls the store: what the two loops, the worker's and the relayer's, share, and what
  an event does to the row of its job.
\<close>

text \<open>The microseconds \<open>make_interval\<close> makes of a \<open>Duration\<close>.\<close>

definition interval_of :: "duration \<Rightarrow> interval" where
  "interval_of d = int ((d + 500) div 1000)"

text \<open>
  What one call sequence to the store sees: the database clock, whether a read and the write that
  follows reach the database, and the jitter drawn for a retry.
\<close>

record store_obs =
  o_now :: time
  o_read_up :: bool
  o_up :: bool
  o_jitter :: "rat option"

text \<open>A call to the store: \<open>None\<close> is its \<open>Err\<close>, after which the tables are as before.\<close>

definition store_call :: "bool \<Rightarrow> db \<Rightarrow> store_error + 'a \<times> db \<Rightarrow> 'a option \<times> db" where
  "store_call up db res =
     (if up then (case res of Inl _ \<Rightarrow> (None, db) | Inr (x, db') \<Rightarrow> (Some x, db')) else (None, db))"

section \<open>Calls to the store\<close>

lemma store_call_cases:
  assumes "store_call up db res = (x, db')"
  shows "(x = None \<and> db' = db) \<or> (\<exists>y. x = Some y \<and> up \<and> res = Inr (y, db'))"
  using assms by (auto simp: store_call_def split: if_splits sum.splits)

lemma logged_row:
  assumes "find_job jid db = Some r" and "j_id r' = jid"
    and "db' = insert_transition jid s ev s' ac d now
      (db\<lparr> jobs_tbl := update_where (\<lambda>x. j_id x = jid) (\<lambda>_. r') (jobs_tbl db) \<rparr>)"
  shows "find_job i db' = (if i = jid then Some r' else find_job i db) \<and>
    settlements_tbl db' = settlements_tbl db"
  unfolding assms(3) using find_job_update [OF assms(1,2)] by (simp add: insert_transition_def)

lemma update_job_row:
  assumes "update_job jid f now db = Inr (r', db1)" and "\<And>r. j_id (f r) = j_id r"
  shows "\<exists>r. find_job jid db = Some r \<and> r' = (f r)\<lparr> j_updated_at := now \<rparr> \<and>
    (\<forall>i. find_job i db1 = (if i = jid then Some r' else find_job i db))"
proof -
  from assms(1) obtain r where r: "find_job jid db = Some r" "r' = (f r)\<lparr> j_updated_at := now \<rparr>"
    and db1: "db1 = db\<lparr> jobs_tbl := update_where (\<lambda>x. j_id x = jid) (\<lambda>_. r') (jobs_tbl db) \<rparr>"
    by (auto simp: res_iff)
  have "j_id r' = jid" using find_job_id [OF r(1)] assms(2) by (simp add: r(2))
  then show ?thesis using r db1 find_job_update [OF r(1)] by auto
qed

lemma apply_event_result:
  assumes "apply_event_in_tx jid ev ac d now db = Inr (j, db')"
  shows "\<exists>r r'. find_job jid db = Some r \<and> transition (j_state r) ev = Inr (j_state r') \<and>
    find_job jid db' = Some r' \<and> j_proof r' = j_proof r \<and> j_public_inputs r' = j_public_inputs r \<and>
    settlements_tbl db' = settlements_tbl db \<and> (\<forall>i. i \<noteq> jid \<longrightarrow> find_job i db' = find_job i db)"
proof -
  from assms obtain r nxt where r: "find_job jid db = Some r" and t: "transition (j_state r) ev = Inr nxt"
    by (auto simp: apply_event_in_tx_def Let_def res_iff)
  let ?r' = "r\<lparr> j_state := nxt, j_leased_by := (if is_in_flight nxt then j_leased_by r else None),
      j_lease_expires_at := (if is_in_flight nxt then j_lease_expires_at r else None),
      j_last_error := (case d of Some d \<Rightarrow> Some d | None \<Rightarrow> j_last_error r), j_updated_at := now \<rparr>"
  have db': "db' = insert_transition jid (j_state r) ev nxt ac d now
      (db\<lparr> jobs_tbl := update_where (\<lambda>x. j_id x = jid) (\<lambda>_. ?r') (jobs_tbl db) \<rparr>)"
    using assms r t by (auto simp: apply_event_in_tx_def Let_def res_iff)
  have "j_id ?r' = jid" using find_job_id [OF r] by simp
  from logged_row [OF r this db'] have "find_job i db' = (if i = jid then Some ?r' else find_job i db)"
    and "settlements_tbl db' = settlements_tbl db" for i by blast+
  then show ?thesis using r t by (intro exI [of _ r] exI [of _ ?r']) simp
qed

end
