(* ===== verification/Relayer.thy ===== *)
theory Relayer
  imports Chain Service
begin

text \<open>
  The submission loop of \<open>crates/dray-relayer/src/relayer.rs\<close>. Everything a step learns from outside,
  the answers of the node, whether the database was reachable, the clocks and the jitter, is in an
  observation record; the tables and the nonce are passed through. \<open>settle\<close> ends with an outcome or
  hands over to the tracker, whose loop is \<open>track\<close> over a list of observations, one per poll: it
  returns \<open>None\<close> when the polls ran out before an outcome, since the loop of the source has no bound.
\<close>

section \<open>Configuration and outcomes\<close>

record relayer_config =
  rl_id :: string
  rl_confirmations :: u64
  rl_stuck_after :: duration
  rl_reorg_watch_window :: duration
  rl_lease_ttl :: duration
  rl_heartbeat_interval :: duration
  rl_poll_interval :: duration
  rl_confirm_poll_interval :: duration
  rl_reap_interval :: duration
  rl_shutdown_grace :: duration
  rl_gas :: gas_policy
  rl_backoff :: backoff

definition new_relayer_config :: "string \<Rightarrow> relayer_config" where
  "new_relayer_config relayer_id =
     \<lparr> rl_id = relayer_id, rl_confirmations = 5, rl_stuck_after = seconds 30,
       rl_reorg_watch_window = seconds 600, rl_lease_ttl = seconds 300,
       rl_heartbeat_interval = seconds 30, rl_poll_interval = 500 * 10 ^ 6,
       rl_confirm_poll_interval = seconds 2, rl_reap_interval = seconds 30,
       rl_shutdown_grace = seconds 60, rl_gas = default_gas_policy, rl_backoff = default_backoff \<rparr>"

datatype settle_outcome =
    Settled uuid
  | SettledBefore uuid
  | SettleFailed uuid failure_kind "duration option"
  | LeaseLost uuid
  | Abandoned uuid

fun outcome_job_id :: "settle_outcome \<Rightarrow> uuid" where
  "outcome_job_id (Settled i) = i"
| "outcome_job_id (SettledBefore i) = i"
| "outcome_job_id (SettleFailed i _ _) = i"
| "outcome_job_id (LeaseLost i) = i"
| "outcome_job_id (Abandoned i) = i"

fun outcome_metric_label :: "settle_outcome \<Rightarrow> string" where
  "outcome_metric_label (Settled _) = ''settled''"
| "outcome_metric_label (SettledBefore _) = ''already_settled''"
| "outcome_metric_label (SettleFailed _ _ _) = ''failed''"
| "outcome_metric_label (LeaseLost _) = ''lease_lost''"
| "outcome_metric_label (Abandoned _) = ''abandoned''"

definition DEFAULT_GAS_LIMIT :: u64 where
  "DEFAULT_GAS_LIMIT = 6000000"

record replaceable =
  rp_nonce :: u64
  rp_circuit :: b256
  rp_proof :: bytes
  rp_public_inputs :: "b256 list"
  rp_gas_limit :: u64

datatype confirmation = C_Settled | C_Waiting | C_Orphaned | C_Failed

definition to_b256 :: "bytes \<Rightarrow> b256 option" where
  "to_b256 bs = (if length bs = 32 then Some bs else None)"

section \<open>Recording how it ended\<close>

definition mark_settled_outcome ::
  "relayer_config \<Rightarrow> 'z store_obs_scheme \<Rightarrow> uuid \<Rightarrow> db \<Rightarrow> settle_outcome \<times> db" where
  "mark_settled_outcome cfg ob jid db =
     (case store_call (o_up ob) db (mark_settled_elsewhere jid (rl_id cfg)
             ''the nullifier was already consumed on chain'' (o_now ob) db) of
        (Some _, db') \<Rightarrow> (SettledBefore jid, db')
      | (None, db') \<Rightarrow> (LeaseLost jid, db'))"

definition retry_attempt :: "'z store_obs_scheme \<Rightarrow> uuid \<Rightarrow> db \<Rightarrow> u32" where
  "retry_attempt ob jid db =
     (case (if o_read_up ob then job_by_id jid db else None) of
        None \<Rightarrow> 1
      | Some j \<Rightarrow> of_int (max (j_submission_attempts j) 1))"

definition record_failure_outcome ::
  "relayer_config \<Rightarrow> 'z store_obs_scheme \<Rightarrow> uuid \<Rightarrow> submission_failure \<Rightarrow> db \<Rightarrow> settle_outcome \<times> db"
where
  "record_failure_outcome cfg ob jid failure db =
     (case failure_kind_of failure of
        None \<Rightarrow> mark_settled_outcome cfg ob jid db
      | Some kind \<Rightarrow>
          let retry_in = (case kind of
                Permanent \<Rightarrow> None
              | Transient \<Rightarrow> Some (delay (rl_backoff cfg) (retry_attempt ob jid db) (o_jitter ob)))
          in (case store_call (o_up ob) db (record_submission_failure jid (rl_id cfg) kind
                     (failure_text failure) (map_option interval_of retry_in) (o_now ob) db) of
                (None, db') \<Rightarrow> (LeaseLost jid, db')
              | (Some _, db') \<Rightarrow> (SettleFailed jid kind retry_in, db')))"

text \<open>An error of the chain, classified, with the case the source checks for first.\<close>

definition record_chain_failure ::
  "relayer_config \<Rightarrow> 'z store_obs_scheme \<Rightarrow> uuid \<Rightarrow> submission_failure \<Rightarrow> db \<Rightarrow> settle_outcome \<times> db"
where
  "record_chain_failure cfg ob jid classified db =
     (if classified = AlreadySettled then mark_settled_outcome cfg ob jid db
      else record_failure_outcome cfg ob jid classified db)"

definition explain_revert ::
  "relayer_config \<Rightarrow> 'z store_obs_scheme \<Rightarrow> string + bool \<Rightarrow> uuid \<Rightarrow> db \<Rightarrow> settle_outcome \<times> db" where
  "explain_revert cfg ob nullifier_used jid db =
     (case nullifier_used of
        Inr True \<Rightarrow> mark_settled_outcome cfg ob jid db
      | Inr False \<Rightarrow> record_failure_outcome cfg ob jid (PermanentFailure
          (''the settlement transaction reverted and the nullifier was not ''
           @ ''consumed, so the verifier rejected the proof'')) db
      | Inl e \<Rightarrow> record_failure_outcome cfg ob jid (classify (chain_error_text (ChainRpc e))) db)"

section \<open>Confirming\<close>

definition depth_of :: "u64 \<Rightarrow> mined_transaction \<Rightarrow> u64" where
  "depth_of head m = saturating_add (saturating_sub head (block_number m)) 1"

definition receipt_of :: "u64 \<Rightarrow> mined_transaction \<Rightarrow> receipt" where
  "receipt_of depth m =
     \<lparr> rc_block_number = min (int (unat (block_number m))) i64_max,
       rc_confirmations = min (int (unat depth)) i32_max,
       rc_gas_used = (if int (unat (gas_used m)) \<le> i64_max then Some (int (unat (gas_used m))) else None),
       rc_effective_gas_price = Some (dec (unat (effective_gas_price m))) \<rparr>"

definition confirm ::
  "relayer_config \<Rightarrow> 'z store_obs_scheme \<Rightarrow> string + u64 \<Rightarrow> string + b256 option \<Rightarrow>
   uuid \<Rightarrow> b256 \<Rightarrow> mined_transaction \<Rightarrow> db \<Rightarrow> confirmation \<times> db" where
  "confirm cfg ob head block jid tx_hash m db =
     (case head of
        Inl _ \<Rightarrow> (C_Waiting, db)
      | Inr h \<Rightarrow>
          let depth = depth_of h m in
          if depth < rl_confirmations cfg then (C_Waiting, db)
          else (case block_still_canonical block (block_hash m) of
                  Inl _ \<Rightarrow> (C_Waiting, db)
                | Inr False \<Rightarrow> (C_Orphaned, db)
                | Inr True \<Rightarrow>
                    (case store_call (o_up ob) db (confirm_settlement jid (rl_id cfg) tx_hash
                            (receipt_of depth m) (o_now ob) db) of
                       (Some _, db') \<Rightarrow> (C_Settled, db')
                     | (None, db') \<Rightarrow> (C_Failed, db'))))"

section \<open>Tracking a broadcast transaction\<close>

record track_state =
  tk_tx :: b256
  tk_fees :: "fees option"
  tk_call :: "replaceable option"
  tk_since :: duration

text \<open>
  One poll. \<open>ob_others\<close> is what other processes did to the tables since the last one, \<open>ob_clock\<close> the
  monotonic clock.
\<close>

record track_obs = store_obs +
  ob_others :: "db \<Rightarrow> db"
  ob_clock :: duration
  ob_receipt :: "b256 \<Rightarrow> string + node_receipt option"
  ob_head :: "string + u64"
  ob_block :: "u64 \<Rightarrow> string + b256 option"
  ob_nullifier :: "b256 \<Rightarrow> string + bool"
  ob_nonce :: "chain_error + u64"
  ob_nonce_again :: "chain_error + u64"
  ob_submit :: "replaceable \<Rightarrow> u64 \<Rightarrow> fees \<Rightarrow> chain_error + b256"

definition record_replacement ::
  "track_obs \<Rightarrow> uuid \<Rightarrow> b256 \<Rightarrow> b256 \<Rightarrow> db \<Rightarrow> db" where
  "record_replacement ob jid from_tx to_tx db =
     snd (store_call (o_up ob) db (replace_submission_tx jid from_tx to_tx (o_now ob) db))"

text \<open>A transaction that has waited too long: a nonce gap is resubmitted, anything else is bumped.\<close>

definition replace_stuck ::
  "relayer_config \<Rightarrow> track_obs \<Rightarrow> uuid \<Rightarrow> replaceable \<Rightarrow> fees \<Rightarrow>
   track_state \<Rightarrow> nonce_state \<Rightarrow> db \<Rightarrow> track_state \<times> nonce_state \<times> db" where
  "replace_stuck cfg ob jid pending current st ns db =
     (if (case ob_nonce ob of Inr chain_nonce \<Rightarrow> chain_nonce < rp_nonce pending | Inl _ \<Rightarrow> False) then
        (case broadcast (ob_nonce_again ob) (\<lambda>n. ob_submit ob pending n current) (invalidate ns) of
           (ns', Inr (replacement, nonce)) \<Rightarrow>
             (st\<lparr> tk_tx := replacement, tk_call := Some (pending\<lparr> rp_nonce := nonce \<rparr>),
                  tk_since := ob_clock ob \<rparr>,
              ns', record_replacement ob jid (tk_tx st) replacement db)
         | (ns', Inl _) \<Rightarrow> (st, ns', db))
      else
        (case bump (rl_gas cfg) current of
           BumpTo higher \<Rightarrow>
             (case ob_submit ob pending (rp_nonce pending) higher of
                Inr replacement \<Rightarrow>
                  (st\<lparr> tk_tx := replacement, tk_fees := Some higher, tk_since := ob_clock ob \<rparr>,
                   ns, record_replacement ob jid (tk_tx st) replacement db)
              | Inl _ \<Rightarrow> (st, ns, db))
         | AtCeiling \<Rightarrow> (st, ns, db)))"

definition track_step ::
  "relayer_config \<Rightarrow> uuid \<Rightarrow> b256 \<Rightarrow> track_obs \<Rightarrow> track_state \<Rightarrow> nonce_state \<Rightarrow> db \<Rightarrow>
   settle_outcome option \<times> track_state \<times> nonce_state \<times> db" where
  "track_step cfg jid nullifier ob st ns db =
     (case mined (ob_receipt ob (tk_tx st)) of
        Inl _ \<Rightarrow> (None, st, ns, db)
      | Inr (Some m) \<Rightarrow>
          if \<not> succeeded m then
            (case explain_revert cfg ob (ob_nullifier ob nullifier) jid db of
               (out, db') \<Rightarrow> (Some out, st, ns, db'))
          else
            (case confirm cfg ob (ob_head ob) (ob_block ob (block_number m)) jid (tk_tx st) m db of
               (C_Settled, db') \<Rightarrow> (Some (Settled jid), st, ns, db')
             | (C_Orphaned, db') \<Rightarrow>
                 (case record_failure_outcome cfg ob jid
                         (TransientFailure ''settlement block was reorged out before confirmation'') db' of
                    (out, db'') \<Rightarrow> (Some out, st, ns, db''))
             | (C_Waiting, db') \<Rightarrow> (None, st, ns, db')
             | (C_Failed, db') \<Rightarrow> (Some (LeaseLost jid), st, ns, db'))
      | Inr None \<Rightarrow>
          if ob_clock ob - tk_since st < rl_stuck_after cfg then (None, st, ns, db)
          else (case (tk_call st, tk_fees st) of
                  (Some pending, Some current) \<Rightarrow>
                    (None, replace_stuck cfg ob jid pending current st ns db)
                | _ \<Rightarrow> (None, st, ns, db)))"

fun track ::
  "relayer_config \<Rightarrow> uuid \<Rightarrow> b256 \<Rightarrow> track_obs list \<Rightarrow> track_state \<Rightarrow> nonce_state \<Rightarrow> db \<Rightarrow>
   settle_outcome option \<times> track_state \<times> nonce_state \<times> db" where
  "track cfg jid nullifier [] st ns db = (None, st, ns, db)"
| "track cfg jid nullifier (ob # obs) st ns db =
     (case track_step cfg jid nullifier ob st ns (ob_others ob db) of
        (Some out, st', ns', db') \<Rightarrow> (Some out, st', ns', db')
      | (None, st', ns', db') \<Rightarrow> track cfg jid nullifier obs st' ns' db')"

section \<open>Settling one job\<close>

record settle_obs = store_obs +
  so_settlements_up :: bool
  so_terms :: "b256 \<Rightarrow> string + (u64 \<times> u128 \<times> u128 option) option"
  so_estimate :: "string + u64"
  so_nullifier :: "b256 \<Rightarrow> string + bool"
  so_fees :: "string + u128 \<times> u128"
  so_pending :: "chain_error + u64"
  so_submit :: "replaceable \<Rightarrow> u64 \<Rightarrow> fees \<Rightarrow> chain_error + b256"
  so_record_up :: bool
  so_clock :: duration

datatype settle_next = Finished settle_outcome | Tracking track_state b256

text \<open>An earlier broadcast of this job that no reorg removed, with what is needed to replace it.\<close>

definition resume ::
  "(bytes \<Rightarrow> b256) \<Rightarrow> settle_obs \<Rightarrow> job \<Rightarrow> bytes \<Rightarrow> b256 list \<Rightarrow> db \<Rightarrow> track_state option" where
  "resume keccak256 ob j proof_bytes public_inputs db =
     (case (if so_settlements_up ob then latest_settlement (j_id j) db else None) of
        Some existing \<Rightarrow>
          if s_reorged_at existing = None then
            (case to_b256 (s_tx_hash existing) of
               Some tx_hash \<Rightarrow>
                 (let resumable =
                    (case transaction_terms (so_terms ob tx_hash) of
                       Inr (Some (nonce, fees)) \<Rightarrow>
                         Some (\<lparr> rp_nonce = nonce, rp_circuit = circuit_id keccak256 (j_circuit_id j),
                                 rp_proof = proof_bytes, rp_public_inputs = public_inputs,
                                 rp_gas_limit = (case so_estimate ob of
                                    Inr estimate \<Rightarrow> gas_limit estimate | Inl _ \<Rightarrow> DEFAULT_GAS_LIMIT) \<rparr>, fees)
                     | _ \<Rightarrow> None)
                  in Some \<lparr> tk_tx = tx_hash, tk_fees = map_option snd resumable,
                            tk_call = map_option fst resumable, tk_since = so_clock ob \<rparr>)
             | None \<Rightarrow> None)
          else None
      | None \<Rightarrow> None)"

definition finish ::
  "settle_outcome \<times> db \<Rightarrow> nonce_state \<Rightarrow> settle_next \<times> nonce_state \<times> db" where
  "finish r ns = (Finished (fst r), ns, snd r)"

text \<open>A first submission: check the nullifier, estimate, price, broadcast, record.\<close>

definition settle_fresh ::
  "relayer_config \<Rightarrow> (bytes \<Rightarrow> b256) \<Rightarrow> settle_obs \<Rightarrow> job \<Rightarrow> bytes \<Rightarrow> b256 list \<Rightarrow> b256 \<Rightarrow>
   nonce_state \<Rightarrow> db \<Rightarrow> settle_next \<times> nonce_state \<times> db" where
  "settle_fresh cfg keccak256 ob j proof_bytes public_inputs nullifier ns db =
     (let jid = j_id j in
      case so_nullifier ob nullifier of
        Inr True \<Rightarrow> finish (mark_settled_outcome cfg ob jid db) ns
      | Inl e \<Rightarrow> finish (record_failure_outcome cfg ob jid (classify (chain_error_text (ChainRpc e))) db) ns
      | Inr False \<Rightarrow>
          (case so_estimate ob of
             Inl e \<Rightarrow> finish (record_chain_failure cfg ob jid (classify (chain_error_text (ChainRpc e))) db) ns
           | Inr estimate \<Rightarrow>
               (case fee_inputs (so_fees ob) of
                  Inl e \<Rightarrow> finish (record_failure_outcome cfg ob jid (classify (chain_error_text e)) db) ns
                | Inr (base, tip) \<Rightarrow>
                    (let fees = initial_fees (rl_gas cfg) base tip;
                         call = \<lparr> rp_nonce = 0, rp_circuit = circuit_id keccak256 (j_circuit_id j),
                                  rp_proof = proof_bytes, rp_public_inputs = public_inputs,
                                  rp_gas_limit = gas_limit estimate \<rparr> in
                     case broadcast (so_pending ob) (\<lambda>n. so_submit ob call n fees) ns of
                       (ns', Inl classified) \<Rightarrow> finish (record_chain_failure cfg ob jid classified db) ns'
                     | (ns', Inr (tx_hash, nonce)) \<Rightarrow>
                         (Tracking \<lparr> tk_tx = tx_hash, tk_fees = Some fees,
                                     tk_call = Some (call\<lparr> rp_nonce := nonce \<rparr>), tk_since = so_clock ob \<rparr> nullifier,
                          ns',
                          snd (store_call (so_record_up ob) db
                            (record_submission jid tx_hash nullifier (o_now ob) db)))))))"

definition settle ::
  "relayer_config \<Rightarrow> (bytes \<Rightarrow> b256) \<Rightarrow> settle_obs \<Rightarrow> job \<Rightarrow> nonce_state \<Rightarrow> db \<Rightarrow>
   settle_next \<times> nonce_state \<times> db" where
  "settle cfg keccak256 ob j ns db =
     (let permanent = (\<lambda>text. finish (record_failure_outcome cfg ob (j_id j) (PermanentFailure text) db) ns) in
      case (j_proof j, j_public_inputs j) of
        (Some proof_bytes, Some input_bytes) \<Rightarrow>
          (case public_inputs_from_bytes input_bytes of
             None \<Rightarrow> permanent (''public inputs are '' @ dec (length input_bytes)
                       @ '' bytes, not a whole number of field elements'')
           | Some public_inputs \<Rightarrow>
               if public_inputs = [] then permanent ''no public inputs to settle''
               else
                 (let nullifier = last public_inputs in
                  case resume keccak256 ob j proof_bytes public_inputs db of
                    Some st \<Rightarrow> (Tracking st nullifier, ns, db)
                  | None \<Rightarrow> settle_fresh cfg keccak256 ob j proof_bytes public_inputs nullifier ns db))
      | _ \<Rightarrow> permanent ''job is proved but carries no proof or public inputs'')"

section \<open>An attempt and the loops around it\<close>

text \<open>
  Which branch of the \<open>select!\<close> of \<open>attempt\<close> came first: the heartbeat ended because the lease was
  lost, the work finished, or shutdown was requested and the work finished, or did not, in its grace.
\<close>

datatype attempt_end = HeartbeatEnded | WorkFinished settle_outcome | ShutdownGrace "settle_outcome option"

definition end_attempt ::
  "relayer_config \<Rightarrow> 'z store_obs_scheme \<Rightarrow> uuid \<Rightarrow> attempt_end \<Rightarrow> db \<Rightarrow> settle_outcome \<times> db" where
  "end_attempt cfg ob jid how db =
     (case how of
        HeartbeatEnded \<Rightarrow> (LeaseLost jid, db)
      | WorkFinished out \<Rightarrow> (out, db)
      | ShutdownGrace (Some out) \<Rightarrow> (out, db)
      | ShutdownGrace None \<Rightarrow>
          (Abandoned jid, snd (store_call (o_up ob) db (release_lease jid (rl_id cfg) (o_now ob) db))))"

datatype loop_turn = Stop | Idle | Work job

text \<open>One turn of \<open>run\<close>: shutdown is looked at before leasing and again once a job was leased.\<close>

definition run_turn ::
  "relayer_config \<Rightarrow> 'z store_obs_scheme \<Rightarrow> uuid list \<Rightarrow> bool \<Rightarrow> bool \<Rightarrow> db \<Rightarrow> loop_turn \<times> db" where
  "run_turn cfg ob locked shutdown_before shutdown_after db =
     (if shutdown_before then (Stop, db)
      else (case store_call (o_read_up ob) db (lease_next_proved locked (rl_id cfg)
                   (interval_of (rl_lease_ttl cfg)) (o_now ob) db) of
              (Some (Some j), db') \<Rightarrow>
                if shutdown_after
                then (Stop, snd (store_call (o_up ob) db' (release_lease (j_id j) (rl_id cfg) (o_now ob) db')))
                else (Work j, db')
            | (Some None, db') \<Rightarrow> (Idle, db')
            | (None, db') \<Rightarrow> (Idle, db')))"

text \<open>One tick of the heartbeat: whether it goes on.\<close>

definition heartbeat_tick ::
  "string \<Rightarrow> duration \<Rightarrow> 'z store_obs_scheme \<Rightarrow> uuid \<Rightarrow> db \<Rightarrow> bool \<times> db" where
  "heartbeat_tick holder ttl ob jid db =
     (case store_call (o_up ob) db (renew_lease jid holder (interval_of ttl) (o_now ob) db) of
        (Some False, db') \<Rightarrow> (False, db')
      | (_, db') \<Rightarrow> (True, db'))"

definition reap_tick :: "string \<Rightarrow> 'z store_obs_scheme \<Rightarrow> uuid list \<Rightarrow> db \<Rightarrow> db" where
  "reap_tick reaper ob locked db = snd (store_call (o_up ob) db (reap_expired_leases locked reaper (o_now ob) db))"

text \<open>One tick of the reorg watch: every settlement in the window whose nullifier is free again.\<close>

fun reorg_pass ::
  "string \<Rightarrow> 'z store_obs_scheme \<Rightarrow> (b256 \<Rightarrow> string + bool) \<Rightarrow> (uuid \<times> bytes \<times> bytes) list \<Rightarrow> db \<Rightarrow> db" where
  "reorg_pass relayer_id ob used [] db = db"
| "reorg_pass relayer_id ob used ((jid, tx_hash, nullifier_bytes) # ws) db =
     (case to_b256 nullifier_bytes of
        None \<Rightarrow> reorg_pass relayer_id ob used ws db
      | Some nullifier \<Rightarrow>
          (case used nullifier of
             Inr False \<Rightarrow> reorg_pass relayer_id ob used ws
               (snd (store_call (o_up ob) db (record_reorg jid relayer_id tx_hash (o_now ob) db)))
           | _ \<Rightarrow> reorg_pass relayer_id ob used ws db))"

definition reorg_watch_tick ::
  "relayer_config \<Rightarrow> 'z store_obs_scheme \<Rightarrow> (b256 \<Rightarrow> string + bool) \<Rightarrow> db \<Rightarrow> db" where
  "reorg_watch_tick cfg ob used db =
     (if o_read_up ob
      then reorg_pass (rl_id cfg) ob used
             (settlements_to_watch (interval_of (rl_reorg_watch_window cfg)) (o_now ob) db) db
      else db)"

definition preflight :: "string + bool \<Rightarrow> string + nat \<Rightarrow> string \<Rightarrow> string \<Rightarrow> u64 \<Rightarrow> string + unit" where
  "preflight authorised balance address contract chain_id =
     and_then (map_err (\<lambda>e. ''could not check authorisation: '' @ chain_error_text (ChainRpc e)) authorised) (\<lambda>ok.
     and_then (require ok (address @ '' is not an authorised relayer on '' @ contract
        @ ''; the owner must call setRelayer for it'')) (\<lambda>_.
     and_then (map_err (\<lambda>e. ''could not read the balance: '' @ chain_error_text (ChainRpc e)) balance) (\<lambda>b.
     require (b \<noteq> 0) (address @ '' has no funds on chain '' @ dec (unat chain_id)
        @ ''; every submission would fail''))))"

end
