(* ===== verification/Relayer_Facts.thy ===== *)
theory Relayer_Facts
  imports Relayer Store_Properties
begin

text \<open>
  What the operations of \<open>Relayer\<close> do: the store calls as changes of one row, how tracking ends, what
  an outcome leaves in the tables, and which transactions a settlement can send.
\<close>

section \<open>Calls to the store\<close>

lemma mark_settled_result:
  assumes "mark_settled_outcome cfg ob jid db = (out, db')"
  shows "out = LeaseLost jid \<and> db' = db \<or>
    out = SettledBefore jid \<and> (\<exists>r. find_job jid db' = Some r \<and> j_state r = S_Settled) \<and>
      settlements_tbl db' = settlements_tbl db"
proof -
  have settled: "transition s E_SettlementConfirmed = Inr t \<Longrightarrow> t = S_Settled" for s t
    by (cases s) auto
  show ?thesis
    using assms unfolding mark_settled_outcome_def
    by (auto split: prod.splits option.splits dest!: store_call_cases
        simp: mark_settled_elsewhere_def apply_event_def dest: apply_event_result settled)
qed

lemma submission_failure_result:
  assumes "record_submission_failure jid w k err retry now db = Inr (j, db')"
  shows "\<exists>r r' ev. find_job jid db = Some r \<and> ev \<in> {E_PermanentlyFailed, E_AttemptsExhausted, E_RetryScheduled} \<and>
    (ev = E_PermanentlyFailed \<longleftrightarrow> k = Permanent) \<and> transition (j_state r) ev = Inr (j_state r') \<and>
    find_job jid db' = Some r' \<and> j_proof r' = j_proof r \<and> settlements_tbl db' = settlements_tbl db"
proof -
  let ?ev = "\<lambda>r. classify_failure k (unsigned_from 0 (j_submission_attempts r)) (unsigned_from 1 (j_max_attempts r))"
  from assms obtain r nxt where r: "find_job jid db = Some r" and t: "transition (j_state r) (?ev r) = Inr nxt"
    by (auto simp: record_submission_failure_def Let_def res_iff)
  let ?r' = "r\<lparr> j_state := nxt, j_last_error := Some err, j_leased_by := None, j_lease_expires_at := None,
      j_retry_after := map_option (\<lambda>d. now + d) (if nxt = S_Proved then retry else None), j_updated_at := now \<rparr>"
  have db': "db' = insert_transition jid (j_state r) (?ev r) nxt (Some w) (Some err) now
      (db\<lparr> jobs_tbl := update_where (\<lambda>x. j_id x = jid) (\<lambda>_. ?r') (jobs_tbl db) \<rparr>)"
    using assms r t by (auto simp: record_submission_failure_def Let_def res_iff)
  have "j_id ?r' = jid" using find_job_id [OF r] by simp
  from logged_row [OF r this db', of jid] have "find_job jid db' = Some ?r'"
    and "settlements_tbl db' = settlements_tbl db" by simp_all
  moreover have "?ev r \<in> {E_PermanentlyFailed, E_AttemptsExhausted, E_RetryScheduled}"
    and "?ev r = E_PermanentlyFailed \<longleftrightarrow> k = Permanent"
    by (rule classify_failure_range, rule classify_failure_cases(1))
  ultimately show ?thesis using r t by (intro exI [of _ r] exI [of _ ?r'] exI [of _ "?ev r"]) simp
qed

lemma record_failure_result:
  assumes "record_failure_outcome cfg ob jid f db = (out, db')"
  shows "out = LeaseLost jid \<and> db' = db \<or>
    out = SettledBefore jid \<and> f = AlreadySettled \<and> (\<exists>r. find_job jid db' = Some r \<and> j_state r = S_Settled) \<or>
    (\<exists>k d r r' ev. out = SettleFailed jid k d \<and> failure_kind_of f = Some k \<and> find_job jid db = Some r \<and>
       ev \<in> {E_PermanentlyFailed, E_AttemptsExhausted, E_RetryScheduled} \<and>
       (ev = E_PermanentlyFailed \<longleftrightarrow> k = Permanent) \<and> transition (j_state r) ev = Inr (j_state r') \<and>
       find_job jid db' = Some r' \<and> j_proof r' = j_proof r)"
proof (cases "failure_kind_of f")
  case None
  then have "f = AlreadySettled" by (cases f) simp_all
  with assms None mark_settled_result [of cfg ob jid db out db'] show ?thesis
    by (auto simp: record_failure_outcome_def)
next
  case (Some k)
  with assms show ?thesis
    unfolding record_failure_outcome_def Let_def
    by (auto split: prod.splits option.splits dest!: store_call_cases submission_failure_result)
qed

section \<open>How tracking ends\<close>

text \<open>Tracking ends in one poll, after polls that did not end it.\<close>

lemma track_last_poll:
  "track cfg jid n obs st ns db = (Some out, st', ns', db') \<Longrightarrow>
   \<exists>pre ob post st1 ns1 db1. obs = pre @ ob # post \<and> track cfg jid n pre st ns db = (None, st1, ns1, db1) \<and>
     track_step cfg jid n ob st1 ns1 (ob_others ob db1) = (Some out, st', ns', db')"
proof (induction obs arbitrary: st ns db)
  case (Cons ob obs)
  obtain o1 st1 ns1 db1 where step: "track_step cfg jid n ob st ns (ob_others ob db) = (o1, st1, ns1, db1)"
    by (metis prod_cases4)
  show ?case
  proof (cases o1)
    case None
    with Cons.prems step have "track cfg jid n obs st1 ns1 db1 = (Some out, st', ns', db')" by simp
    from Cons.IH [OF this] obtain pre ob' post st2 ns2 db2 where rest: "obs = pre @ ob' # post"
      "track cfg jid n pre st1 ns1 db1 = (None, st2, ns2, db2)"
      "track_step cfg jid n ob' st2 ns2 (ob_others ob' db2) = (Some out, st', ns', db')" by blast
    show ?thesis
      by (intro exI [of _ "ob # pre"] exI conjI) (use rest step None in simp_all)
  next
    case (Some x)
    with Cons.prems step have "track_step cfg jid n ob st ns (ob_others ob db) = (Some out, st', ns', db')"
      by simp
    then show ?thesis by (intro exI [of _ "[]"] exI conjI) simp_all
  qed
qed simp

lemma track_ends:
  "track cfg jid n obs st ns db = (Some out, st', ns', db') \<Longrightarrow>
   \<exists>ob \<in> set obs. \<exists>st1 ns1 db1. track_step cfg jid n ob st1 ns1 (ob_others ob db1) = (Some out, st', ns', db')"
  by (drule track_last_poll) (metis in_set_conv_decomp)

lemma track_step_ends:
  assumes "track_step cfg jid n ob st ns db = (Some out, st', ns', db')"
  shows "st' = st \<and> (\<exists>m. mined (ob_receipt ob (tk_tx st)) = Inr (Some m) \<and>
    (\<not> succeeded m \<and> explain_revert cfg ob (ob_nullifier ob n) jid db = (out, db') \<or>
     succeeded m \<and> (\<exists>c db1. confirm cfg ob (ob_head ob) (ob_block ob (block_number m)) jid (tk_tx st) m db = (c, db1) \<and>
       (c = C_Settled \<and> out = Settled jid \<and> db' = db1 \<or> c = C_Failed \<and> out = LeaseLost jid \<and> db' = db1 \<or>
        c = C_Orphaned \<and> record_failure_outcome cfg ob jid
          (TransientFailure ''settlement block was reorged out before confirmation'') db1 = (out, db')))))"
  using assms unfolding track_step_def
  by (auto split: sum.splits option.splits if_splits prod.splits confirmation.splits)

lemma confirmed_is_settled: "transition s E_SettlementConfirmed = Inr t \<Longrightarrow> t = S_Settled"
  by (cases s) auto

lemma confirm_settlement_result:
  "confirm_settlement jid w tx rc now db = Inr (j, db') \<Longrightarrow>
   \<exists>r. find_job jid db' = Some r \<and> j_state r = S_Settled"
  by (auto simp: confirm_settlement_def and_then_Inr dest!: apply_event_result dest: confirmed_is_settled)

lemma confirm_cases:
  assumes "confirm cfg ob head block jid tx m db = (c, db')"
  shows "c = C_Settled \<and> (\<exists>h. head = Inr h \<and> rl_confirmations cfg \<le> depth_of h m) \<and>
      block = Inr (Some (block_hash m)) \<and> (\<exists>r. find_job jid db' = Some r \<and> j_state r = S_Settled) \<or>
    c \<noteq> C_Settled \<and> db' = db"
proof (cases "\<exists>h. head = Inr h \<and> \<not> depth_of h m < rl_confirmations cfg")
  case True
  then obtain h where h: "head = Inr h" "\<not> depth_of h m < rl_confirmations cfg" by blast
  show ?thesis
  proof (cases "block = Inr (Some (block_hash m))")
    case True
    with assms h show ?thesis
      by (auto simp: confirm_def Let_def not_less split: prod.splits option.splits
          dest!: store_call_cases confirm_settlement_result)
  next
    case False
    with assms h show ?thesis by (cases block) (auto simp: confirm_def Let_def)
  qed
next
  case False
  with assms show ?thesis by (cases head) (auto simp: confirm_def Let_def)
qed

section \<open>What an outcome leaves in the tables\<close>

definition job_in :: "job_state set \<Rightarrow> uuid \<Rightarrow> db \<Rightarrow> bool" where
  "job_in S jid db \<longleftrightarrow> (case find_job jid db of Some r \<Rightarrow> j_state r \<in> S | None \<Rightarrow> False)"

text \<open>The job is in one of the states after the failure, with the proof it had.\<close>

definition failed_to :: "job_state set \<Rightarrow> uuid \<Rightarrow> db \<Rightarrow> db \<Rightarrow> bool" where
  "failed_to S jid db db' \<longleftrightarrow>
     (case (find_job jid db, find_job jid db') of
        (Some r, Some r') \<Rightarrow> j_state r' \<in> S \<and> j_proof r' = j_proof r
      | _ \<Rightarrow> False)"

text \<open>What an outcome says of the tables before and after it; abandoning a job is not an outcome of settling it.\<close>

fun recorded :: "settle_outcome \<Rightarrow> db \<Rightarrow> db \<Rightarrow> bool" where
  "recorded (Settled jid) db db' = job_in {S_Settled} jid db'"
| "recorded (SettledBefore jid) db db' = job_in {S_Settled} jid db'"
| "recorded (SettleFailed jid Permanent _) db db' = failed_to {S_Failed} jid db db'"
| "recorded (SettleFailed jid Transient _) db db' = failed_to {S_Queued, S_Proved, S_Failed} jid db db'"
| "recorded (LeaseLost _) db db' = (db' = db)"
| "recorded (Abandoned _) db db' = False"

lemma failure_states:
  "transition s E_PermanentlyFailed = Inr t \<Longrightarrow> t = S_Failed"
  "transition s E_AttemptsExhausted = Inr t \<Longrightarrow> t = S_Failed"
  "transition s E_RetryScheduled = Inr t \<Longrightarrow> t \<in> {S_Queued, S_Proved}"
  by (cases s; auto)+

lemma record_failure_recorded:
  assumes "record_failure_outcome cfg ob jid f db = (out, db')"
  shows "recorded out db db' \<and> outcome_job_id out = jid \<and> (out = LeaseLost jid \<longrightarrow> db' = db) \<and>
    (out = SettledBefore jid \<longrightarrow> f = AlreadySettled)"
  using record_failure_result [OF assms]
proof (elim disjE exE conjE)
  fix k d r r' ev
  assume out: "out = SettleFailed jid k d" and r: "find_job jid db = Some r" "find_job jid db' = Some r'"
    and kept: "j_proof r' = j_proof r"
    and ev: "ev \<in> {E_PermanentlyFailed, E_AttemptsExhausted, E_RetryScheduled}" "(ev = E_PermanentlyFailed) = (k = Permanent)"
    and t: "transition (j_state r) ev = Inr (j_state r')"
  show ?thesis
    using ev t failure_states [of "j_state r" "j_state r'"] by (cases k) (auto simp: out failed_to_def r kept)
qed (auto simp: job_in_def)

lemma mark_settled_recorded:
  "mark_settled_outcome cfg ob jid db = (out, db') \<Longrightarrow>
   recorded out db db' \<and> outcome_job_id out = jid \<and> (out = LeaseLost jid \<longrightarrow> db' = db) \<and>
   out \<in> {SettledBefore jid, LeaseLost jid}"
  using mark_settled_result [of cfg ob jid db out db'] by (auto simp: job_in_def)

lemma explain_revert_recorded:
  assumes "explain_revert cfg ob used jid db = (out, db')"
  shows "recorded out db db' \<and> outcome_job_id out = jid"
  using assms unfolding explain_revert_def
  by (auto split: sum.splits bool.splits dest: mark_settled_recorded record_failure_recorded)

lemma record_failure_not_settled: "record_failure_outcome cfg ob jid f db \<noteq> (Settled i, db')"
  using record_failure_result [of cfg ob jid f db "Settled i" db'] by auto

lemma explain_revert_not_settled: "explain_revert cfg ob used jid db \<noteq> (Settled i, db')"
  using record_failure_not_settled mark_settled_recorded
  by (fastforce simp: explain_revert_def split: sum.splits bool.splits)

lemma track_step_recorded:
  assumes "track_step cfg jid n ob st ns db = (Some out, st', ns', db')"
  shows "recorded out db db' \<and> outcome_job_id out = jid"
  using track_step_ends [OF assms]
  by (auto simp: job_in_def dest!: confirm_cases dest: explain_revert_recorded record_failure_recorded)

lemma settle_fresh_finished:
  assumes "settle_fresh cfg kec ob j pf ps n ns db = (Finished out, ns', db')"
  shows "mark_settled_outcome cfg ob (j_id j) db = (out, db') \<or>
    (\<exists>f. record_failure_outcome cfg ob (j_id j) f db = (out, db'))"
  using assms unfolding settle_fresh_def record_chain_failure_def finish_def Let_def
  by (auto split: sum.splits bool.splits prod.splits if_splits)

lemma settle_finished:
  assumes "settle cfg kec ob j ns db = (Finished out, ns', db')"
  shows "mark_settled_outcome cfg ob (j_id j) db = (out, db') \<or>
    (\<exists>f. record_failure_outcome cfg ob (j_id j) f db = (out, db'))"
  using assms unfolding settle_def Let_def
  by (auto simp: finish_def split: option.splits if_splits dest!: settle_fresh_finished)

lemma settle_recorded:
  "settle cfg kec ob j ns db = (Finished out, ns', db') \<Longrightarrow> recorded out db db' \<and> outcome_job_id out = j_id j"
  using mark_settled_recorded record_failure_recorded by (blast dest: settle_finished)

lemma track_recorded:
  assumes "track cfg jid n obs st ns db = (Some out, st', ns', db')"
  shows "outcome_job_id out = jid \<and> (\<exists>pre ob post st1 ns1 db1. obs = pre @ ob # post \<and>
    track cfg jid n pre st ns db = (None, st1, ns1, db1) \<and> recorded out (ob_others ob db1) db')"
proof -
  from track_last_poll [OF assms] obtain pre ob post st1 ns1 db1 where
    obs: "obs = pre @ ob # post" "track cfg jid n pre st ns db = (None, st1, ns1, db1)"
    and step: "track_step cfg jid n ob st1 ns1 (ob_others ob db1) = (Some out, st', ns', db')" by (elim exE conjE)
  from track_step_recorded [OF step] have rec: "recorded out (ob_others ob db1) db'" "outcome_job_id out = jid" by simp_all
  show ?thesis by (rule conjI [OF rec(2)], intro exI conjI) (rule obs(1), rule obs(2), rule rec(1))
qed

section \<open>What is sent\<close>

definition within_caps :: "gas_policy \<Rightarrow> fees \<Rightarrow> bool" where
  "within_caps p f \<longleftrightarrow> max_fee_per_gas f \<le> max_fee_cap p \<and>
     max_priority_fee_per_gas f \<le> max_priority_fee_cap p \<and>
     max_priority_fee_per_gas f \<le> max_fee_per_gas f"

text \<open>The settlement a call carries, its nonce aside.\<close>

definition same_call :: "replaceable \<Rightarrow> replaceable \<Rightarrow> bool" where
  "same_call c d \<longleftrightarrow> c\<lparr> rp_nonce := 0 \<rparr> = d\<lparr> rp_nonce := 0 \<rparr>"

text \<open>
  A node that refuses every transaction that is not the given call at a price within the caps. That
  such a node makes no difference says that nothing else is ever sent.
\<close>

definition strict_node ::
  "gas_policy \<Rightarrow> replaceable \<Rightarrow> (replaceable \<Rightarrow> u64 \<Rightarrow> fees \<Rightarrow> chain_error + b256) \<Rightarrow>
   replaceable \<Rightarrow> u64 \<Rightarrow> fees \<Rightarrow> chain_error + b256" where
  "strict_node p call submit c n f =
     (if same_call c call \<and> within_caps p f then submit c n f else Inl (ChainRpc ''refused''))"

definition strict_poll :: "gas_policy \<Rightarrow> replaceable \<Rightarrow> track_obs \<Rightarrow> track_obs" where
  "strict_poll p call ob = ob\<lparr> ob_submit := strict_node p call (ob_submit ob) \<rparr>"

definition sends_only :: "gas_policy \<Rightarrow> replaceable \<Rightarrow> track_state \<Rightarrow> bool" where
  "sends_only p call st \<longleftrightarrow>
     (case tk_call st of None \<Rightarrow> True | Some c \<Rightarrow> same_call c call) \<and>
     (case tk_fees st of None \<Rightarrow> True | Some f \<Rightarrow> within_caps p f)"

lemma initial_within_caps: "within_caps p (initial_fees p base tip)"
  by (simp add: within_caps_def initial_fees_def Let_def min.coboundedI1 min.coboundedI2)

lemma bump_keeps_caps: "bump p f = BumpTo g \<Longrightarrow> within_caps p g"
  using bump_To_fields [of p f g] by (simp add: within_caps_def min.coboundedI1 min.coboundedI2)

lemma same_call_nonce [simp]: "same_call (c\<lparr> rp_nonce := n \<rparr>) d = same_call c d"
  by (simp add: same_call_def)

lemma strict_node_allows:
  "same_call c call \<Longrightarrow> within_caps p f \<Longrightarrow> strict_node p call submit c n f = submit c n f"
  by (simp add: strict_node_def)

lemma strict_poll_sel [simp]:
  "ob_submit (strict_poll p call ob) = strict_node p call (ob_submit ob)"
  "ob_others (strict_poll p call ob) = ob_others ob" "ob_clock (strict_poll p call ob) = ob_clock ob"
  "ob_receipt (strict_poll p call ob) = ob_receipt ob" "ob_head (strict_poll p call ob) = ob_head ob"
  "ob_block (strict_poll p call ob) = ob_block ob" "ob_nullifier (strict_poll p call ob) = ob_nullifier ob"
  "ob_nonce (strict_poll p call ob) = ob_nonce ob" "ob_nonce_again (strict_poll p call ob) = ob_nonce_again ob"
  "o_up (strict_poll p call ob) = o_up ob" "o_now (strict_poll p call ob) = o_now ob"
  "o_read_up (strict_poll p call ob) = o_read_up ob" "o_jitter (strict_poll p call ob) = o_jitter ob"
  by (simp_all add: strict_poll_def)

lemma record_replacement_strict [simp]:
  "record_replacement (strict_poll p call ob) = record_replacement ob"
  by (intro ext) (simp add: record_replacement_def)

lemma replace_stuck_strict:
  assumes "same_call c call" and "within_caps (rl_gas cfg) f"
  shows "replace_stuck cfg (strict_poll (rl_gas cfg) call ob) jid c f st ns db = replace_stuck cfg ob jid c f st ns db"
proof -
  have "strict_node (rl_gas cfg) call (ob_submit ob) c n g = ob_submit ob c n g"
    if "g = f \<or> bump (rl_gas cfg) f = BumpTo g" for n g
    using that assms bump_keeps_caps by (auto intro: strict_node_allows)
  then show ?thesis
    unfolding replace_stuck_def by (auto split: bump_result.splits sum.splits)
qed

lemma replace_stuck_sends_only:
  assumes "same_call c call" and "within_caps (rl_gas cfg) f" and "tk_call st = Some c" and "tk_fees st = Some f"
    and "replace_stuck cfg ob jid c f st ns db = (st', ns', db')"
  shows "sends_only (rl_gas cfg) call st'"
  using assms bump_keeps_caps
  by (fastforce simp: replace_stuck_def sends_only_def split: prod.splits sum.splits bump_result.splits if_splits)

lemma outcome_obs_strict [simp]:
  "mark_settled_outcome cfg (strict_poll p call ob) = mark_settled_outcome cfg ob"
  "record_failure_outcome cfg (strict_poll p call ob) = record_failure_outcome cfg ob"
  "explain_revert cfg (strict_poll p call ob) = explain_revert cfg ob"
  "confirm cfg (strict_poll p call ob) = confirm cfg ob"
proof -
  show m: "mark_settled_outcome cfg (strict_poll p call ob) = mark_settled_outcome cfg ob"
    by (intro ext) (simp add: mark_settled_outcome_def)
  show r: "record_failure_outcome cfg (strict_poll p call ob) = record_failure_outcome cfg ob"
    by (intro ext) (simp only: record_failure_outcome_def m strict_poll_sel retry_attempt_def)
  show "explain_revert cfg (strict_poll p call ob) = explain_revert cfg ob"
    by (intro ext) (simp only: explain_revert_def m r)
  show "confirm cfg (strict_poll p call ob) = confirm cfg ob"
    by (intro ext) (simp only: confirm_def strict_poll_sel)
qed

lemma track_step_strict:
  assumes "sends_only (rl_gas cfg) call st"
  shows "track_step cfg jid n (strict_poll (rl_gas cfg) call ob) st ns db = track_step cfg jid n ob st ns db"
  using assms replace_stuck_strict [of _ call cfg _ ob jid st ns db]
  by (auto simp: track_step_def sends_only_def split: sum.splits option.splits prod.splits confirmation.splits)

lemma track_step_sends_only:
  assumes "sends_only (rl_gas cfg) call st" and "track_step cfg jid n ob st ns db = (r, st', ns', db')"
  shows "sends_only (rl_gas cfg) call st'"
proof (cases "\<exists>c f. tk_call st = Some c \<and> tk_fees st = Some f \<and> replace_stuck cfg ob jid c f st ns db = (st', ns', db')")
  case True
  with assms(1) show ?thesis
    by (metis option.simps(5) replace_stuck_sends_only sends_only_def)
next
  case False
  with assms(2) have "st' = st"
    unfolding track_step_def
    by (auto split: sum.splits option.splits if_splits prod.splits confirmation.splits)
  with assms(1) show ?thesis by simp
qed

lemma track_strict:
  "sends_only (rl_gas cfg) call st \<Longrightarrow>
   track cfg jid n (map (strict_poll (rl_gas cfg) call) obs) st ns db = track cfg jid n obs st ns db"
proof (induction obs arbitrary: st ns db)
  case (Cons ob obs)
  obtain r st' ns' db' where step: "track_step cfg jid n ob st ns (ob_others ob db) = (r, st', ns', db')"
    by (metis prod_cases4)
  show ?case
    using Cons.IH [OF track_step_sends_only [OF Cons.prems step]]
    by (simp add: track_step_strict [OF Cons.prems] step split: option.splits)
qed simp

definition settlement_call :: "(bytes \<Rightarrow> b256) \<Rightarrow> job \<Rightarrow> bytes \<Rightarrow> b256 list \<Rightarrow> u64 \<Rightarrow> replaceable" where
  "settlement_call kec j pf ps estimate =
     \<lparr> rp_nonce = 0, rp_circuit = circuit_id kec (j_circuit_id j), rp_proof = pf, rp_public_inputs = ps,
       rp_gas_limit = gas_limit estimate \<rparr>"

definition strict_settle :: "gas_policy \<Rightarrow> replaceable \<Rightarrow> settle_obs \<Rightarrow> settle_obs" where
  "strict_settle p call so = so\<lparr> so_submit := strict_node p call (so_submit so) \<rparr>"

lemma strict_settle_sel [simp]:
  "so_submit (strict_settle p call so) = strict_node p call (so_submit so)"
  "so_nullifier (strict_settle p call so) = so_nullifier so" "so_estimate (strict_settle p call so) = so_estimate so"
  "so_fees (strict_settle p call so) = so_fees so" "so_pending (strict_settle p call so) = so_pending so"
  "so_record_up (strict_settle p call so) = so_record_up so" "so_clock (strict_settle p call so) = so_clock so"
  "o_up (strict_settle p call so) = o_up so" "o_now (strict_settle p call so) = o_now so"
  "o_read_up (strict_settle p call so) = o_read_up so" "o_jitter (strict_settle p call so) = o_jitter so"
  by (simp_all add: strict_settle_def)

lemma strict_settle_outcomes [simp]:
  "mark_settled_outcome cfg (strict_settle p call so) = mark_settled_outcome cfg so"
  "record_failure_outcome cfg (strict_settle p call so) = record_failure_outcome cfg so"
  "record_chain_failure cfg (strict_settle p call so) = record_chain_failure cfg so"
proof -
  show m: "mark_settled_outcome cfg (strict_settle p call so) = mark_settled_outcome cfg so"
    by (intro ext) (simp only: mark_settled_outcome_def strict_settle_sel)
  show r: "record_failure_outcome cfg (strict_settle p call so) = record_failure_outcome cfg so"
    by (intro ext) (simp only: record_failure_outcome_def m strict_settle_sel retry_attempt_def)
  show "record_chain_failure cfg (strict_settle p call so) = record_chain_failure cfg so"
    by (intro ext) (simp only: record_chain_failure_def m r)
qed

lemma settle_fresh_strict:
  assumes "so_estimate so = Inr est"
  shows "settle_fresh cfg kec (strict_settle (rl_gas cfg) (settlement_call kec j pf ps est) so) j pf ps n ns db
    = settle_fresh cfg kec so j pf ps n ns db"
proof -
  let ?c = "settlement_call kec j pf ps est"
  have "strict_node (rl_gas cfg) ?c (so_submit so) ?c m (initial_fees (rl_gas cfg) base tip)
      = so_submit so ?c m (initial_fees (rl_gas cfg) base tip)" for m base tip
    by (simp add: strict_node_def same_call_def initial_within_caps)
  then show ?thesis
    using assms unfolding settle_fresh_def Let_def settlement_call_def [symmetric] strict_settle_sel strict_settle_outcomes
    by (auto split: sum.splits bool.splits)
qed

lemma settle_fresh_tracking:
  assumes "settle_fresh cfg kec so j pf ps n ns db = (Tracking st n', ns', db')"
  shows "n' = n \<and> so_nullifier so n = Inr False \<and> (\<exists>est. so_estimate so = Inr est \<and>
    sends_only (rl_gas cfg) (settlement_call kec j pf ps est) st) \<and> tk_call st \<noteq> None \<and> tk_fees st \<noteq> None"
  using assms unfolding settle_fresh_def Let_def finish_def
  by (auto split: sum.splits bool.splits prod.splits simp: sends_only_def same_call_def settlement_call_def initial_within_caps)

end
