(* ===== verification/Relayer_Properties.thy ===== *)
theory Relayer_Properties
  imports Relayer_Facts
begin

text \<open>
  The properties of the submission loop: what it records is what the chain showed, it does not pay
  twice for what it knows to be on its way or done, its prices stay under the caps through every
  replacement, the reorg watch unwinds exactly what was lost, and when the tracker never returns.
\<close>

section \<open>A job to settle\<close>

definition sample_tx :: b256 where
  "sample_tx = replicate 32 (CHR ''t'')"

definition sample_nullifier :: b256 where
  "sample_nullifier = replicate 32 (CHR ''n'')"

definition submitting_db :: db where
  "submitting_db = run_store sample_hash leased_db
     [(3, OpBeginProving 7 ''w''), (4, OpRecordProof 7 ''w'' ''p'' sample_nullifier 1 None),
      (5, OpLeaseNextProved [] ''rel'' 500)]"

definition broadcast_db :: db where
  "broadcast_db = run_store sample_hash submitting_db [(6, OpRecordSubmission 7 sample_tx sample_nullifier)]"

definition sample_job :: job where
  "sample_job = from_row (sample_row\<lparr> j_state := S_Submitting, j_attempts := 1, j_submission_attempts := 1,
     j_leased_by := Some ''rel'', j_proof := Some ''p'', j_public_inputs := Some sample_nullifier,
     j_updated_at := 5 \<rparr>)"

definition sample_config :: relayer_config where
  "sample_config = new_relayer_config ''rel''"

text \<open>A poll at which the database answers and the transaction is in the block at height 10.\<close>

definition sample_poll :: track_obs where
  "sample_poll = \<lparr> o_now = 9, o_read_up = True, o_up = True, o_jitter = None, ob_others = (\<lambda>db. db),
     ob_clock = 0, ob_receipt = (\<lambda>_. Inr (Some \<lparr> r_block_number = Some 10, r_block_hash = Some ''b'',
       r_status = True, r_gas_used = 1, r_effective_gas_price = 2 \<rparr>)),
     ob_head = Inr 14, ob_block = (\<lambda>_. Inr (Some ''b'')), ob_nullifier = (\<lambda>_. Inr True),
     ob_nonce = Inr 0, ob_nonce_again = Inr 0, ob_submit = (\<lambda>_ _ _. Inl (ChainRpc ''nonce too low'')) \<rparr>"

definition sample_state :: track_state where
  "sample_state = \<lparr> tk_tx = sample_tx, tk_fees = None, tk_call = None, tk_since = 0 \<rparr>"

lemma sample_job_found: "job_by_id 7 broadcast_db = Some sample_job"
  by code_simp

section \<open>Outcomes\<close>

text \<open>
  Claim C12. A settlement is called final only when it is buried: the tracker reports \<open>Settled\<close> only
  after a poll in which the transaction it watches was mined and had succeeded, the block it was in
  was still the one the chain has at that height, and the head was deep enough above it.
\<close>
theorem settled_means_buried:
  assumes "track cfg jid n obs st ns db = (Some (Settled i), st', ns', db')"
  shows "i = jid \<and> job_in {S_Settled} jid db' \<and>
    (\<exists>ob m h. ob \<in> set obs \<and> mined (ob_receipt ob (tk_tx st')) = Inr (Some m) \<and> succeeded m \<and>
       ob_block ob (block_number m) = Inr (Some (block_hash m)) \<and> ob_head ob = Inr h \<and>
       min (unat h - unat (block_number m) + 1) (2 ^ 64 - 1) \<ge> unat (rl_confirmations cfg))"
proof -
  from track_ends [OF assms] obtain ob st1 ns1 db1 where ob: "ob \<in> set obs"
    and step: "track_step cfg jid n ob st1 ns1 (ob_others ob db1) = (Some (Settled i), st', ns', db')" by blast
  from track_step_ends [OF step] obtain m where st: "st' = st1"
    and m: "mined (ob_receipt ob (tk_tx st')) = Inr (Some m)" "succeeded m" and i: "i = jid"
    and c: "confirm cfg ob (ob_head ob) (ob_block ob (block_number m)) jid (tk_tx st1) m (ob_others ob db1) = (C_Settled, db')"
    using explain_revert_not_settled record_failure_not_settled by blast
  from confirm_cases [OF c] obtain h where h: "ob_head ob = Inr h" "rl_confirmations cfg \<le> depth_of h m"
    and b: "ob_block ob (block_number m) = Inr (Some (block_hash m))" and j: "job_in {S_Settled} jid db'"
    by (auto simp: job_in_def)
  have "min (unat h - unat (block_number m) + 1) (2 ^ 64 - 1) \<ge> unat (rl_confirmations cfg)"
    using h(2) by (simp add: depth_of_def word_le_nat_alt unat_ops)
  with ob m h(1) b i j show ?thesis by blast
qed

theorem settled_means_buried_witness:
  "job_in {S_Settled} 7 (snd (snd (snd (track sample_config 7 sample_nullifier [sample_poll] sample_state
     new_nonce_state broadcast_db))))"
proof -
  let ?r = "track sample_config 7 sample_nullifier [sample_poll] sample_state new_nonce_state broadcast_db"
  let ?m = "\<lparr> block_number = 10, block_hash = ''b'', succeeded = True, gas_used = 1, effective_gas_price = 2 \<rparr>"
  have m: "mined (ob_receipt sample_poll tx) = Inr (Some ?m)" for tx by (simp add: sample_poll_def)
  have d: "depth_of 14 ?m = 5" by (simp add: depth_of_def saturating_sub_def saturating_add_def)
  have "dec 2 = ''2''" by code_simp
  then have rc: "receipt_of 5 ?m = \<lparr> rc_block_number = 10, rc_confirmations = 5, rc_gas_used = Some 1,
      rc_effective_gas_price = Some ''2'' \<rparr>" by (simp add: receipt_of_def)
  have "case confirm_settlement 7 ''rel'' sample_tx \<lparr> rc_block_number = 10, rc_confirmations = 5,
      rc_gas_used = Some 1, rc_effective_gas_price = Some ''2'' \<rparr> 9 broadcast_db of Inr _ \<Rightarrow> True | Inl _ \<Rightarrow> False"
    by code_simp
  then obtain j db1 where "confirm_settlement 7 ''rel'' sample_tx (receipt_of 5 ?m) 9 broadcast_db = Inr (j, db1)"
    unfolding rc by (auto split: sum.splits)
  then have "confirm sample_config sample_poll (Inr 14) (Inr (Some ''b'')) 7 sample_tx ?m broadcast_db = (C_Settled, db1)"
    by (simp add: confirm_def d Let_def store_call_def sample_config_def new_relayer_config_def sample_poll_def)
  then have "fst ?r = Some (Settled 7)"
    by (simp add: track_step_def m sample_state_def) (simp add: sample_poll_def)
  then obtain st' ns' db' where r: "?r = (Some (Settled 7), st', ns', db')" by (metis prod.collapse)
  from settled_means_buried [OF r] show ?thesis unfolding r by simp
qed

text \<open>
  Claim C29. What a settlement reports is what it did to the tables, whether it ended before a broadcast
  or in the poll of the tracker that ended it: a settled outcome leaves the job settled, a permanent
  failure leaves it failed and a transient one in a queue or failed, each with the proof it had; a lost
  lease leaves the tables as they were. Every outcome is of the job that was leased, and none of them is an
  abandoned job.
\<close>
theorem outcomes_are_recorded:
  "(case settle cfg kec so j ns db of
      (Finished out, _, db') \<Rightarrow> recorded out db db' \<and> outcome_job_id out = j_id j
    | (Tracking _ _, _, _) \<Rightarrow> True) \<and>
   (case track cfg jid n obs st0 ns0 db0 of
      (Some out, _, _, db') \<Rightarrow> outcome_job_id out = jid \<and>
        (\<exists>pre ob post st1 ns1 db1. obs = pre @ ob # post \<and>
           track cfg jid n pre st0 ns0 db0 = (None, st1, ns1, db1) \<and> recorded out (ob_others ob db1) db')
    | (None, _, _, _) \<Rightarrow> True)"
proof -
  obtain res ns1 db1 where s: "settle cfg kec so j ns db = (res, ns1, db1)" by (metis prod_cases3)
  obtain out st ns2 db2 where t: "track cfg jid n obs st0 ns0 db0 = (out, st, ns2, db2)" by (metis prod_cases4)
  show ?thesis
    using settle_recorded [of cfg kec so j ns db] track_recorded [of cfg jid n obs st0 ns0 db0]
    unfolding s t by (cases res; cases out) simp_all
qed

section \<open>Paying once\<close>

text \<open>A call that carries the settlement of the job.\<close>

definition settles :: "(bytes \<Rightarrow> b256) \<Rightarrow> job \<Rightarrow> bytes \<Rightarrow> b256 list \<Rightarrow> replaceable \<Rightarrow> bool" where
  "settles kec j pf ps c \<longleftrightarrow>
     rp_circuit c = circuit_id kec (j_circuit_id j) \<and> rp_proof c = pf \<and> rp_public_inputs c = ps"

text \<open>
  A node that takes a transaction only in place of the pending one: the same settlement, when the tracked
  transaction has no receipt and has waited long enough, with the nonce of the pending one unless the chain
  shows a nonce below it.
\<close>

definition replacing ::
  "relayer_config \<Rightarrow> (bytes \<Rightarrow> b256) \<Rightarrow> job \<Rightarrow> bytes \<Rightarrow> b256 list \<Rightarrow> track_state \<Rightarrow> track_obs \<Rightarrow> track_obs" where
  "replacing cfg kec j pf ps st ob = ob\<lparr> ob_submit := (\<lambda>c m f.
     if settles kec j pf ps c \<and> mined (ob_receipt ob (tk_tx st)) = Inr None \<and>
        rl_stuck_after cfg \<le> ob_clock ob - tk_since st \<and>
        (case tk_call st of None \<Rightarrow> False
         | Some p \<Rightarrow> m = rp_nonce p \<or> (case ob_nonce ob of Inr k \<Rightarrow> k < rp_nonce p | Inl _ \<Rightarrow> False))
     then ob_submit ob c m f else Inl (ChainRpc ''refused'')) \<rparr>"

lemma same_call_settles: "same_call c d \<Longrightarrow> settles kec j pf ps c = settles kec j pf ps d"
  by (cases c; cases d) (simp add: same_call_def settles_def)

lemma replace_stuck_call:
  assumes "replace_stuck cfg ob jid c f st ns db = (st', ns', db')" and "tk_call st = Some c"
  shows "\<exists>c'. tk_call st' = Some c' \<and> same_call c' c"
  using assms by (auto simp: replace_stuck_def same_call_def split: prod.splits sum.splits bump_result.splits if_splits)

lemma track_step_call:
  assumes "track_step cfg jid n ob st ns db = (r, st', ns', db')"
  shows "tk_call st' = tk_call st \<or> (\<exists>c c'. tk_call st = Some c \<and> tk_call st' = Some c' \<and> same_call c' c)"
proof (cases "\<exists>c f. tk_call st = Some c \<and> replace_stuck cfg ob jid c f st ns db = (st', ns', db')")
  case True
  then show ?thesis using replace_stuck_call by blast
next
  case False
  with assms have "st' = st"
    unfolding track_step_def
    by (auto split: sum.splits option.splits if_splits prod.splits confirmation.splits)
  then show ?thesis by simp
qed

definition carries :: "(bytes \<Rightarrow> b256) \<Rightarrow> job \<Rightarrow> bytes \<Rightarrow> b256 list \<Rightarrow> track_state \<Rightarrow> bool" where
  "carries kec j pf ps st \<longleftrightarrow> (case tk_call st of None \<Rightarrow> True | Some c \<Rightarrow> settles kec j pf ps c)"

lemma track_carries:
  "track cfg jid n obs st ns db = (r, st', ns', db') \<Longrightarrow> carries kec j pf ps st \<Longrightarrow> carries kec j pf ps st'"
proof (induction obs arbitrary: st ns db)
  case (Cons ob obs)
  obtain r1 st1 ns1 db1 where step: "track_step cfg jid n ob st ns (ob_others ob db) = (r1, st1, ns1, db1)"
    by (metis prod_cases4)
  have "carries kec j pf ps st1"
    using track_step_call [OF step] Cons.prems(2) same_call_settles
    by (fastforce simp: carries_def split: option.splits)
  with Cons step show ?case by (auto split: option.splits)
qed simp

lemma replacing_sel:
  "ob_clock (replacing cfg kec j pf ps st ob) = ob_clock ob" "ob_receipt (replacing cfg kec j pf ps st ob) = ob_receipt ob"
  "ob_head (replacing cfg kec j pf ps st ob) = ob_head ob" "ob_block (replacing cfg kec j pf ps st ob) = ob_block ob"
  "ob_nullifier (replacing cfg kec j pf ps st ob) = ob_nullifier ob" "ob_nonce (replacing cfg kec j pf ps st ob) = ob_nonce ob"
  "ob_nonce_again (replacing cfg kec j pf ps st ob) = ob_nonce_again ob"
  "o_up (replacing cfg kec j pf ps st ob) = o_up ob" "o_now (replacing cfg kec j pf ps st ob) = o_now ob"
  "o_read_up (replacing cfg kec j pf ps st ob) = o_read_up ob" "o_jitter (replacing cfg kec j pf ps st ob) = o_jitter ob"
  by (simp_all add: replacing_def)

lemma replacing_outcomes:
  "record_failure_outcome cfg (replacing c kec j pf ps st ob) = record_failure_outcome cfg ob"
  "explain_revert cfg (replacing c kec j pf ps st ob) = explain_revert cfg ob"
  "confirm cfg (replacing c kec j pf ps st ob) = confirm cfg ob"
  "record_replacement (replacing c kec j pf ps st ob) = record_replacement ob"
proof -
  have m: "mark_settled_outcome cfg (replacing c kec j pf ps st ob) = mark_settled_outcome cfg ob"
    by (intro ext) (simp only: mark_settled_outcome_def replacing_sel)
  show r: "record_failure_outcome cfg (replacing c kec j pf ps st ob) = record_failure_outcome cfg ob"
    by (intro ext) (simp only: record_failure_outcome_def m replacing_sel retry_attempt_def)
  show "explain_revert cfg (replacing c kec j pf ps st ob) = explain_revert cfg ob"
    by (intro ext) (simp only: explain_revert_def m r)
  show "confirm cfg (replacing c kec j pf ps st ob) = confirm cfg ob"
    by (intro ext) (simp only: confirm_def replacing_sel)
  show "record_replacement (replacing c kec j pf ps st ob) = record_replacement ob"
    by (intro ext) (simp only: record_replacement_def replacing_sel)
qed

lemma replace_stuck_replacing:
  assumes "tk_call st = Some c" and "settles kec j pf ps c" and "mined (ob_receipt ob (tk_tx st)) = Inr None"
    and "rl_stuck_after cfg \<le> ob_clock ob - tk_since st"
  shows "replace_stuck cfg (replacing cfg kec j pf ps st ob) jid c f st ns db = replace_stuck cfg ob jid c f st ns db"
proof -
  have gap: "ob_submit (replacing cfg kec j pf ps st ob) c m g = ob_submit ob c m g"
    if "case ob_nonce ob of Inr k \<Rightarrow> k < rp_nonce c | Inl _ \<Rightarrow> False" for m g
    using assms that by (simp add: replacing_def)
  have bump: "ob_submit (replacing cfg kec j pf ps st ob) c (rp_nonce c) g = ob_submit ob c (rp_nonce c) g" for g
    using assms by (simp add: replacing_def)
  show ?thesis
    unfolding replace_stuck_def replacing_sel replacing_outcomes bump
    by (rule if_cong) (simp_all only: gap)
qed

lemma track_step_replacing:
  assumes "carries kec j pf ps st"
  shows "track_step cfg jid n (replacing cfg kec j pf ps st ob) st ns db = track_step cfg jid n ob st ns db"
  using assms replace_stuck_replacing [of st _ kec j pf ps ob cfg jid _ ns db]
  unfolding track_step_def replacing_sel replacing_outcomes carries_def
  by (auto split: sum.splits option.splits)

text \<open>
  Claim C14. A broadcast on record is not paid for again. When the store answers and shows an earlier
  broadcast of the job that no reorg removed, a new attempt takes up that transaction: it sends nothing,
  whatever the node would answer, and changes neither the nonce nor the tables. From then on, through any
  polls of the tracker with any answers and other processes in between, a transaction is sent only in place
  of the one it tracks: the same settlement, after that one has had no receipt for the stuck time, and with
  its nonce unless the poll showed the chain's nonce below it; nothing at all when the node does not know
  the transaction's terms. That the store answers is needed: when this read fails the job is settled afresh
  (finding at relayer.rs:424).
\<close>
theorem live_broadcast_is_resumed:
  assumes "j_proof j = Some pf" and "j_public_inputs j = Some ib" and "public_inputs_from_bytes ib = Some ps"
    and "so_settlements_up so" and "latest_settlement (j_id j) db = Some s" and "s_reorged_at s = None"
    and "length (s_tx_hash s) = 32"
  shows "\<exists>st. (\<forall>submit. settle cfg kec (so\<lparr> so_submit := submit \<rparr>) j ns db = (Tracking st (last ps), ns, db)) \<and>
    tk_tx st = s_tx_hash s \<and> (so_terms so (s_tx_hash s) = Inr None \<longrightarrow> tk_call st = None) \<and>
    (\<forall>pre st1 ns1 db1 ns0 db0 ob. track cfg jid n pre st ns0 db0 = (None, st1, ns1, db1) \<longrightarrow>
       track_step cfg jid n (replacing cfg kec j pf ps st1 ob) st1 ns1 (ob_others ob db1)
         = track_step cfg jid n ob st1 ns1 (ob_others ob db1))"
proof -
  have "ps \<noteq> []"
    using assms(3) chunks_32_whole [of ib] by (auto simp: public_inputs_from_bytes_def split: if_splits)
  moreover obtain st where r: "resume kec so j pf ps db = Some st" and tx: "tk_tx st = s_tx_hash s"
    and terms: "so_terms so (s_tx_hash s) = Inr None \<longrightarrow> tk_call st = None" and c: "carries kec j pf ps st"
    using assms
    by (auto simp: resume_def to_b256_def Let_def carries_def settles_def split: sum.splits option.splits)
  have "resume kec (so\<lparr> so_submit := submit \<rparr>) j pf ps db = Some st" for submit
  proof -
    have sel: "so_terms (so\<lparr> so_submit := submit \<rparr>) = so_terms so" "so_estimate (so\<lparr> so_submit := submit \<rparr>) = so_estimate so"
      "so_clock (so\<lparr> so_submit := submit \<rparr>) = so_clock so"
      "so_settlements_up (so\<lparr> so_submit := submit \<rparr>) = so_settlements_up so" by simp_all
    show ?thesis unfolding r [symmetric] resume_def sel by (rule refl)
  qed
  ultimately have "settle cfg kec (so\<lparr> so_submit := submit \<rparr>) j ns db = (Tracking st (last ps), ns, db)" for submit
    using assms(1-3) by (simp add: settle_def Let_def)
  note sent = this
  show ?thesis
  proof (intro exI [of _ st] conjI allI impI)
    fix pre st1 ns1 db1 ns0 db0 ob
    assume "track cfg jid n pre st ns0 db0 = (None, st1, ns1, db1)"
    from track_step_replacing [OF track_carries [OF this c]]
    show "track_step cfg jid n (replacing cfg kec j pf ps st1 ob) st1 ns1 (ob_others ob db1)
      = track_step cfg jid n ob st1 ns1 (ob_others ob db1)" .
  qed (use sent tx terms in simp_all)
qed

definition sample_settle :: settle_obs where
  "sample_settle = \<lparr> o_now = 9, o_read_up = True, o_up = True, o_jitter = None, so_settlements_up = True,
     so_terms = (\<lambda>_. Inr None), so_estimate = Inr 100000, so_nullifier = (\<lambda>_. Inr False),
     so_fees = Inr (3, 1), so_pending = Inr 4, so_submit = (\<lambda>_ _ _. Inr (replicate 32 (CHR ''u''))),
     so_record_up = True, so_clock = 0 \<rparr>"

text \<open>The node knows the terms; after the stuck time the transaction is replaced by one with its nonce.\<close>

definition resume_settle :: settle_obs where
  "resume_settle = sample_settle\<lparr> so_terms := (\<lambda>_. Inr (Some (3, 1000, Some 100))) \<rparr>"

definition stuck_poll :: track_obs where
  "stuck_poll = sample_poll\<lparr> ob_clock := seconds 600, ob_receipt := (\<lambda>_. Inr None),
     ob_nonce := Inr 3, ob_submit := (\<lambda>c m f. Inr (replicate 32 (CHR ''v''))) \<rparr>"

definition resumed_state :: track_state where
  "resumed_state = \<lparr> tk_tx = sample_tx, tk_fees = Some \<lparr> max_fee_per_gas = 1000, max_priority_fee_per_gas = 100 \<rparr>,
     tk_call = Some \<lparr> rp_nonce = 3, rp_circuit = circuit_id (\<lambda>b. b) (j_circuit_id sample_job), rp_proof = ''p'',
       rp_public_inputs = [sample_nullifier], rp_gas_limit = gas_limit 100000 \<rparr>, tk_since = 0 \<rparr>"

theorem live_broadcast_is_resumed_witness:
  "settle sample_config (\<lambda>b. b) resume_settle sample_job new_nonce_state broadcast_db
     = (Tracking resumed_state sample_nullifier, new_nonce_state, broadcast_db) \<and>
   (let ob = replacing sample_config (\<lambda>b. b) sample_job ''p'' [sample_nullifier] resumed_state stuck_poll in
    tk_tx (fst (snd (track_step sample_config 7 sample_nullifier ob resumed_state new_nonce_state broadcast_db)))
      = replicate 32 (CHR ''v''))"
proof -
  have l: "latest_settlement 7 broadcast_db = Some \<lparr> s_job_id = 7, s_tx_hash = sample_tx, s_nullifier = sample_nullifier,
      s_block_number = None, s_confirmations = 0, s_gas_used = None, s_effective_gas_price = None,
      s_reorged_at = None \<rparr>" by code_simp
  have j: "j_proof sample_job = Some ''p''" "j_public_inputs sample_job = Some sample_nullifier"
    "public_inputs_from_bytes sample_nullifier = Some [sample_nullifier]" "j_id sample_job = 7"
    "length sample_tx = 32" by code_simp+
  have up: "so_settlements_up resume_settle" by (simp add: resume_settle_def sample_settle_def)
  have l': "latest_settlement (j_id sample_job) broadcast_db = Some \<lparr> s_job_id = 7, s_tx_hash = sample_tx,
      s_nullifier = sample_nullifier, s_block_number = None, s_confirmations = 0, s_gas_used = None,
      s_effective_gas_price = None, s_reorged_at = None \<rparr>" using l j(4) by simp
  have s: "settle sample_config (\<lambda>b. b) resume_settle sample_job new_nonce_state broadcast_db
     = (Tracking resumed_state sample_nullifier, new_nonce_state, broadcast_db)"
    using l j by (simp add: settle_def resume_def resume_settle_def sample_settle_def to_b256_def
        resumed_state_def Let_def)
  from live_broadcast_is_resumed [OF j(1-3) up l' _ , of sample_config "\<lambda>b. b" new_nonce_state 7 sample_nullifier] j(5)
  obtain st where st: "settle sample_config (\<lambda>b. b) (resume_settle\<lparr> so_submit := so_submit resume_settle \<rparr>) sample_job
      new_nonce_state broadcast_db = (Tracking st (last [sample_nullifier]), new_nonce_state, broadcast_db)"
    and rest: "\<forall>pre st1 ns1 db1 ns0 db0 ob. track sample_config 7 sample_nullifier pre st ns0 db0 = (None, st1, ns1, db1) \<longrightarrow>
      track_step sample_config 7 sample_nullifier
        (replacing sample_config (\<lambda>b. b) sample_job ''p'' [sample_nullifier] st1 ob) st1 ns1 (ob_others ob db1)
      = track_step sample_config 7 sample_nullifier ob st1 ns1 (ob_others ob db1)"
    by (simp only: settlement.simps) blast
  from st s have "st = resumed_state" by simp
  with rest have same: "track_step sample_config 7 sample_nullifier
      (replacing sample_config (\<lambda>b. b) sample_job ''p'' [sample_nullifier] resumed_state stuck_poll)
      resumed_state new_nonce_state (ob_others stuck_poll broadcast_db)
    = track_step sample_config 7 sample_nullifier stuck_poll resumed_state new_nonce_state (ob_others stuck_poll broadcast_db)"
    using track.simps(1) by blast
  have sent: "tk_tx (fst (snd (track_step sample_config 7 sample_nullifier stuck_poll resumed_state new_nonce_state
      broadcast_db))) = replicate 32 (CHR ''v'')"
  proof -
    have "bump default_gas_policy \<lparr> max_fee_per_gas = 1000, max_priority_fee_per_gas = 100 \<rparr>
        = BumpTo \<lparr> max_fee_per_gas = 1250, max_priority_fee_per_gas = 125 \<rparr>"
      by (rule bump_To_eval) (simp_all add: default_gas_policy_def unat_raise_fee required_fee_def)
    then show ?thesis
      by (simp add: track_step_def replace_stuck_def stuck_poll_def sample_poll_def resumed_state_def
          sample_config_def new_relayer_config_def)
  qed
  have others: "ob_others stuck_poll broadcast_db = broadcast_db" by (simp add: stuck_poll_def sample_poll_def)
  show ?thesis unfolding Let_def same [unfolded others] sent using s by blast
qed

text \<open>
  Everything a settlement sends is the one call it set out to make, at a price within both
  caps, and only after the node said the nullifier is unused: a node that refuses everything else, at
  the first broadcast and at every poll of the tracker, changes nothing, through any number of bumps
  and resubmissions.
\<close>
theorem only_capped_calls_are_sent:
  assumes "so_estimate so = Inr est" and "settle_fresh cfg kec so j pf ps n ns db = (Tracking st n', ns1, db1)"
  shows "settle_fresh cfg kec (strict_settle (rl_gas cfg) (settlement_call kec j pf ps est) so) j pf ps n ns db
      = (Tracking st n', ns1, db1) \<and>
    track cfg jid n (map (strict_poll (rl_gas cfg) (settlement_call kec j pf ps est)) obs) st ns2 db2
      = track cfg jid n obs st ns2 db2 \<and>
    so_nullifier so n = Inr False"
  using settle_fresh_tracking [OF assms(2)] settle_fresh_strict [OF assms(1)] assms
  by (auto intro: track_strict)

theorem only_capped_calls_are_sent_witness:
  "\<exists>st. track sample_config 7 sample_nullifier
      (map (strict_poll (rl_gas sample_config) (settlement_call (\<lambda>b. b) sample_job ''p'' [sample_nullifier] 100000))
        [sample_poll]) st new_nonce_state submitting_db
    = track sample_config 7 sample_nullifier [sample_poll] st new_nonce_state submitting_db \<and> tk_call st \<noteq> None"
proof -
  have "\<exists>st ns1 db1. settle_fresh sample_config (\<lambda>b. b) sample_settle sample_job ''p'' [sample_nullifier] sample_nullifier
      new_nonce_state submitting_db = (Tracking st sample_nullifier, ns1, db1)"
    by (simp add: settle_fresh_def sample_settle_def broadcast_def new_nonce_state_def Let_def)
  then obtain st ns1 db1 where f: "settle_fresh sample_config (\<lambda>b. b) sample_settle sample_job ''p'' [sample_nullifier]
      sample_nullifier new_nonce_state submitting_db = (Tracking st sample_nullifier, ns1, db1)" by blast
  have e: "so_estimate sample_settle = Inr 100000" by (simp add: sample_settle_def)
  have "tk_call st \<noteq> None" using settle_fresh_tracking [OF f] by blast
  with only_capped_calls_are_sent [OF e f, of 7 "[sample_poll]" new_nonce_state submitting_db]
  show ?thesis by blast
qed

section \<open>When the tracker does not return\<close>

text \<open>A poll that shows nothing of the transaction and at which the node refuses every replacement.\<close>

definition silent :: "b256 \<Rightarrow> track_obs \<Rightarrow> bool" where
  "silent tx ob \<longleftrightarrow> (case mined (ob_receipt ob tx) of Inr (Some _) \<Rightarrow> False | _ \<Rightarrow> True) \<and>
     (\<forall>c n f h. ob_submit ob c n f \<noteq> Inr h)"

lemma list_all_replicate: "P x \<Longrightarrow> list_all P (replicate k x)"
  by (induction k) simp_all

lemma broadcast_refused:
  "(\<And>n h. submit n \<noteq> Inr h) \<Longrightarrow> \<exists>s' f. broadcast p submit s = (s', Inl f)"
  by (auto simp: broadcast_def Let_def split: option.splits sum.splits)

lemma track_step_silent:
  assumes "silent (tk_tx st) ob"
  shows "\<exists>ns'. track_step cfg jid n ob st ns db = (None, st, ns', db)"
proof -
  have no: "ob_submit ob c m f \<noteq> Inr h" for c m f h using assms by (simp add: silent_def)
  have r: "\<exists>ns'. replace_stuck cfg ob jid c f st ns db = (st, ns', db)" for c f
    using broadcast_refused [of "\<lambda>m. ob_submit ob c m f" "ob_nonce_again ob" "invalidate ns", OF no]
    by (auto simp: replace_stuck_def no split: bump_result.splits sum.splits)
  show ?thesis
    using assms r by (auto simp: track_step_def silent_def split: sum.splits option.splits)
qed

text \<open>
  Claim C35. The tracker waits for ever for a transaction that cannot be mined any more. It looks only
  at the receipt of the last transaction it knows: as long as that one is not mined and the node takes
  no replacement, no number of polls ends it, whatever the chain says of the nullifier, of the account's
  nonce or of the transaction it replaced.
\<close>
theorem tracker_can_wait_for_ever:
  assumes "list_all (silent (tk_tx st)) obs"
  shows "\<exists>ns'. track cfg jid n obs st ns db = (None, st, ns', fold ob_others obs db)"
  using assms
proof (induction obs arbitrary: ns db)
  case (Cons ob obs)
  then have "silent (tk_tx st) ob" by simp
  from track_step_silent [OF this, of cfg jid n ns "ob_others ob db"] Cons show ?case by auto
qed simp

theorem tracker_can_wait_for_ever_witness:
  "fst (track sample_config 7 sample_nullifier
     (replicate 1000 (sample_poll\<lparr> ob_receipt := (\<lambda>tx. if tx = sample_tx then ob_receipt sample_poll tx else Inr None) \<rparr>))
     (sample_state\<lparr> tk_tx := replicate 32 (CHR ''u'') \<rparr>) new_nonce_state broadcast_db) = None"
proof -
  let ?st = "sample_state\<lparr> tk_tx := replicate 32 (CHR ''u'') \<rparr>"
  let ?ob = "sample_poll\<lparr> ob_receipt := (\<lambda>tx. if tx = sample_tx then ob_receipt sample_poll tx else Inr None) \<rparr>"
  have ne: "tk_tx ?st \<noteq> sample_tx" by (simp add: sample_tx_def replicate_eq_replicate)
  then have "silent (tk_tx ?st) ?ob" by (simp add: silent_def) (simp add: sample_poll_def)
  then have "list_all (silent (tk_tx ?st)) (replicate 1000 ?ob)" by (rule list_all_replicate)
  from tracker_can_wait_for_ever [OF this, of sample_config 7 sample_nullifier new_nonce_state broadcast_db]
  show ?thesis by (elim exE) (simp only: fst_conv)
qed

section \<open>The reorg watch\<close>

text \<open>The watch lost sight of a settlement of the job: its nullifier is free again on chain.\<close>

definition lost :: "(b256 \<Rightarrow> string + bool) \<Rightarrow> (uuid \<times> bytes \<times> bytes) list \<Rightarrow> uuid \<Rightarrow> bool" where
  "lost used ws jid \<longleftrightarrow> list_ex (\<lambda>(i, tx, n). i = jid \<and> length n = 32 \<and> used n = Inr False) ws"

definition settlements_valid :: "db \<Rightarrow> bool" where
  "settlements_valid db \<longleftrightarrow> list_all (satisfies settlement_checks) (settlements_tbl db)"

text \<open>A row the watch may meet: settled, or unwound by an earlier entry of the same pass.\<close>

definition watchable :: "uuid \<Rightarrow> db \<Rightarrow> bool" where
  "watchable jid db \<longleftrightarrow> (case find_job jid db of
     Some r \<Rightarrow> j_state r \<in> {S_Settled, S_Proved} \<and> satisfies job_checks r | None \<Rightarrow> False)"

lemma reorged_settlements:
  assumes "settlements_valid db"
  shows "\<exists>ss. update_settlements p (\<lambda>s. s\<lparr> s_reorged_at := Some now, s_confirmations := 0 \<rparr>) now db
      = Inr (db\<lparr> settlements_tbl := ss \<rparr>) \<and> settlements_valid (db\<lparr> settlements_tbl := ss \<rparr>)"
proof -
  let ?g = "\<lambda>s. s\<lparr> s_reorged_at := Some now, s_confirmations := 0, s_updated_at := now \<rparr>"
  have ok: "satisfies settlement_checks s \<Longrightarrow> satisfies settlement_checks (?g s)" for s
    by (simp add: satisfies_def settlement_checks_def)
  then have "find (\<lambda>s. p s \<and> \<not> satisfies settlement_checks (?g s)) (settlements_tbl db) = None"
    using assms by (auto simp: find_None_set settlements_valid_def list_all_iff)
  moreover have "settlements_valid (db\<lparr> settlements_tbl := update_where p ?g (settlements_tbl db) \<rparr>)"
    using assms ok by (auto simp: settlements_valid_def list_all_iff set_update_where)
  ultimately show ?thesis
    by (intro exI [of _ "update_where p ?g (settlements_tbl db)"]) (simp add: update_settlements_def Let_def)
qed

lemma reorged_row:
  assumes "find_job jid db = Some r" and "j_state r = S_Settled" and "satisfies job_checks r"
  shows "\<exists>j db'. apply_event_in_tx jid E_Reorged ac d now db = Inr (j, db') \<and> job_in {S_Proved} jid db' \<and>
    watchable jid db' \<and> settlements_tbl db' = settlements_tbl db \<and> (\<forall>i. i \<noteq> jid \<longrightarrow> find_job i db' = find_job i db)"
proof -
  let ?r' = "r\<lparr> j_state := S_Proved, j_leased_by := None, j_lease_expires_at := None,
      j_last_error := (case d of Some d \<Rightarrow> Some d | None \<Rightarrow> j_last_error r), j_updated_at := now \<rparr>"
  let ?db' = "insert_transition jid S_Settled E_Reorged S_Proved ac d now
      (db\<lparr> jobs_tbl := update_where (\<lambda>x. j_id x = jid) (\<lambda>_. ?r') (jobs_tbl db) \<rparr>)"
  have ok: "satisfies job_checks ?r'"
    using assms(2,3) by (simp add: satisfies_def job_checks_def)
  have run: "apply_event_in_tx jid E_Reorged ac d now db = Inr (from_row ?r', ?db')"
    using assms(1,2) ok check_row_ok [of job_checks ?r']
    by (simp add: apply_event_in_tx_def transition_or_def update_job_def Let_def)
  have "j_id ?r' = jid" using find_job_id [OF assms(1)] by simp
  from logged_row [OF assms(1) this refl, of _ S_Settled E_Reorged S_Proved ac d now] run ok
  show ?thesis by (auto simp: job_in_def watchable_def)
qed

lemma reorg_one:
  assumes "o_up ob" and "settlements_valid db" and "watchable jid db"
  shows "\<exists>db'. snd (store_call (o_up ob) db (record_reorg jid w tx (o_now ob) db)) = db' \<and>
    job_in {S_Proved} jid db' \<and> watchable jid db' \<and> settlements_valid db' \<and>
    (\<forall>i. i \<noteq> jid \<longrightarrow> find_job i db' = find_job i db)"
proof -
  from assms(3) obtain r where r: "find_job jid db = Some r" "j_state r \<in> {S_Settled, S_Proved}" "satisfies job_checks r"
    by (auto simp: watchable_def split: option.splits)
  obtain ss where ss: "update_settlements (\<lambda>s. s_job_id s = jid \<and> s_tx_hash s = tx)
      (\<lambda>s. s\<lparr> s_reorged_at := Some (o_now ob), s_confirmations := 0 \<rparr>) (o_now ob) db
      = Inr (db\<lparr> settlements_tbl := ss \<rparr>)" and v: "settlements_valid (db\<lparr> settlements_tbl := ss \<rparr>)"
    using reorged_settlements [OF assms(2)] by blast
  show ?thesis
  proof (cases "j_state r = S_Settled")
    case True
    have "find_job jid (db\<lparr> settlements_tbl := ss \<rparr>) = Some r" using r(1) by simp
    from reorged_row [OF this True r(3), of "Some w" "Some ''settlement removed by a chain reorganisation''" "o_now ob"]
    obtain j db' where e: "apply_event_in_tx jid E_Reorged (Some w)
        (Some ''settlement removed by a chain reorganisation'') (o_now ob) (db\<lparr> settlements_tbl := ss \<rparr>) = Inr (j, db')"
      and res: "job_in {S_Proved} jid db'" "watchable jid db'" "settlements_tbl db' = ss"
        "\<forall>i. i \<noteq> jid \<longrightarrow> find_job i db' = find_job i db" by auto
    have "snd (store_call (o_up ob) db (record_reorg jid w tx (o_now ob) db)) = db'"
      using assms(1) by (simp add: record_reorg_def ss store_call_def e)
    with res v show ?thesis by (simp add: settlements_valid_def)
  next
    case False
    with r have "apply_event_in_tx jid E_Reorged ac d now (db\<lparr> settlements_tbl := ss \<rparr>)
        = Inl (IllegalTransitionError (IllegalTransition S_Proved E_Reorged))" for ac d now
      by (simp add: apply_event_in_tx_def transition_or_def)
    with False r assms show ?thesis
      by (simp add: record_reorg_def ss store_call_def job_in_def)
  qed
qed

lemma watchable_other: "find_job i db' = find_job i db \<Longrightarrow> watchable i db' = watchable i db"
  by (simp add: watchable_def)

lemma reorg_pass_result:
  assumes "o_up ob" and "settlements_valid db" and "list_all (\<lambda>(i, tx, n). watchable i db) ws"
  shows "if lost used ws jid then job_in {S_Proved} jid (reorg_pass w ob used ws db)
    else find_job jid (reorg_pass w ob used ws db) = find_job jid db"
  using assms(2,3)
proof (induction ws arbitrary: db)
  case (Cons x ws)
  obtain i tx n where x: "x = (i, tx, n)" by (cases x)
  show ?case
  proof (cases "length n = 32 \<and> used n = Inr False")
    case True
    obtain db' where db': "snd (store_call (o_up ob) db (record_reorg i w tx (o_now ob) db)) = db'"
      and res: "job_in {S_Proved} i db'" "watchable i db'" "settlements_valid db'"
        "\<And>k. k \<noteq> i \<Longrightarrow> find_job k db' = find_job k db"
      using reorg_one [OF assms(1) Cons.prems(1), of i w tx] Cons.prems(2) x by auto
    have "list_all (\<lambda>(i, tx, n). watchable i db') ws"
      using Cons.prems(2) res(2) watchable_other [OF res(4)] x unfolding list_all_iff by fastforce
    note rest = Cons.IH [OF res(3) this]
    have "reorg_pass w ob used (x # ws) db = reorg_pass w ob used ws db'"
      using True by (simp add: x to_b256_def db')
    moreover have "lost used (x # ws) jid \<longleftrightarrow> i = jid \<or> lost used ws jid"
      using True by (simp add: lost_def x)
    ultimately show ?thesis
      using rest res(1) res(4) [of jid] by (auto simp: job_in_def split: if_splits)
  next
    case False
    then show ?thesis
      using Cons x by (auto simp: lost_def to_b256_def split: sum.splits bool.splits if_splits)
  qed
qed (simp add: lost_def)

lemma watched_watchable:
  assumes "store_ok db"
  shows "list_all (\<lambda>(i, tx, n). watchable i db) (settlements_to_watch d now db)"
proof -
  have "watchable (s_job_id s) db" if "settlement_in_state S_Settled db s" for s
    using that store_ok_row [OF assms, of "s_job_id s"]
    by (auto simp: settlement_in_state_def watchable_def row_ok_def split: option.splits)
  then show ?thesis
    by (auto simp: settlements_to_watch_def list_all_iff settlement_triple_def)
qed

text \<open>
  Claim C36. A tick of the reorg watch unwinds exactly what was lost: a job with a watched settlement
  whose nullifier the chain no longer has goes back to \<open>proved\<close>, with everything needed to submit it
  again, and no other job changes in any column; a nullifier the node could not answer for counts as
  not lost.
\<close>
theorem reorg_watch_unwinds_exactly_the_lost:
  assumes "store_ok db" and "settlements_valid db" and "o_up ob" and "o_read_up ob"
  shows "if lost used (settlements_to_watch (interval_of (rl_reorg_watch_window cfg)) (o_now ob) db) jid
    then job_in {S_Proved} jid (reorg_watch_tick cfg ob used db)
    else find_job jid (reorg_watch_tick cfg ob used db) = find_job jid db"
  using reorg_pass_result [OF assms(3,2) watched_watchable [OF assms(1)]] assms(4)
  by (simp add: reorg_watch_tick_def)

definition settled_db :: db where
  "settled_db = run_store sample_hash broadcast_db
     [(9, OpConfirmSettlement 7 ''rel'' sample_tx \<lparr> rc_block_number = 10, rc_confirmations = 5, rc_gas_used = None,
        rc_effective_gas_price = None \<rparr>)]"

theorem reorg_watch_unwinds_exactly_the_lost_witness:
  "job_in {S_Settled} 7 settled_db \<and>
   job_in {S_Proved} 7 (reorg_watch_tick sample_config sample_poll (\<lambda>_. Inr False) settled_db)"
proof -
  have ok: "store_ok settled_db"
    unfolding settled_db_def broadcast_db_def submitting_db_def by (intro run_store_ok sample_ok)
  have v: "settlements_valid settled_db" by code_simp
  have w: "settlements_to_watch 600000000 9 settled_db = [(7, sample_tx, sample_nullifier)]" by code_simp
  have i: "interval_of (rl_reorg_watch_window sample_config) = 600000000"
    by (simp add: interval_of_def sample_config_def new_relayer_config_def)
  have l: "lost (\<lambda>_. Inr False) [(7, sample_tx, sample_nullifier)] 7" by code_simp
  have "job_in {S_Settled} 7 settled_db" by code_simp
  with reorg_watch_unwinds_exactly_the_lost [OF ok v, of sample_poll "\<lambda>_. Inr False" sample_config 7] l
  show ?thesis by (simp add: sample_poll_def i w)
qed

end

