(* ===== verification/Bounded.thy ===== *)
theory Bounded
  imports Backoff Rust_Std
begin

text \<open>
  Running a subprocess under bounds, \<open>crates/dray-worker/src/bounded.rs\<close>: the script that is handed to
  the shell, what the end of the process means, the peak memory read from the kernel, and the text kept
  of its error output. The process itself is outside: how it ended is an argument. A \<open>str\<close> is its UTF-8
  bytes.
\<close>

section \<open>Bounds and errors\<close>

record bounds =
  wall_clock :: duration
  address_space_kb :: u64
  cpu_seconds :: u64

definition for_proving :: bounds where
  "for_proving = \<lparr> wall_clock = seconds 120, address_space_kb = 4 * 1024 * 1024, cpu_seconds = 100 \<rparr>"

definition for_preparation :: bounds where
  "for_preparation = \<lparr> wall_clock = seconds 600, address_space_kb = 8 * 1024 * 1024, cpu_seconds = 550 \<rparr>"

datatype bounded_error =
    WallClockExceeded duration
  | AddressSpaceExceeded u64
  | CpuExceeded u64
  | Killed int
  | ExitFailed int string
  | SpawnFailed string

fun is_transient :: "bounded_error \<Rightarrow> bool" where
  "is_transient (WallClockExceeded _) = True"
| "is_transient (AddressSpaceExceeded _) = True"
| "is_transient (CpuExceeded _) = True"
| "is_transient (Killed _) = True"
| "is_transient (SpawnFailed _) = True"
| "is_transient (ExitFailed _ _) = False"

fun bounded_label :: "bounded_error \<Rightarrow> string" where
  "bounded_label (WallClockExceeded _) = ''timeout''"
| "bounded_label (AddressSpaceExceeded _) = ''oom''"
| "bounded_label (CpuExceeded _) = ''cpu_exhausted''"
| "bounded_label (Killed _) = ''killed''"
| "bounded_label (ExitFailed _ _) = ''nonzero_exit''"
| "bounded_label (SpawnFailed _) = ''spawn_failed''"

text \<open>
  \<open>{:?}\<close> of a \<open>Duration\<close>: the largest unit with a whole part, and the rest as decimals without
  trailing zeros.
\<close>

fun decimals :: "nat \<Rightarrow> nat \<Rightarrow> string" where
  "decimals 0 rest = []"
| "decimals (Suc width) rest =
     (if rest = 0 then [] else digit_char (rest div 10 ^ width) # decimals width (rest mod 10 ^ width))"

definition decimal :: "nat \<Rightarrow> nat \<Rightarrow> nat \<Rightarrow> string" where
  "decimal whole width rest =
     dec whole @ (if rest = 0 then [] else CHR ''.'' # decimals width rest)"

definition debug_duration :: "duration \<Rightarrow> string" where
  "debug_duration d =
     (if 10 ^ 9 \<le> d then decimal (d div 10 ^ 9) 9 (d mod 10 ^ 9) @ ''s''
      else if 10 ^ 6 \<le> d then decimal (d div 10 ^ 6) 6 (d mod 10 ^ 6) @ ''ms''
      else if 10 ^ 3 \<le> d then decimal (d div 10 ^ 3) 3 (d mod 10 ^ 3) @ [CHR 0xC2, CHR 0xB5, CHR ''s'']
      else dec d @ ''ns'')"

fun bounded_error_text :: "bounded_error \<Rightarrow> string" where
  "bounded_error_text (WallClockExceeded limit) =
     ''exceeded the '' @ debug_duration limit @ '' wall-clock limit and was killed''"
| "bounded_error_text (AddressSpaceExceeded limit_kb) =
     ''exceeded the '' @ dec (unat limit_kb) @ '' KB address-space limit''"
| "bounded_error_text (CpuExceeded limit_seconds) =
     ''exceeded the '' @ dec (unat limit_seconds) @ ''s CPU limit''"
| "bounded_error_text (Killed signal) = ''killed by signal '' @ dec_int signal"
| "bounded_error_text (ExitFailed code err) = ''exited with status '' @ dec_int code @ '': '' @ err"
| "bounded_error_text (SpawnFailed e) = ''could not run the process: '' @ e"

section \<open>The script\<close>

definition shell_quote :: "string \<Rightarrow> string" where
  "shell_quote v =
     CHR 0x27 # concat (map (\<lambda>c. if c = CHR 0x27 then [CHR 0x27, CHR 0x5C, CHR 0x27, CHR 0x27] else [c]) v)
       @ [CHR 0x27]"

fun join :: "string \<Rightarrow> string list \<Rightarrow> string" where
  "join sep [] = []"
| "join sep [x] = x"
| "join sep (x # y # xs) = x @ sep @ join sep (y # xs)"

definition limits_prefix :: "bounds \<Rightarrow> string" where
  "limits_prefix b =
     ''ulimit -v '' @ dec (unat (address_space_kb b)) @ '' 2>/dev/null; ulimit -t ''
       @ dec (unat (cpu_seconds b)) @ '' 2>/dev/null; exec ''"

definition run_script :: "bounds \<Rightarrow> string \<Rightarrow> string list \<Rightarrow> string" where
  "run_script b program args = limits_prefix b @ join '' '' (map shell_quote (program # args))"

section \<open>The end of the process\<close>

definition NEEDLES :: "string list" where
  "NEEDLES =
     [''out of memory'', ''cannot allocate'', ''bad_alloc'', ''memory allocation'', ''alloc failed'',
      ''allocation failed'', ''memoryerror'', ''insufficient memory'', ''virtual memory exhausted'']"

definition mentions_allocation_failure :: "string \<Rightarrow> bool" where
  "mentions_allocation_failure err = list_ex (contains (to_ascii_lowercase err)) NEEDLES"

text \<open>A byte inside a character, and the positions at which a \<open>str\<close> can be cut.\<close>

definition continuation :: "char \<Rightarrow> bool" where
  "continuation c \<longleftrightarrow> (of_char c :: nat) div 64 = 2"

definition is_char_boundary :: "string \<Rightarrow> nat \<Rightarrow> bool" where
  "is_char_boundary t i \<longleftrightarrow> i = 0 \<or> i = length t \<or> (i < length t \<and> \<not> continuation (t ! i))"

fun floor_boundary :: "string \<Rightarrow> nat \<Rightarrow> nat" where
  "floor_boundary t 0 = 0"
| "floor_boundary t (Suc n) = (if is_char_boundary t (Suc n) then Suc n else floor_boundary t n)"

definition truncate_text :: "string \<Rightarrow> nat \<Rightarrow> string" where
  "truncate_text t n =
     (if length t \<le> n then t
      else
        let cut = floor_boundary t n in
        take cut t @ [CHR 0xE2, CHR 0x80, CHR 0xA6] @ '' ('' @ dec (length t - cut) @ '' bytes truncated)'')"

definition SIGNAL_EXIT_BASE :: int where "SIGNAL_EXIT_BASE = 128"
definition SIGKILL :: int where "SIGKILL = 9"
definition SIGXCPU :: int where "SIGXCPU = 24"

definition classify_exit :: "int option \<Rightarrow> string \<Rightarrow> bounds \<Rightarrow> bounded_error" where
  "classify_exit code err b =
     (let looks_like_oom = mentions_allocation_failure err in
      case code of
        Some c \<Rightarrow>
          if c = SIGNAL_EXIT_BASE + SIGXCPU then CpuExceeded (cpu_seconds b)
          else if c = SIGNAL_EXIT_BASE + SIGKILL \<and> looks_like_oom then AddressSpaceExceeded (address_space_kb b)
          else if SIGNAL_EXIT_BASE < c then Killed (c - SIGNAL_EXIT_BASE)
          else if looks_like_oom then AddressSpaceExceeded (address_space_kb b)
          else ExitFailed c (truncate_text err 2000)
      | None \<Rightarrow> Killed SIGKILL)"

record completed =
  cp_stdout :: string
  cp_stderr :: string
  cp_duration :: duration
  cp_peak_memory_kb :: "u64 option"

text \<open>
  How a spawned process ended, as the runner sees it: \<open>Exited\<close> carries the exit code, which the
  operating system does not give for a process a signal ended, its output, its duration and the largest
  \<open>VmHWM\<close> sampled, 0 when none was.
\<close>

datatype child_end =
    SpawnRefused string
  | TimedOut
  | WaitFailed string
  | Exited "int option" string string duration u64

fun run_end :: "bounds \<Rightarrow> child_end \<Rightarrow> bounded_error + completed" where
  "run_end b (SpawnRefused e) = Inl (SpawnFailed e)"
| "run_end b TimedOut = Inl (WallClockExceeded (wall_clock b))"
| "run_end b (WaitFailed e) = Inl (SpawnFailed e)"
| "run_end b (Exited code out err d peak) =
     (if code = Some 0
      then Inr \<lparr> cp_stdout = out, cp_stderr = err, cp_duration = d,
                 cp_peak_memory_kb = (if peak = 0 then None else Some peak) \<rparr>
      else Inl (classify_exit code err b))"

text \<open>\<open>run\<close>: the world answers the script it is given.\<close>

definition run_bounded ::
  "(string \<Rightarrow> child_end) \<Rightarrow> string \<Rightarrow> string list \<Rightarrow> bounds \<Rightarrow> bounded_error + completed" where
  "run_bounded world program args b = run_end b (world (run_script b program args))"

section \<open>Peak memory\<close>

function lines :: "string \<Rightarrow> string list" where
  "lines s =
     (if s = [] then []
      else
        let l = takeWhile (\<lambda>c. c \<noteq> CHR 0x0A) s; rest = dropWhile (\<lambda>c. c \<noteq> CHR 0x0A) s in
        (if rest \<noteq> [] \<and> l \<noteq> [] \<and> last l = CHR 0x0D then butlast l else l) # lines (drop 1 rest))"
  by pat_completeness auto
termination
proof (relation "measure length")
  fix s l rest :: string
  assume "s \<noteq> []" and rest: "rest = dropWhile (\<lambda>c. c \<noteq> CHR 0x0A) s"
  then show "(drop 1 rest, s) \<in> measure length"
    using length_dropWhile_le [of "\<lambda>c. c \<noteq> CHR 0x0A" s] by (cases s) auto
qed simp

declare lines.simps [simp del]

function split_whitespace :: "string \<Rightarrow> string list" where
  "split_whitespace s =
     (let t = dropWhile ascii_space s in
      if t = [] then []
      else takeWhile (\<lambda>c. \<not> ascii_space c) t # split_whitespace (dropWhile (\<lambda>c. \<not> ascii_space c) t))"
  by pat_completeness auto
termination
proof (relation "measure length")
  fix s t :: string assume t: "t = dropWhile ascii_space s" and ne: "t \<noteq> []"
  then have "\<not> ascii_space (hd t)" by (metis hd_dropWhile)
  then have "length (dropWhile (\<lambda>c. \<not> ascii_space c) t) \<le> length (tl t)"
    using ne length_dropWhile_le by (cases t) auto
  moreover have "0 < length t" and "length t \<le> length s"
    using ne length_dropWhile_le [of ascii_space s] by (simp_all add: t)
  ultimately have "length (dropWhile (\<lambda>c. \<not> ascii_space c) t) < length s"
    unfolding length_tl by linarith
  then show "(dropWhile (\<lambda>c. \<not> ascii_space c) t, s) \<in> measure length" by simp
qed simp

declare split_whitespace.simps [simp del]

text \<open>\<open>str::parse\<close> of an unsigned and of a signed integer: an optional sign, digits, and the range.\<close>

definition parse_nat :: "string \<Rightarrow> nat option" where
  "parse_nat s = (if s \<noteq> [] \<and> list_all is_digit s then Some (undec s) else None)"

definition parse_u64 :: "string \<Rightarrow> u64 option" where
  "parse_u64 s =
     (case parse_nat (case s of c # r \<Rightarrow> if c = CHR ''+'' then r else s | [] \<Rightarrow> s) of
        Some n \<Rightarrow> if n < 2 ^ 64 then Some (of_nat n) else None
      | None \<Rightarrow> None)"

definition vm_hwm :: string where
  "vm_hwm = ''VmHWM:''"

definition parse_vm_hwm :: "string \<Rightarrow> u64 option" where
  "parse_vm_hwm status =
     (case find (\<lambda>l. prefix vm_hwm l) (lines status) of
        None \<Rightarrow> None
      | Some l \<Rightarrow>
          (case split_whitespace (drop (length vm_hwm) l) of
             [] \<Rightarrow> None
           | v # rest \<Rightarrow>
               (case parse_u64 v of
                  None \<Rightarrow> None
                | Some kb \<Rightarrow> if rest = [] \<or> hd rest = ''kB'' then Some kb else None)))"

text \<open>The sampler: each reading of \<open>/proc/<pid>/status\<close>, \<open>None\<close> when it failed, raises the peak or leaves it.\<close>

definition sample_peak :: "u64 \<Rightarrow> string option \<Rightarrow> u64" where
  "sample_peak peak status =
     (case status of
        None \<Rightarrow> peak
      | Some text \<Rightarrow> (case parse_vm_hwm text of None \<Rightarrow> peak | Some kb \<Rightarrow> max peak kb))"

definition sample_peak_rss :: "string option list \<Rightarrow> u64" where
  "sample_peak_rss readings = foldl sample_peak 0 readings"

lemma sample_peak_rss_is_the_maximum:
  "sample_peak_rss readings =
     fold max (List.map_filter (\<lambda>r. Option.bind r parse_vm_hwm) readings) 0"
proof -
  have "foldl sample_peak p readings = fold max (List.map_filter (\<lambda>r. Option.bind r parse_vm_hwm) readings) p" for p
    by (induction readings arbitrary: p) (auto simp: sample_peak_def map_filter_simps max.commute split: option.splits)
  then show ?thesis by (simp add: sample_peak_rss_def)
qed

section \<open>What the shell makes of the script\<close>

text \<open>
  The specification: the words of a simple command, by the quoting rules of a POSIX shell. Between
  single quotes every character stands for itself, a backslash quotes the next character, blanks
  separate words; any other character with a meaning to the shell is refused, so a text with words
  runs one command with exactly these arguments.
\<close>

definition plain_char :: "char \<Rightarrow> bool" where
  "plain_char c \<longleftrightarrow> c \<notin> set ''|&;<>()$`*?[]#~=%!{} '' \<and> c \<notin> {CHR 0x09, CHR 0x0A, CHR 0x22, CHR 0x27, CHR 0x5C}"

fun sh_scan :: "bool \<Rightarrow> string option \<Rightarrow> string \<Rightarrow> string list option" where
  "sh_scan quoted w [] = (if quoted then None else Some (case w of None \<Rightarrow> [] | Some u \<Rightarrow> [u]))"
| "sh_scan True w (c # r) =
     (let u = (case w of None \<Rightarrow> [] | Some u \<Rightarrow> u) in
      if c = CHR 0x27 then sh_scan False (Some u) r else sh_scan True (Some (u @ [c])) r)"
| "sh_scan False w (c # r) =
     (let u = (case w of None \<Rightarrow> [] | Some u \<Rightarrow> u) in
      if c = CHR 0x27 then sh_scan True (Some u) r
      else if c = CHR 0x5C then
        (case r of [] \<Rightarrow> None | d # r' \<Rightarrow> if d = CHR 0x0A then None else sh_scan False (Some (u @ [d])) r')
      else if c = CHR '' '' then
        (case w of None \<Rightarrow> sh_scan False None r | Some u \<Rightarrow> map_option ((#) u) (sh_scan False None r))
      else if plain_char c then sh_scan False (Some (u @ [c])) r
      else None)"

definition sh_words :: "string \<Rightarrow> string list option" where
  "sh_words s = sh_scan False None s"

lemma scan_quoted_body:
  "sh_scan True (Some u)
     (concat (map (\<lambda>c. if c = CHR 0x27 then [CHR 0x27, CHR 0x5C, CHR 0x27, CHR 0x27] else [c]) v) @ CHR 0x27 # r)
   = sh_scan False (Some (u @ v)) r"
  by (induction v arbitrary: u) (simp_all add: Let_def)

lemma scan_shell_quote: "sh_scan False None (shell_quote v @ r) = sh_scan False (Some v) r"
  using scan_quoted_body [of "[]" v r] by (simp add: shell_quote_def Let_def)

lemma sh_words_join: "sh_words (join '' '' (map shell_quote ws)) = Some ws"
  unfolding sh_words_def
proof (induction ws)
  case (Cons w ws)
  show ?case
  proof (cases ws)
    case Nil
    then show ?thesis using scan_shell_quote [of w "[]"] by simp
  next
    case (Cons w' ws')
    then show ?thesis using Cons.IH scan_shell_quote [of w] by simp
  qed
qed simp

section \<open>Cutting a text\<close>

text \<open>A character of UTF-8: a byte that starts it, and at most three that continue it.\<close>

definition utf8_char :: "string \<Rightarrow> bool" where
  "utf8_char c \<longleftrightarrow> c \<noteq> [] \<and> \<not> continuation (hd c) \<and> list_all continuation (tl c) \<and> length c \<le> 4"

lemma boundary_inside:
  assumes "utf8_char c" and "0 < i" and "i < length c"
  shows "\<not> is_char_boundary (c @ t) i"
  using assms by (cases c; cases i) (auto simp: is_char_boundary_def utf8_char_def list_all_length nth_append)

lemma boundary_shift:
  assumes "list_all utf8_char cs"
  shows "is_char_boundary (c @ concat cs) (length c + i) \<longleftrightarrow> (c \<noteq> [] \<and> i = 0) \<or> is_char_boundary (concat cs) i"
proof (cases cs)
  case (Cons d ds)
  then have "concat cs \<noteq> []" "\<not> continuation (hd (concat cs))" using assms by (auto simp: utf8_char_def)
  then show ?thesis
    by (cases "concat cs"; cases i) (auto simp: is_char_boundary_def nth_append)
qed (auto simp: is_char_boundary_def)

lemma floor_boundary_max:
  "floor_boundary t n \<le> n \<and> is_char_boundary t (floor_boundary t n) \<and>
   (\<forall>i. floor_boundary t n < i \<and> i \<le> n \<longrightarrow> \<not> is_char_boundary t i)"
proof (induction n)
  case 0
  show ?case by (auto simp: is_char_boundary_def)
next
  case (Suc n)
  then show ?case by (auto simp: le_Suc_eq)
qed

lemma floor_boundary_unique:
  "b \<le> n \<Longrightarrow> is_char_boundary t b \<Longrightarrow> (\<And>i. b < i \<Longrightarrow> i \<le> n \<Longrightarrow> \<not> is_char_boundary t i) \<Longrightarrow>
   floor_boundary t n = b"
  using floor_boundary_max [of t n] by (metis linorder_neqE_nat)

lemma floor_boundary_concat:
  "list_all utf8_char cs \<Longrightarrow> n < length (concat cs) \<Longrightarrow>
   \<exists>k < length cs. floor_boundary (concat cs) n = length (concat (take k cs)) \<and>
     length (concat (take k cs)) \<le> n \<and> n < length (concat (take (Suc k) cs))"
proof (induction cs arbitrary: n)
  case (Cons c cs)
  then have c: "utf8_char c" and cs: "list_all utf8_char cs" by simp_all
  show ?case
  proof (cases "n < length c")
    case True
    have "floor_boundary (c @ concat cs) n = 0"
      using boundary_inside [OF c] True by (intro floor_boundary_unique) (auto simp: is_char_boundary_def)
    with True show ?thesis by (intro exI [of _ 0]) simp
  next
    case False
    then obtain m where n: "n = length c + m" by (metis le_add_diff_inverse not_less)
    with Cons.prems have m: "m < length (concat cs)" by simp
    from Cons.IH [OF cs m] obtain k where k: "k < length cs"
      "floor_boundary (concat cs) m = length (concat (take k cs))" "length (concat (take k cs)) \<le> m"
      "m < length (concat (take (Suc k) cs))" by blast
    note mx = floor_boundary_max [of "concat cs" m]
    have "floor_boundary (c @ concat cs) n = length c + floor_boundary (concat cs) m"
    proof (rule floor_boundary_unique)
      show "length c + floor_boundary (concat cs) m \<le> n" using mx n by simp
      show "is_char_boundary (c @ concat cs) (length c + floor_boundary (concat cs) m)"
        using mx boundary_shift [OF cs] by blast
      fix i assume i: "length c + floor_boundary (concat cs) m < i" "i \<le> n"
      then obtain j where j: "i = length c + j" by (metis add_leE le_Suc_ex less_imp_le_nat)
      with i n have "floor_boundary (concat cs) m < j" "j \<le> m" by simp_all
      then show "\<not> is_char_boundary (c @ concat cs) i"
        using boundary_shift [OF cs, of c j] mx by (auto simp: j)
    qed
    with k n show ?thesis by (intro exI [of _ "Suc k"]) simp
  qed
qed simp

section \<open>Properties\<close>

text \<open>
  Claim C26. Nothing in a program name or an argument can run anything: the script sets the two limits
  and then execs a command whose words, read by the quoting rules of the shell, are exactly the
  program and the arguments, whatever characters they contain.
\<close>
theorem script_runs_exactly_the_command:
  "\<exists>command. run_script b program args
      = ''ulimit -v '' @ dec (unat (address_space_kb b)) @ '' 2>/dev/null; ulimit -t ''
          @ dec (unat (cpu_seconds b)) @ '' 2>/dev/null; exec '' @ command \<and>
    sh_words command = Some (program # args)"
  unfolding run_script_def limits_prefix_def
  by (rule exI [of _ "join '' '' (map shell_quote (program # args))"]) (simp only: append_assoc sh_words_join simp_thms)

text \<open>
  Error output is cut between characters: a text within the limit is kept whole; of a longer
  one the whole characters that fit are kept, none is split and not one more would fit, and the note
  says how many bytes were dropped.
\<close>
theorem truncation_keeps_whole_characters:
  assumes "list_all utf8_char cs"
  shows "(length (concat cs) \<le> n \<longrightarrow> truncate_text (concat cs) n = concat cs) \<and>
    (n < length (concat cs) \<longrightarrow> (\<exists>k < length cs. truncate_text (concat cs) n = concat (take k cs) @ [CHR 0xE2, CHR 0x80, CHR 0xA6]
           @ '' ('' @ dec (length (concat (drop k cs))) @ '' bytes truncated)'' \<and>
         length (concat (take k cs)) \<le> n \<and> n < length (concat (take (Suc k) cs))))"
proof (cases "length (concat cs) \<le> n")
  case False
  then obtain k where k: "k < length cs" "floor_boundary (concat cs) n = length (concat (take k cs))"
      "length (concat (take k cs)) \<le> n" "n < length (concat (take (Suc k) cs))"
    using floor_boundary_concat [OF assms, of n] by auto
  have split: "concat cs = concat (take k cs) @ concat (drop k cs)"
    by (metis append_take_drop_id concat_append)
  have "take (length (concat (take k cs))) (concat cs) = concat (take k cs)"
    and "length (concat cs) - length (concat (take k cs)) = length (concat (drop k cs))"
    by (subst split, simp)+
  with False k show ?thesis by (auto simp: truncate_text_def Let_def)
qed (simp add: truncate_text_def)

theorem truncation_keeps_whole_characters_witness:
  "truncate_text (concat [''a'', [CHR 0xC3, CHR 0xA9], ''b'']) 2
     = ''a'' @ [CHR 0xE2, CHR 0x80, CHR 0xA6] @ '' (3 bytes truncated)''"
proof -
  let ?cs = "[''a'', [CHR 0xC3, CHR 0xA9], ''b'']"
  have u: "list_all utf8_char ?cs" by code_simp
  have "2 < length (concat ?cs)" by simp
  with truncation_keeps_whole_characters [OF u, of 2] obtain k where "k < length ?cs"
    and eq: "truncate_text (concat ?cs) 2 = concat (take k ?cs) @ [CHR 0xE2, CHR 0x80, CHR 0xA6]
        @ '' ('' @ dec (length (concat (drop k ?cs))) @ '' bytes truncated)''"
    and le: "length (concat (take k ?cs)) \<le> 2" "2 < length (concat (take (Suc k) ?cs))" by blast
  have "k \<noteq> 0" using le(2) by (cases k) simp_all
  moreover have "k \<noteq> 2" using le(1) by auto
  ultimately have "k = 1" using \<open>k < length ?cs\<close> by simp
  moreover have "dec (Suc (Suc (Suc 0))) = ''3''" by code_simp
  ultimately show ?thesis unfolding eq by simp
qed

text \<open>
  What the end of a process is taken for. Success is exit code 0 only; the processor limit is
  reported only for the exit code 152, and a process that a signal ended, which has no exit code, is
  always reported as killed by signal 9, whichever signal it was; a failure is permanent exactly when
  the tool exited by itself, with a code from 1 to 128 or below 0, and did not complain about memory.
\<close>
theorem exit_is_classified:
  "(\<exists>c. run_end b (Exited code out err d peak) = Inr c) = (code = Some 0) \<and>
   (\<forall>e. run_end b (Exited code out err d peak) = Inl e \<longrightarrow>
      (code = None \<longleftrightarrow> e = Killed 9 \<and> code \<noteq> Some 137) \<and>
      ((\<exists>l. e = CpuExceeded l) \<longleftrightarrow> code = Some 152) \<and>
      (\<not> is_transient e \<longleftrightarrow> (\<exists>c. code = Some c \<and> c \<le> 128 \<and> \<not> mentions_allocation_failure err)))"
  by (cases code)
    (auto simp: classify_exit_def Let_def SIGNAL_EXIT_BASE_def SIGXCPU_def SIGKILL_def)

theorem exit_is_classified_witness:
  "run_end for_proving (Exited None [] [] 0 0) = Inl (Killed 9) \<and> is_transient (Killed 9)"
proof -
  have r: "run_end for_proving (Exited None [] [] 0 0) = Inl (Killed 9)"
    by (simp add: classify_exit_def SIGKILL_def)
  with exit_is_classified [of for_proving None "[]" "[]" 0 0] show ?thesis by auto
qed

end
