(* ===== verification/Prover.thy ===== *)
theory Prover
  imports Bounded Canonical Job
begin

text \<open>
  Turning job inputs into a proof, \<open>crates/dray-worker/src/prover.rs\<close>: the rendering of
  \<open>Prover.toml\<close>, the pipeline of file operations and the two subprocesses, and what its failures mean.
  The file system and the tools are outside: every answer they give is in an observation.
\<close>

section \<open>Errors\<close>

datatype prove_error =
    UnknownCircuit string
  | InputsNotAnObject string
  | UnrepresentableInput string string
  | ScratchFailed string
  | WitnessFailed bounded_error
  | ProvingFailed bounded_error
  | MissingArtefact string

fun prove_error_kind :: "prove_error \<Rightarrow> failure_kind" where
  "prove_error_kind (UnknownCircuit _) = Transient"
| "prove_error_kind (InputsNotAnObject _) = Permanent"
| "prove_error_kind (UnrepresentableInput _ _) = Permanent"
| "prove_error_kind (ScratchFailed _) = Transient"
| "prove_error_kind (WitnessFailed err) = (if is_transient err then Transient else Permanent)"
| "prove_error_kind (ProvingFailed err) = (if is_transient err then Transient else Permanent)"
| "prove_error_kind (MissingArtefact _) = Transient"

fun prove_error_label :: "prove_error \<Rightarrow> string" where
  "prove_error_label (UnknownCircuit _) = ''unknown_circuit''"
| "prove_error_label (InputsNotAnObject _) = ''bad_inputs''"
| "prove_error_label (UnrepresentableInput _ _) = ''bad_inputs''"
| "prove_error_label (ScratchFailed _) = ''scratch_failed''"
| "prove_error_label (WitnessFailed err) = bounded_label err"
| "prove_error_label (ProvingFailed err) = bounded_label err"
| "prove_error_label (MissingArtefact _) = ''missing_artefact''"

fun prove_error_text :: "prove_error \<Rightarrow> string" where
  "prove_error_text (UnknownCircuit c) = ''no prepared artefacts for circuit '' @ c"
| "prove_error_text (InputsNotAnObject found) = ''inputs must be a JSON object, found '' @ found"
| "prove_error_text (UnrepresentableInput field reason) =
     ''input '' @ field @ '' cannot be written to Prover.toml: '' @ reason"
| "prove_error_text (ScratchFailed e) = ''preparing the scratch directory failed: '' @ e"
| "prove_error_text (WitnessFailed err) = ''witness generation failed: '' @ bounded_error_text err"
| "prove_error_text (ProvingFailed err) = ''proof generation failed: '' @ bounded_error_text err"
| "prove_error_text (MissingArtefact artefact) = artefact @ '' was not produced''"

section \<open>\<open>Prover.toml\<close>\<close>

fun type_name :: "json \<Rightarrow> string" where
  "type_name JNull = ''null''"
| "type_name (JBool _) = ''a boolean''"
| "type_name (JNumber _) = ''a number''"
| "type_name (JString _) = ''a string''"
| "type_name (JArray _) = ''an array''"
| "type_name (JObject _) = ''an object''"

text \<open>\<open>{:04X}\<close> of a byte.\<close>

definition hex_upper_char :: "nat \<Rightarrow> char" where
  "hex_upper_char d = char_of (if d < 10 then 48 + d else 55 + d)"

definition toml_escape :: "char \<Rightarrow> string" where
  "toml_escape ch =
     (if ch = CHR 0x22 then [CHR 0x5C, CHR 0x22]
      else if ch = CHR 0x5C then [CHR 0x5C, CHR 0x5C]
      else if ch = CHR 0x0A then [CHR 0x5C, CHR ''n'']
      else if ch = CHR 0x0D then [CHR 0x5C, CHR ''r'']
      else if ch = CHR 0x09 then [CHR 0x5C, CHR ''t'']
      else if (of_char ch :: nat) < 0x20 \<or> (of_char ch :: nat) = 0x7F
      then [CHR 0x5C, CHR ''u'', CHR ''0'', CHR ''0'', hex_upper_char (of_char ch div 16),
            hex_upper_char (of_char ch mod 16)]
      else [ch])"

definition quote_toml :: "string \<Rightarrow> string" where
  "quote_toml v = CHR 0x22 # concat (map toml_escape v) @ [CHR 0x22]"

fun number_text :: "number \<Rightarrow> string" where
  "number_text (PosInt u) = dec (unat u)"
| "number_text (NegInt i) = dec_int (sint i)"
| "number_text (FloatNum s) = s"

fun render_value :: "json \<Rightarrow> string \<Rightarrow> prove_error + string"
  and render_items :: "nat \<Rightarrow> json list \<Rightarrow> string \<Rightarrow> prove_error + string list"
where
  "render_value (JString s) field = Inr (quote_toml s)"
| "render_value (JBool b) field = Inr (if b then ''true'' else ''false'')"
| "render_value (JNumber n) field =
     (case as_i64 n of
        Some i \<Rightarrow> Inr (dec_int i)
      | None \<Rightarrow>
          (case as_u64 n of
             Some u \<Rightarrow> Inr (dec u)
           | None \<Rightarrow> Inl (UnrepresentableInput field (number_text n
               @ '' is not an integer representable in 64 bits; ''
               @ ''field elements must be given as decimal or hex strings''))))"
| "render_value (JArray items) field =
     and_then (render_items 0 items field) (\<lambda>rendered. Inr (''['' @ join '', '' rendered @ '']''))"
| "render_value JNull field =
     Inl (UnrepresentableInput field ''null has no field element representation'')"
| "render_value (JObject ms) field =
     Inl (UnrepresentableInput field ''nested objects are only supported at the top level'')"
| "render_items i [] field = Inr []"
| "render_items i (item # items) field =
     and_then (render_value item (field @ ''['' @ dec i @ '']'')) (\<lambda>t.
     and_then (render_items (Suc i) items field) (\<lambda>ts. Inr (t # ts)))"

text \<open>One line \<open>key = value\<close>.\<close>

definition toml_line :: "string \<Rightarrow> string \<Rightarrow> string" where
  "toml_line key rendered = key @ '' = '' @ rendered @ [CHR 0x0A]"

fun render_inner :: "string \<Rightarrow> (string \<times> json) list \<Rightarrow> prove_error + string" where
  "render_inner key [] = Inr []"
| "render_inner key ((inner_key, inner) # ms) =
     and_then (render_value inner (key @ ''.'' @ inner_key)) (\<lambda>rendered.
     and_then (render_inner key ms) (\<lambda>rest. Inr (toml_line inner_key rendered @ rest)))"

fun render_fields :: "(string \<times> json) list \<Rightarrow> string \<Rightarrow> string \<Rightarrow> prove_error + string" where
  "render_fields [] scalars tables = Inr (scalars @ tables)"
| "render_fields ((key, JObject nested) # ms) scalars tables =
     and_then (render_inner key nested) (\<lambda>body.
     render_fields ms scalars (tables @ [CHR 0x0A] @ ''['' @ key @ '']'' @ [CHR 0x0A] @ body))"
| "render_fields ((key, val) # ms) scalars tables =
     and_then (render_value val key) (\<lambda>rendered.
     render_fields ms (scalars @ toml_line key rendered) tables)"

definition render_prover_toml :: "json \<Rightarrow> prove_error + string" where
  "render_prover_toml inputs =
     (case inputs of
        JObject ms \<Rightarrow> render_fields ms [] []
      | _ \<Rightarrow> Inl (InputsNotAnObject (type_name inputs)))"

section \<open>The pipeline\<close>

record proven =
  pv_proof :: bytes
  pv_public_inputs :: bytes
  pv_duration :: duration
  pv_peak_memory_kb :: "u64 option"

definition proven_nullifier :: "proven \<Rightarrow> bytes option" where
  "proven_nullifier p =
     (if pv_public_inputs p = [] \<or> length (pv_public_inputs p) mod 32 \<noteq> 0 then None
      else Some (drop (length (pv_public_inputs p) - 32) (pv_public_inputs p)))"

text \<open>The extension of a file name: what follows its last dot, if something comes before it.\<close>

definition extension :: "string \<Rightarrow> string option" where
  "extension name =
     (if CHR ''.'' \<in> set (drop 1 name)
      then Some (rev (takeWhile (\<lambda>c. c \<noteq> CHR ''.'') (rev name))) else None)"

text \<open>\<open>find_one\<close>, over the entries the directory lists; \<open>None\<close> is an entry or a listing that failed.\<close>

fun find_one_from :: "string option \<Rightarrow> string \<Rightarrow> string option list \<Rightarrow> string option" where
  "find_one_from found ext [] = found"
| "find_one_from found ext (None # es) = None"
| "find_one_from found ext (Some name # es) =
     (if extension name = Some ext
      then (case found of Some _ \<Rightarrow> None | None \<Rightarrow> find_one_from (Some name) ext es)
      else find_one_from found ext es)"

definition find_one :: "string option list option \<Rightarrow> string \<Rightarrow> string option" where
  "find_one listing ext =
     (case listing of None \<Rightarrow> None | Some es \<Rightarrow> find_one_from None ext es)"

record prover_config =
  pc_root :: string
  pc_bounds :: bounds
  pc_nargo :: string
  pc_bb :: string

text \<open>
  What the file system and the tools answer. \<open>pw_nargo\<close> is given the script and the text of
  \<open>Prover.toml\<close> in its package, \<open>pw_target\<close> lists the package's \<open>target\<close> after it ran.
\<close>

record prover_world =
  pw_has :: "string \<Rightarrow> bool"
  pw_scratch_root :: "string + string"
  pw_scratch :: "string + unit"
  pw_copy :: "string + unit"
  pw_write :: "string + unit"
  pw_nargo :: "string \<Rightarrow> string \<Rightarrow> child_end"
  pw_target :: "string option list option"
  pw_create_out :: "string + unit"
  pw_utf8 :: "string \<Rightarrow> bool"
  pw_bb :: "string \<Rightarrow> child_end"
  pw_proof :: "bytes option"
  pw_public_inputs :: "bytes option"

definition path_join :: "string \<Rightarrow> string \<Rightarrow> string" where
  "path_join a b = a @ ''/'' @ b"

definition path_arg :: "prover_world \<Rightarrow> string \<Rightarrow> prove_error + string" where
  "path_arg w p = (if pw_utf8 w p then Inr p else Inl (ScratchFailed (''path is not valid UTF-8: '' @ p)))"

definition scratch_step :: "string \<Rightarrow> string + 'a \<Rightarrow> prove_error + 'a" where
  "scratch_step what r = map_err (\<lambda>e. ScratchFailed (what @ '': '' @ e)) r"

definition prove ::
  "prover_world \<Rightarrow> prover_config \<Rightarrow> string \<Rightarrow> json \<Rightarrow> string \<Rightarrow> prove_error + proven" where
  "prove w cfg circuit inputs label =
     and_then (require (pw_has w circuit) (UnknownCircuit circuit)) (\<lambda>_.
     and_then (render_prover_toml inputs) (\<lambda>toml.
     and_then (map_err ScratchFailed (pw_scratch_root w)) (\<lambda>root.
     and_then (scratch_step (''creating scratch for '' @ label) (pw_scratch w)) (\<lambda>_.
     let scratch = path_join root label; package = path_join scratch ''package'';
         target = path_join package ''target'' in
     and_then (scratch_step ''copying the circuit package'' (pw_copy w)) (\<lambda>_.
     and_then (scratch_step ''writing Prover.toml'' (pw_write w)) (\<lambda>_.
     and_then (map_err WitnessFailed
         (run_bounded (\<lambda>script. pw_nargo w script toml) (pc_nargo cfg) [''execute''] (pc_bounds cfg))) (\<lambda>_.
     and_then (ok_or (find_one (pw_target w) ''json'') (MissingArtefact ''compiled circuit'')) (\<lambda>bytecode.
     and_then (ok_or (find_one (pw_target w) ''gz'') (MissingArtefact ''witness'')) (\<lambda>witness.
     let out = path_join scratch ''out'' in
     and_then (scratch_step ''creating the output directory'' (pw_create_out w)) (\<lambda>_.
     and_then (path_arg w (path_join target bytecode)) (\<lambda>b.
     and_then (path_arg w (path_join target witness)) (\<lambda>wit.
     and_then (path_arg w (path_join (path_join (pc_root cfg) circuit) ''vk'')) (\<lambda>vk.
     and_then (path_arg w out) (\<lambda>o'.
     and_then (map_err ProvingFailed (run_bounded (pw_bb w) (pc_bb cfg)
         [''prove'', ''-t'', ''evm'', ''-b'', b, ''-w'', wit, ''-k'', vk, ''-o'', o'] (pc_bounds cfg))) (\<lambda>done.
     and_then (ok_or (pw_proof w) (MissingArtefact ''proof'')) (\<lambda>pf.
     and_then (ok_or (pw_public_inputs w) (MissingArtefact ''public_inputs'')) (\<lambda>pis.
     Inr \<lparr> pv_proof = pf, pv_public_inputs = pis, pv_duration = cp_duration done,
           pv_peak_memory_kb = cp_peak_memory_kb done \<rparr>)))))))))))))))))"

section \<open>What a result means\<close>

lemma run_bounded_cases:
  "run_bounded world program args b = Inr d \<longleftrightarrow> (\<exists>out err t peak. world (run_script b program args) = Exited (Some 0) out err t peak \<and>
     d = \<lparr> cp_stdout = out, cp_stderr = err, cp_duration = t, cp_peak_memory_kb = (if peak = 0 then None else Some peak) \<rparr>)"
  by (cases "world (run_script b program args)") (auto simp: run_bounded_def)

text \<open>A tool that ran to its end and refused: an exit code of its own, and no complaint about memory.\<close>

definition refuses :: "child_end \<Rightarrow> bool" where
  "refuses e \<longleftrightarrow> (case e of Exited (Some c) out err d peak \<Rightarrow> c \<noteq> 0 \<and> c \<le> 128 \<and> \<not> mentions_allocation_failure err
     | _ \<Rightarrow> False)"

definition succeeds :: "child_end \<Rightarrow> bool" where
  "succeeds e \<longleftrightarrow> (case e of Exited (Some c) out err d peak \<Rightarrow> c = 0 | _ \<Rightarrow> False)"

lemma run_end_permanent:
  assumes "run_end b en = Inl e"
  shows "\<not> is_transient e \<longleftrightarrow> refuses en"
  using assms by (cases en)
    (auto simp: classify_exit_def SIGNAL_EXIT_BASE_def SIGXCPU_def SIGKILL_def Let_def refuses_def
      split: option.splits if_splits)

lemma run_end_succeeds: "run_end b en = Inr d \<Longrightarrow> succeeds en"
  by (cases en) (auto simp: succeeds_def split: if_splits)

text \<open>The errors of the renderer.\<close>

fun input_error :: "prove_error \<Rightarrow> bool" where
  "input_error (InputsNotAnObject _) = True"
| "input_error (UnrepresentableInput _ _) = True"
| "input_error _ = False"

lemma render_value_errors:
  "render_value v f = Inl e \<Longrightarrow> input_error e"
  "render_items i vs f = Inl e \<Longrightarrow> input_error e"
  by (induction v f and i vs f rule: render_value_render_items.induct)
    (auto simp: res_iff split: option.splits)

lemma render_inner_errors: "render_inner key ms = Inl e \<Longrightarrow> input_error e"
  by (induction key ms rule: render_inner.induct) (auto simp: res_iff dest: render_value_errors)

lemma render_fields_errors: "render_fields ms s t = Inl e \<Longrightarrow> input_error e"
  by (induction ms s t rule: render_fields.induct)
    (auto simp: res_iff dest: render_value_errors render_inner_errors simp del: render_value.simps)

lemma render_errors: "render_prover_toml inputs = Inl e \<Longrightarrow> input_error e"
  by (auto simp: render_prover_toml_def split: json.splits dest: render_fields_errors)

lemma input_error_permanent: "input_error e \<Longrightarrow> prove_error_kind e = Permanent"
  by (cases e) simp_all

text \<open>The two scripts the tools are run with, from what was found in the package's \<open>target\<close>.\<close>

definition nargo_script :: "prover_config \<Rightarrow> string" where
  "nargo_script cfg = run_script (pc_bounds cfg) (pc_nargo cfg) [''execute'']"

definition bb_script :: "prover_config \<Rightarrow> string \<Rightarrow> string \<Rightarrow> string \<Rightarrow> string \<Rightarrow> string" where
  "bb_script cfg circuit scratch bytecode witness =
     (let target = path_join (path_join scratch ''package'') ''target'' in
      run_script (pc_bounds cfg) (pc_bb cfg)
        [''prove'', ''-t'', ''evm'', ''-b'', path_join target bytecode, ''-w'', path_join target witness,
         ''-k'', path_join (path_join (pc_root cfg) circuit) ''vk'', ''-o'', path_join scratch ''out''])"

text \<open>What \<open>bb\<close> answers in this run, once the run has come to it.\<close>

definition bb_end :: "prover_world \<Rightarrow> prover_config \<Rightarrow> string \<Rightarrow> string \<Rightarrow> child_end option" where
  "bb_end w cfg circuit label =
     (case (pw_scratch_root w, find_one (pw_target w) ''json'', find_one (pw_target w) ''gz'') of
        (Inr base, Some bytecode, Some witness) \<Rightarrow>
          Some (pw_bb w (bb_script cfg circuit (path_join base label) bytecode witness))
      | _ \<Rightarrow> None)"

lemma path_arg_iff:
  "path_arg w p = Inl e \<longleftrightarrow> \<not> pw_utf8 w p \<and> e = ScratchFailed (''path is not valid UTF-8: '' @ p)"
  "path_arg w p = Inr q \<longleftrightarrow> pw_utf8 w p \<and> q = p"
  by (auto simp: path_arg_def)

lemma and_then_InlE:
  assumes "and_then r f = Inl e"
  obtains "r = Inl e" | x where "r = Inr x" and "f x = Inl e"
  using assms by (auto simp: and_then_Inl)

lemma prove_error_cases:
  assumes "prove w cfg circuit inputs label = Inl e"
  shows "pw_has w circuit \<and> render_prover_toml inputs = Inl e \<or> (\<exists>c. e = UnknownCircuit c) \<or> (\<exists>t. e = ScratchFailed t) \<or>
    (\<exists>t. e = MissingArtefact t) \<or>
    (\<exists>toml b. render_prover_toml inputs = Inr toml \<and> e = WitnessFailed b \<and>
       run_bounded (\<lambda>script. pw_nargo w script toml) (pc_nargo cfg) [''execute''] (pc_bounds cfg) = Inl b) \<or>
    (\<exists>toml b d. render_prover_toml inputs = Inr toml \<and> e = ProvingFailed b \<and>
       run_bounded (\<lambda>script. pw_nargo w script toml) (pc_nargo cfg) [''execute''] (pc_bounds cfg) = Inr d \<and>
       (\<exists>en. bb_end w cfg circuit label = Some en \<and> run_end (pc_bounds cfg) en = Inl b))"
  using assms unfolding prove_def Let_def scratch_step_def
  by (elim and_then_InlE; clarsimp simp: ok_or_Inl ok_or_Inr require_Inl require_Inr map_err_Inl map_err_Inr path_arg_iff
      bb_end_def bb_script_def Let_def run_bounded_def [of "pw_bb w"])

lemma prove_success:
  assumes "prove w cfg circuit inputs label = Inr p"
  shows "\<exists>toml n_script b_script out err d peak. render_prover_toml inputs = Inr toml \<and>
    (\<exists>o' e' d' pk'. pw_nargo w n_script toml = Exited (Some 0) o' e' d' pk') \<and>
    pw_bb w b_script = Exited (Some 0) out err d peak \<and> pw_proof w = Some (pv_proof p) \<and>
    pw_public_inputs w = Some (pv_public_inputs p) \<and> pv_duration p = d"
  using assms unfolding prove_def Let_def scratch_step_def path_arg_def
  by (auto simp: and_then_Inr ok_or_Inr require_Inr map_err_Inr run_bounded_cases split: if_splits) blast+

text \<open>
  Claim C25. A job whose circuit the worker has is failed for good only for what the job itself is: its
  inputs cannot be written down, or a tool, given them, ran to its end and refused, with an exit code of its
  own below those of signals and no complaint about memory. Everything else is transient: a circuit the
  worker does not have, a limit reached, a signal, a memory message whatever the exit code, a missing file, a
  full disk. And a proof is reported only when both tools exited with 0, and is then exactly what they wrote.
\<close>
theorem permanent_means_rejected:
  "case prove w cfg circuit inputs label of
     Inl e \<Rightarrow>
       prove_error_kind e = Permanent \<longleftrightarrow>
       pw_has w circuit \<and> render_prover_toml inputs = Inl e \<or>
       (\<exists>toml. render_prover_toml inputs = Inr toml \<and>
         (refuses (pw_nargo w (nargo_script cfg) toml) \<and> (\<exists>b. e = WitnessFailed b) \<or>
          succeeds (pw_nargo w (nargo_script cfg) toml) \<and> (\<exists>b. e = ProvingFailed b) \<and>
            (\<exists>en. bb_end w cfg circuit label = Some en \<and> refuses en)))
   | Inr p \<Rightarrow>
       \<exists>toml n_script b_script out err d peak. render_prover_toml inputs = Inr toml \<and>
         (\<exists>o' e' d' pk'. pw_nargo w n_script toml = Exited (Some 0) o' e' d' pk') \<and>
         pw_bb w b_script = Exited (Some 0) out err d peak \<and> pw_proof w = Some (pv_proof p) \<and>
         pw_public_inputs w = Some (pv_public_inputs p) \<and> pv_duration p = d"
proof (cases "prove w cfg circuit inputs label")
  case (Inr p)
  then show ?thesis using prove_success [OF Inr] by simp
next
  case (Inl e)
  have not_tool: "render_prover_toml inputs = Inl e' \<Longrightarrow> (\<forall>b. e' \<noteq> WitnessFailed b) \<and> (\<forall>b. e' \<noteq> ProvingFailed b)" for e'
    using render_errors [of inputs e'] by auto
  show ?thesis
    using prove_error_cases [OF Inl]
  proof (elim disjE exE conjE)
    assume "pw_has w circuit" "render_prover_toml inputs = Inl e"
    with input_error_permanent [OF render_errors] show ?thesis unfolding Inl by simp
  qed (use render_errors [of inputs e] in \<open>auto simp: Inl run_bounded_def nargo_script_def dest: run_end_permanent run_end_succeeds\<close>)
qed

end
