(* ===== verification/Prover_Toml.thy ===== *)
theory Prover_Toml
  imports Prover Canonical_Unique
begin

text \<open>
  What a reader of TOML makes of the rendered file. The reader is the specification: basic strings,
  integers, booleans, arrays, keys and table headers, by the grammar of TOML 1.0 as far as the renderer
  uses it. Like TOML it refuses raw newlines and control characters in a string, escapes it does not know,
  numbers with leading zeros, and a key or table defined twice. Reading back gives the inputs, so nothing a
  value contains can add, end or change an input.
\<close>

section \<open>The reader\<close>

datatype toml = TStr string | TInt int | TBool bool | TArr "toml list"

definition toml_hex :: "char \<Rightarrow> nat option" where
  "toml_hex c =
     (let n = of_char c in
      if 48 \<le> n \<and> n \<le> 57 then Some (n - 48)
      else if 65 \<le> n \<and> n \<le> 70 then Some (n - 55)
      else if 97 \<le> n \<and> n \<le> 102 then Some (n - 87)
      else None)"

text \<open>What may stand for itself in a basic string: no control character but the tab.\<close>

definition toml_raw :: "char \<Rightarrow> bool" where
  "toml_raw c \<longleftrightarrow> (let n = (of_char c :: nat) in n = 0x09 \<or> 0x20 \<le> n \<and> n \<noteq> 0x7F)"

text \<open>One character of a basic string. Of \<open>\uXXXX\<close> the characters of one byte are read.\<close>

definition toml_unescape :: "string \<Rightarrow> (char \<times> string) option" where
  "toml_unescape s =
     (case s of
        [] \<Rightarrow> None
      | a # r \<Rightarrow>
          if a \<noteq> CHR 0x5C then (if toml_raw a then Some (a, r) else None)
          else (case r of
            [] \<Rightarrow> None
          | b # r' \<Rightarrow>
              if b = CHR 0x22 \<or> b = CHR 0x5C then Some (b, r')
              else if b = CHR ''b'' then Some (CHR 0x08, r')
              else if b = CHR ''t'' then Some (CHR 0x09, r')
              else if b = CHR ''n'' then Some (CHR 0x0A, r')
              else if b = CHR ''f'' then Some (CHR 0x0C, r')
              else if b = CHR ''r'' then Some (CHR 0x0D, r')
              else if b = CHR ''u'' then
                (case r' of
                   y # z # h # l # r'' \<Rightarrow>
                     (case (toml_hex y, toml_hex z, toml_hex h, toml_hex l) of
                        (Some 0, Some 0, Some u, Some v) \<Rightarrow>
                          if 16 * u + v < 128 then Some (char_of (16 * u + v), r'') else None
                      | _ \<Rightarrow> None)
                 | _ \<Rightarrow> None)
              else None))"

definition toml_nat :: "string \<Rightarrow> nat option" where
  "toml_nat s = (if s = ''0'' \<or> s \<noteq> [] \<and> hd s \<noteq> CHR ''0'' then parse_nat s else None)"

definition undec_int :: "string \<Rightarrow> int option" where
  "undec_int s =
     (case s of
        c # r \<Rightarrow> if c = CHR ''-'' then map_option (\<lambda>n. - int n) (toml_nat r) else map_option int (toml_nat s)
      | [] \<Rightarrow> None)"

fun read_value :: "nat \<Rightarrow> string \<Rightarrow> (toml \<times> string) option"
  and read_elements :: "nat \<Rightarrow> string \<Rightarrow> (toml list \<times> string) option"
where
  "read_value 0 s = None"
| "read_value (Suc n) s =
     (case s of
        [] \<Rightarrow> None
      | c # r \<Rightarrow>
          if c = CHR 0x22 then map_option (\<lambda>(t, q). (TStr t, q)) (read_quoted toml_unescape (CHR 0x22) n r)
          else if prefix ''true'' s then Some (TBool True, drop 4 s)
          else if prefix ''false'' s then Some (TBool False, drop 5 s)
          else if prefix ''[]'' s then Some (TArr [], drop 2 s)
          else if c = CHR ''['' then map_option (\<lambda>(vs, q). (TArr vs, q)) (read_elements n r)
          else map_option (\<lambda>i. (TInt i, dropWhile is_number_char s)) (undec_int (takeWhile is_number_char s)))"
| "read_elements 0 s = None"
| "read_elements (Suc n) s =
     (case read_value n s of
        None \<Rightarrow> None
      | Some (v, r) \<Rightarrow>
          if prefix '', '' r then map_option (\<lambda>(vs, q). (v # vs, q)) (read_elements n (drop 2 r))
          else if prefix '']'' r then Some ([v], drop 1 r)
          else None)"

text \<open>A bare key of TOML.\<close>

definition bare_char :: "char \<Rightarrow> bool" where
  "bare_char c \<longleftrightarrow> is_digit c \<or> (let n = (of_char c :: nat) in 65 \<le> n \<and> n \<le> 90 \<or> 97 \<le> n \<and> n \<le> 122)
     \<or> c = CHR ''_'' \<or> c = CHR ''-''"

definition bare_key :: "string \<Rightarrow> bool" where
  "bare_key k \<longleftrightarrow> k \<noteq> [] \<and> list_all bare_char k"

definition read_key :: "string \<Rightarrow> (string \<times> string) option" where
  "read_key s = (if takeWhile bare_char s = [] then None else Some (takeWhile bare_char s, dropWhile bare_char s))"

text \<open>Lines \<open>key = value\<close> up to the end of the text or an empty line.\<close>

fun read_entries :: "nat \<Rightarrow> string \<Rightarrow> ((string \<times> toml) list \<times> string) option" where
  "read_entries 0 s = None"
| "read_entries (Suc n) s =
     (if s = [] \<or> hd s = CHR 0x0A then Some ([], s)
      else (case read_key s of
        Some (k, r) \<Rightarrow>
          if prefix '' = '' r then
            (case read_value n (drop 3 r) of
               Some (v, q) \<Rightarrow>
                 if prefix [CHR 0x0A] q
                 then map_option (\<lambda>(es, u). ((k, v) # es, u)) (read_entries n (drop 1 q)) else None
             | None \<Rightarrow> None)
          else None
      | None \<Rightarrow> None))"

fun read_tables :: "nat \<Rightarrow> string \<Rightarrow> (string \<times> (string \<times> toml) list) list option" where
  "read_tables 0 s = None"
| "read_tables (Suc n) s =
     (if s = [] then Some []
      else if prefix ([CHR 0x0A] @ ''['') s then
        (case read_key (drop 2 s) of
           Some (k, r) \<Rightarrow>
             if prefix ('']'' @ [CHR 0x0A]) r then
               (case read_entries n (drop 2 r) of
                  Some (es, q) \<Rightarrow> map_option ((#) (k, es)) (read_tables n q)
                | None \<Rightarrow> None)
             else None
         | None \<Rightarrow> None)
      else None)"

text \<open>No key or table is defined twice.\<close>

definition toml_keys_once :: "(string \<times> toml) list \<Rightarrow> (string \<times> (string \<times> toml) list) list \<Rightarrow> bool" where
  "toml_keys_once es ts \<longleftrightarrow>
     distinct (map fst es @ map fst ts) \<and> list_all (\<lambda>(_, es). distinct (map fst es)) ts"

definition read_toml :: "nat \<Rightarrow> string \<Rightarrow> ((string \<times> toml) list \<times> (string \<times> (string \<times> toml) list) list) option"
where
  "read_toml n s =
     (case read_entries n s of
        Some (es, r) \<Rightarrow>
          (case read_tables n r of
             Some ts \<Rightarrow> if toml_keys_once es ts then Some (es, ts) else None
           | None \<Rightarrow> None)
      | None \<Rightarrow> None)"

section \<open>The value an input stands for\<close>

fun toml_of :: "json \<Rightarrow> toml" where
  "toml_of (JString s) = TStr s"
| "toml_of (JBool b) = TBool b"
| "toml_of (JNumber n) = TInt (case as_i64 n of Some i \<Rightarrow> i | None \<Rightarrow> int (the (as_u64 n)))"
| "toml_of (JArray vs) = TArr (map toml_of vs)"
| "toml_of _ = TArr []"

definition toml_entries :: "(string \<times> json) list \<Rightarrow> (string \<times> toml) list" where
  "toml_entries ms = map (\<lambda>(k, v). (k, toml_of v)) ms"

definition is_table :: "string \<times> json \<Rightarrow> bool" where
  "is_table m \<longleftrightarrow> (case snd m of JObject _ \<Rightarrow> True | _ \<Rightarrow> False)"

fun table_of :: "string \<times> json \<Rightarrow> string \<times> (string \<times> toml) list" where
  "table_of (k, JObject ms) = (k, toml_entries ms)"
| "table_of (k, _) = (k, [])"

section \<open>Reading a value back\<close>

lemma toml_hex_upper: "d < 16 \<Longrightarrow> toml_hex (hex_upper_char d) = Some d"
  by (simp add: toml_hex_def hex_upper_char_def Let_def)

lemma toml_hex_byte:
  "toml_hex (hex_upper_char (of_char c div 16)) = Some (of_char c div 16)"
  "toml_hex (hex_upper_char (of_char c mod 16)) = Some (of_char c mod 16)"
  by (rule toml_hex_upper, simp add: less_mult_imp_div_less)+

interpretation toml_string: char_escape toml_escape toml_unescape "CHR 0x22"
  by unfold_locales
    (auto simp: toml_escape_def toml_unescape_def toml_raw_def toml_hex_byte Let_def toml_hex_def [of "CHR ''0''"]
      char_of_eq_iff)

text \<open>A value ends before a comma, a bracket or the end of its line.\<close>

definition value_end :: "string \<Rightarrow> bool" where
  "value_end r \<longleftrightarrow> r = [] \<or> \<not> is_number_char (hd r)"

lemma value_end_simps [simp]:
  "value_end []" "value_end (CHR '','' # r)" "value_end (CHR '']'' # r)" "value_end (CHR 0x0A # r)"
  by (simp_all add: value_end_def is_number_char_def is_digit_def)

lemma take_number:
  assumes "list_all is_number_char s" and "value_end r"
  shows "takeWhile is_number_char (s @ r) = s \<and> dropWhile is_number_char (s @ r) = r"
proof -
  have "takeWhile is_number_char r = []" and "dropWhile is_number_char r = r"
    using assms(2) by (cases r; simp add: value_end_def)+
  with assms(1) show ?thesis by (simp add: list_all_iff)
qed

lemma dec_number_chars: "list_all is_number_char (dec_int i)"
  by (auto simp: list_all_iff dest: dec_int_number_chars)

lemma dec_zero: "hd (dec n) = CHR ''0'' \<Longrightarrow> n = 0"
proof (induction n rule: dec.induct)
  case (1 n)
  show ?case
  proof (cases "n < 10")
    case True
    then have "digit_char n = CHR ''0''" using 1(2) by (simp add: dec.simps [of n])
    then have "digit_value (digit_char n) = 0" by (simp add: digit_value_def)
    then show ?thesis using True by simp
  next
    case False
    then have "hd (dec (n div 10)) = CHR ''0''" using 1(2) by (simp add: dec.simps [of n])
    then show ?thesis using 1(1) False by simp
  qed
qed

lemma toml_nat_dec [simp]: "toml_nat (dec n) = Some n"
proof -
  have "dec n = ''0'' \<or> hd (dec n) \<noteq> CHR ''0''"
    using dec_zero [of n] by (auto simp: dec.simps [of 0] digit_char_def)
  then show ?thesis by (auto simp: toml_nat_def parse_nat_def list_all_iff dest: dec_digits)
qed

lemma undec_int_dec [simp]: "undec_int (dec_int i) = Some i"
proof (cases "i < 0")
  case False
  obtain c r where d: "dec (nat i) = c # r" using dec_nonempty by (metis neq_Nil_conv)
  then have "c \<noteq> CHR ''-''" using hd_dec_digit [of "nat i"] minus_not_digit by auto
  with False d toml_nat_dec [of "nat i"] show ?thesis by (simp add: undec_int_def dec_int_def)
qed (simp add: undec_int_def dec_int_def)

lemma number_head:
  assumes "c # r = dec_int i @ q"
  shows "c \<noteq> CHR 0x22 \<and> c \<noteq> CHR ''t'' \<and> c \<noteq> CHR ''f'' \<and> c \<noteq> CHR ''[''"
proof -
  have "c = hd (dec_int i)" using assms by (metis dec_int_nonempty hd_append2 list.sel(1))
  then have "is_number_char c" using dec_int_number_chars [OF hd_in_set [OF dec_int_nonempty]] by simp
  then show ?thesis by (auto simp: is_number_char_def is_digit_def)
qed

lemma read_number:
  assumes "value_end r"
  shows "read_value (Suc n) (dec_int i @ r) = Some (TInt i, r)"
proof -
  obtain c q where c: "dec_int i @ r = c # q" by (cases "dec_int i @ r") simp_all
  then have "takeWhile is_number_char (c # q) = dec_int i" "dropWhile is_number_char (c # q) = r"
    using take_number [OF dec_number_chars assms, of i] by simp_all
  then show ?thesis
    using number_head [OF c [symmetric]] unfolding c by (auto simp del: takeWhile.simps dropWhile.simps)
qed

text \<open>Read back with any number of steps from some number on.\<close>

definition reads_as :: "string \<Rightarrow> toml \<Rightarrow> bool" where
  "reads_as t v \<longleftrightarrow> (\<forall>r. value_end r \<longrightarrow> (\<exists>n. \<forall>m \<ge> n. read_value m (t @ r) = Some (v, r)))"

lemma reads_asI:
  assumes "\<And>r m. value_end r \<Longrightarrow> n \<le> m \<Longrightarrow> read_value (Suc m) (t @ r) = Some (v, r)"
  shows "reads_as t v"
  unfolding reads_as_def
proof (intro allI impI)
  fix r assume r: "value_end r"
  show "\<exists>n. \<forall>m \<ge> n. read_value m (t @ r) = Some (v, r)"
  proof (intro exI allI impI)
    fix m assume "Suc n \<le> m"
    with assms [OF r, of "m - 1"] show "read_value m (t @ r) = Some (v, r)" by (cases m) simp_all
  qed
qed

lemma reads_string: "reads_as (quote_toml s) (TStr s)"
  by (rule reads_asI [of "Suc (length s)"]) (simp add: quote_toml_def toml_string.read_quoted_written)

lemma reads_bool: "reads_as (if b then ''true'' else ''false'') (TBool b)"
  by (rule reads_asI [of 0]) (cases b; simp)

lemma reads_int: "reads_as (dec_int i) (TInt i)"
  by (rule reads_asI [of 0]) (rule read_number)

lemma reads_elements:
  assumes "list_all2 reads_as ts vs" and "ts \<noteq> []"
  shows "\<exists>n. \<forall>m \<ge> n. read_elements m (join '', '' ts @ CHR '']'' # r) = Some (vs, r)"
  using assms
proof (induction ts vs rule: list_all2_induct)
  case (Cons t ts v vs)
  show ?case
  proof (cases "ts = []")
    case True
    with Cons have vs: "vs = []" by simp
    from Cons(1) obtain n where "\<forall>m \<ge> n. read_value m (t @ CHR '']'' # r) = Some (v, CHR '']'' # r)"
      by (metis reads_as_def value_end_simps(3))
    then have "read_elements (Suc m) (t @ CHR '']'' # r) = Some ([v], r)" if "n \<le> m" for m
      using that by simp
    then show ?thesis
      unfolding True vs by (intro exI [of _ "Suc n"] allI impI) (metis Suc_le_D Suc_le_mono join.simps(2))
  next
    case False
    let ?q = "join '', '' ts @ CHR '']'' # r"
    obtain t' ts' where ts: "ts = t' # ts'" using False by (cases ts) auto
    from Cons(3) False obtain n where n: "\<forall>m \<ge> n. read_elements m ?q = Some (vs, r)" by blast
    from Cons(1) obtain k where k: "\<forall>m \<ge> k. read_value m (t @ CHR '','' # CHR '' '' # ?q)
        = Some (v, CHR '','' # CHR '' '' # ?q)"
      by (metis reads_as_def value_end_simps(2))
    have "read_elements (Suc m) (t @ CHR '','' # CHR '' '' # ?q) = Some (v # vs, r)" if "max n k \<le> m" for m
      using that n k by simp
    then have "\<forall>m \<ge> Suc (max n k). read_elements m (t @ CHR '','' # CHR '' '' # ?q) = Some (v # vs, r)"
      by (metis Suc_le_D Suc_le_mono)
    then show ?thesis by (auto simp: ts)
  qed
qed simp

lemma value_head:
  assumes "reads_as t v"
  shows "t \<noteq> [] \<and> hd t \<noteq> CHR '']''"
proof -
  obtain n where "\<forall>m \<ge> n. read_value m (t @ []) = Some (v, [])"
    using assms value_end_simps(1) unfolding reads_as_def by blast
  then have n: "read_value (Suc n) t = Some (v, [])" by (metis append_Nil2 le_SucI le_refl)
  then have "t \<noteq> []" by auto
  moreover have "hd t \<noteq> CHR '']''"
  proof
    assume h: "hd t = CHR '']''"
    then obtain q where t: "t = CHR '']'' # q" using \<open>t \<noteq> []\<close> by (cases t) auto
    have "\<not> is_number_char (CHR '']'')" by (simp add: is_number_char_def is_digit_def)
    then show False using n by (simp add: t undec_int_def)
  qed
  ultimately show ?thesis by blast
qed

lemma reads_array:
  assumes "list_all2 reads_as ts vs"
  shows "reads_as (''['' @ join '', '' ts @ '']'') (TArr vs)"
proof (cases ts)
  case Nil
  with assms show ?thesis by (intro reads_asI [of 0]) simp
next
  case (Cons t ts')
  then have "reads_as t (hd vs)" using assms by (auto simp: list_all2_Cons1)
  then have t: "t \<noteq> []" "hd t \<noteq> CHR '']''" using value_head by blast+
  have h: "join '', '' ts = hd t # tl (join '', '' ts)" using t(1) unfolding Cons by (cases ts') auto
  show ?thesis
    unfolding reads_as_def
  proof (intro allI impI)
    fix r assume "value_end r"
    obtain n where n: "\<forall>m \<ge> n. read_elements m (join '', '' ts @ CHR '']'' # r) = Some (vs, r)"
      using reads_elements [OF assms, of r] Cons by blast
    have "read_value (Suc m) (''['' @ join '', '' ts @ '']'' @ r) = Some (TArr vs, r)" if "n \<le> m" for m
    proof -
      have np: "\<not> prefix ''[]'' (CHR ''['' # join '', '' ts @ CHR '']'' # r)" using t(2) by (subst h) simp
      show ?thesis using n that np by simp
    qed
    then have "\<forall>m \<ge> Suc n. read_value m ((''['' @ join '', '' ts @ '']'') @ r) = Some (TArr vs, r)"
      by (metis Suc_le_D Suc_le_mono append_assoc)
    then show "\<exists>n. \<forall>m \<ge> n. read_value m ((''['' @ join '', '' ts @ '']'') @ r) = Some (TArr vs, r)" by blast
  qed
qed

lemma render_reads:
  "render_value v f = Inr t \<Longrightarrow> reads_as t (toml_of v)"
  "render_items i vs f = Inr ts \<Longrightarrow> list_all2 reads_as ts (map toml_of vs)"
proof (induction v f and i vs f arbitrary: t and ts rule: render_value_render_items.induct)
  case (3 n f)
  then show ?case
    using reads_int reads_int [of "int u" for u] by (auto simp: dec_int_def split: option.splits)
next
  case (4 items f)
  then show ?case using reads_array by (auto simp: res_iff)
qed (use reads_string reads_bool in \<open>auto simp: res_iff simp del: if_split\<close>)

section \<open>Reading the file back\<close>

lemma bare_char_not: "\<not> bare_char (CHR '' '')" "\<not> bare_char (CHR '']'')" "\<not> bare_char (CHR 0x0A)"
  by (simp_all add: bare_char_def is_digit_def)

lemma read_bare_key:
  assumes "bare_key k" and "\<not> bare_char c"
  shows "read_key (k @ c # r) = Some (k, c # r)"
proof -
  have "\<And>x. x \<in> set k \<Longrightarrow> bare_char x" using assms(1) by (simp add: bare_key_def list_all_iff)
  then show ?thesis using assms by (simp add: read_key_def bare_key_def)
qed

lemma bare_key_head: "bare_key k \<Longrightarrow> k @ s \<noteq> [] \<and> hd (k @ s) \<noteq> CHR 0x0A"
  using bare_char_not by (cases k) (auto simp: bare_key_def)

definition body_end :: "string \<Rightarrow> bool" where
  "body_end r \<longleftrightarrow> r = [] \<or> hd r = CHR 0x0A"

lemma read_entry:
  assumes "bare_key k" and "reads_as t v"
    and "\<exists>n. \<forall>m \<ge> n. read_entries m s = Some (es, r)"
  shows "\<exists>n. \<forall>m \<ge> n. read_entries m (toml_line k t @ s) = Some ((k, v) # es, r)"
proof -
  obtain n where n: "\<forall>m \<ge> n. read_value m (t @ CHR 0x0A # s) = Some (v, CHR 0x0A # s)"
    using assms(2) unfolding reads_as_def by (metis value_end_simps(4))
  obtain n' where n': "\<forall>m \<ge> n'. read_entries m s = Some (es, r)" using assms(3) by blast
  have k: "read_key (k @ '' = '' @ t @ CHR 0x0A # s) = Some (k, '' = '' @ t @ CHR 0x0A # s)"
    using read_bare_key [OF assms(1) bare_char_not(1)] by simp
  have "read_entries (Suc m) (toml_line k t @ s) = Some ((k, v) # es, r)" if "max n n' \<le> m" for m
    using that n n' k bare_key_head [OF assms(1), of "'' = '' @ t @ CHR 0x0A # s"]
    by (simp add: toml_line_def)
  then show ?thesis by (metis Suc_le_D Suc_le_mono)
qed

lemma read_entries_end: "body_end r \<Longrightarrow> \<exists>n. \<forall>m \<ge> n. read_entries m r = Some ([], r)"
  by (rule exI [of _ 1], intro allI impI, case_tac m) (auto simp: body_end_def)

lemma render_inner_reads:
  assumes "render_inner key ms = Inr t" and "list_all (\<lambda>(k, _). bare_key k) ms" and "body_end r"
  shows "\<exists>n. \<forall>m \<ge> n. read_entries m (t @ r) = Some (toml_entries ms, r)"
  using assms(1,2)
proof (induction ms arbitrary: t)
  case Nil
  then show ?case using read_entries_end [OF assms(3)] by (simp add: toml_entries_def)
next
  case (Cons x ms)
  obtain k v where x: "x = (k, v)" by (cases x)
  from Cons.prems x obtain u q where u: "render_value v (key @ ''.'' @ k) = Inr u"
    and q: "render_inner key ms = Inr q" and t: "t = toml_line k u @ q" by (auto simp: res_iff)
  from Cons.IH [OF q] Cons.prems(2) have "\<exists>n. \<forall>m \<ge> n. read_entries m (q @ r) = Some (toml_entries ms, r)" by simp
  from read_entry [OF _ render_reads(1) [OF u] this, of k] Cons.prems(2) x
  show ?case by (simp add: t toml_entries_def)
qed

text \<open>Keys that are bare at both levels.\<close>

definition bare_member :: "string \<times> json \<Rightarrow> bool" where
  "bare_member m \<longleftrightarrow> bare_key (fst m) \<and>
     (case snd m of JObject ms \<Rightarrow> list_all (\<lambda>(k, _). bare_key k) ms | _ \<Rightarrow> True)"

fun tables_text :: "(string \<times> json) list \<Rightarrow> prove_error + string" where
  "tables_text [] = Inr []"
| "tables_text ((k, JObject nested) # ms) =
     and_then (render_inner k nested) (\<lambda>body.
     and_then (tables_text ms) (\<lambda>rest. Inr ([CHR 0x0A] @ ''['' @ k @ '']'' @ [CHR 0x0A] @ body @ rest)))"
| "tables_text ((k, _) # ms) = tables_text ms"

lemma render_fields_scalar:
  assumes "\<not> is_table (k, v)"
  shows "render_fields ((k, v) # ms) s t = and_then (render_value v k) (\<lambda>rendered.
           render_fields ms (s @ toml_line k rendered) t)"
    and "tables_text ((k, v) # ms) = tables_text ms"
  using assms by (cases v; simp add: is_table_def)+

lemma render_fields_split:
  assumes "render_fields ms s t = Inr out" and "list_all bare_member ms"
  shows "\<exists>u q. tables_text ms = Inr q \<and> out = s @ u @ t @ q \<and> (\<forall>r. body_end r \<longrightarrow>
        (\<exists>n. \<forall>m \<ge> n. read_entries m (u @ r) = Some (toml_entries (filter (\<lambda>x. \<not> is_table x) ms), r)))"
  using assms
proof (induction ms arbitrary: s t)
  case Nil
  then show ?case using read_entries_end by (auto simp: toml_entries_def)
next
  case (Cons x ms)
  obtain k v where x: "x = (k, v)" by (cases x)
  show ?case
  proof (cases "is_table x")
    case True
    then obtain nested where v: "v = JObject nested" by (auto simp: x is_table_def split: json.splits)
    let ?head = "[CHR 0x0A] @ ''['' @ k @ '']'' @ [CHR 0x0A]"
    from Cons.prems(1) obtain body where b: "render_inner k nested = Inr body"
      and f: "render_fields ms s (t @ ?head @ body) = Inr out"
      by (auto simp: x v res_iff)
    from Cons.IH [OF f] Cons.prems(2) obtain u q where q: "tables_text ms = Inr q"
      and out: "out = s @ u @ (t @ ?head @ body) @ q"
      and r: "\<forall>r. body_end r \<longrightarrow>
        (\<exists>n. \<forall>m \<ge> n. read_entries m (u @ r) = Some (toml_entries (filter (\<lambda>x. \<not> is_table x) ms), r))"
      by auto
    show ?thesis
      by (rule exI [of _ u], rule exI [of _ "?head @ body @ q"]) (use q out r b True in \<open>simp add: x v\<close>)
  next
    case False
    note scalar = render_fields_scalar [OF False [unfolded x]]
    from Cons.prems(1) obtain rendered where v: "render_value v k = Inr rendered"
      and f: "render_fields ms (s @ toml_line k rendered) t = Inr out"
      by (auto simp: x scalar res_iff)
    from Cons.IH [OF f] Cons.prems(2) obtain u q where q: "tables_text ms = Inr q"
      and out: "out = (s @ toml_line k rendered) @ u @ t @ q"
      and r: "\<And>r. body_end r \<Longrightarrow>
        \<exists>n. \<forall>m \<ge> n. read_entries m (u @ r) = Some (toml_entries (filter (\<lambda>x. \<not> is_table x) ms), r)"
      by auto
    have k: "bare_key k" using Cons.prems(2) by (simp add: x bare_member_def)
    have e: "toml_entries (filter (\<lambda>x. \<not> is_table x) (x # ms))
        = (k, toml_of v) # toml_entries (filter (\<lambda>x. \<not> is_table x) ms)"
      using False by (simp add: x toml_entries_def)
    have "\<exists>n. \<forall>m \<ge> n. read_entries m ((toml_line k rendered @ u) @ r)
        = Some (toml_entries (filter (\<lambda>x. \<not> is_table x) (x # ms)), r)" if "body_end r" for r
      using read_entry [OF k render_reads(1) [OF v] r [OF that]] e by simp
    then show ?thesis
      using q out by (intro exI [of _ "toml_line k rendered @ u"] exI [of _ q]) (simp add: x scalar)
  qed
qed

lemma tables_text_end: "tables_text ms = Inr q \<Longrightarrow> body_end q"
  by (induction ms arbitrary: q rule: tables_text.induct) (auto simp: body_end_def res_iff)

lemma tables_text_reads:
  assumes "tables_text ms = Inr q" and "list_all bare_member ms"
  shows "\<exists>n. \<forall>m \<ge> n. read_tables m q = Some (map table_of (filter is_table ms))"
  using assms
proof (induction ms arbitrary: q)
  case Nil
  then have "read_tables (Suc m) q = Some []" for m by simp
  then show ?case by (intro exI [of _ 1] allI impI) (metis One_nat_def Suc_le_D filter.simps(1) list.simps(8))
next
  case (Cons x ms)
  obtain k v where x: "x = (k, v)" by (cases x)
  show ?case
  proof (cases "is_table x")
    case False
    with Cons show ?thesis using render_fields_scalar(2) [of k v ms] by (simp add: x)
  next
    case True
    then obtain nested where v: "v = JObject nested" by (auto simp: x is_table_def split: json.splits)
    from Cons.prems(1) obtain body rest where b: "render_inner k nested = Inr body"
      and rest: "tables_text ms = Inr rest"
      and q: "q = [CHR 0x0A] @ ''['' @ k @ '']'' @ [CHR 0x0A] @ body @ rest"
      by (auto simp: x v res_iff)
    have k: "bare_key k" and inner: "list_all (\<lambda>(k, _). bare_key k) nested"
      using Cons.prems(2) by (simp_all add: x v bare_member_def)
    from Cons.IH [OF rest] Cons.prems(2) obtain n where
      n: "\<forall>m \<ge> n. read_tables m rest = Some (map table_of (filter is_table ms))" by auto
    from render_inner_reads [OF b inner tables_text_end [OF rest]] obtain n' where
      n': "\<forall>m \<ge> n'. read_entries m (body @ rest) = Some (toml_entries nested, rest)" by blast
    have key: "read_key (k @ CHR '']'' # CHR 0x0A # body @ rest) = Some (k, CHR '']'' # CHR 0x0A # body @ rest)"
      by (rule read_bare_key [OF k bare_char_not(2)])
    have "read_tables (Suc m) q = Some (map table_of (filter is_table (x # ms)))" if "max n n' \<le> m" for m
      using that n n' key True by (simp add: q x v)
    then show ?thesis by (metis Suc_le_D Suc_le_mono)
  qed
qed

section \<open>Properties\<close>

lemma rendered_keys_once:
  assumes "wf_json (JObject ms)"
  shows "toml_keys_once (toml_entries (filter (\<lambda>x. \<not> is_table x) ms)) (map table_of (filter is_table ms))"
proof -
  have d: "distinct (map fst ms)" using assms by simp
  have e: "map fst (toml_entries xs) = map fst xs" for xs by (induction xs) (auto simp: toml_entries_def)
  have t: "map fst (map table_of (filter is_table xs)) = map fst (filter is_table xs)" for xs
  proof (induction xs)
    case (Cons x xs)
    then show ?case by (cases x; cases "snd x") auto
  qed simp
  have "distinct (map fst (filter (\<lambda>x. \<not> is_table x) ms) @ map fst (filter is_table ms))"
    using d by (auto simp: distinct_map_filter distinct_map dest: inj_onD intro: inj_on_subset)
  moreover have "distinct (map fst (snd (table_of x)))" if "x \<in> set ms" for x
  proof (cases x)
    case (Pair k v)
    have "wf_json v" using assms that Pair by force
    then show ?thesis unfolding Pair by (cases v) (simp_all add: e del: map_map)
  qed
  ultimately show ?thesis unfolding toml_keys_once_def e t by (auto simp: list_all_iff split_def)
qed

text \<open>
  Claim C21. When the inputs' keys are bare keys of TOML, a reader of the rendered \<open>Prover.toml\<close> finds
  exactly the inputs: every top-level value under its key with its own value, in order, then a table for
  every nested object with exactly its members. Whatever quotes, brackets, newlines or control characters
  a string value holds, it adds no line, ends no string early and changes no other input; the reader is as
  strict as TOML 1.0 on what a string may hold, on numbers and on keys defined twice.
\<close>
theorem prover_toml_round_trip:
  assumes "render_prover_toml (JObject ms) = Inr t" and "list_all bare_member ms" and "wf_json (JObject ms)"
  shows "\<exists>n. \<forall>m \<ge> n. read_toml m t
           = Some (toml_entries (filter (\<lambda>x. \<not> is_table x) ms), map table_of (filter is_table ms))"
proof -
  from render_fields_split [of ms "[]" "[]" t] assms(1,2) obtain u q where q: "tables_text ms = Inr q" "t = u @ q"
    and u: "\<And>r. body_end r \<Longrightarrow> \<exists>n. \<forall>m \<ge> n. read_entries m (u @ r)
      = Some (toml_entries (filter (\<lambda>x. \<not> is_table x) ms), r)"
    by (auto simp: render_prover_toml_def)
  obtain n where n: "\<forall>m \<ge> n. read_entries m (u @ q) = Some (toml_entries (filter (\<lambda>x. \<not> is_table x) ms), q)"
    using u [OF tables_text_end [OF q(1)]] by blast
  obtain n' where n': "\<forall>m \<ge> n'. read_tables m q = Some (map table_of (filter is_table ms))"
    using tables_text_reads [OF q(1) assms(2)] by blast
  show ?thesis
    by (rule exI [of _ "max n n'"])
      (use n n' q(2) rendered_keys_once [OF assms(3)] in \<open>simp add: read_toml_def\<close>)
qed

theorem prover_toml_round_trip_witness:
  "\<exists>n. \<forall>m \<ge> n. read_toml m (concat [''amount = '', [CHR 0x22], ''5'', [CHR 0x5C, CHR 0x22, CHR 0x5C], ''n'', [CHR 0x22, CHR 0x0A],
       [CHR 0x0A], ''[note]'', [CHR 0x0A], ''flags = [true, false]'', [CHR 0x0A]])
     = Some ([(''amount'', TStr [CHR ''5'', CHR 0x22, CHR 0x0A])],
             [(''note'', [(''flags'', TArr [TBool True, TBool False])])])"
  using prover_toml_round_trip [of "[(''note'', JObject [(''flags'', JArray [JBool True, JBool False])]),
      (''amount'', JString [CHR ''5'', CHR 0x22, CHR 0x0A])]"]
  by (simp add: render_prover_toml_def quote_toml_def toml_escape_def toml_line_def bare_member_def bare_key_def
      bare_char_def is_digit_def is_table_def toml_entries_def Let_def)

lemma render_value_field:
  "render_value v f = Inr t \<Longrightarrow> render_value v f' = Inr t"
  "render_items i vs f = Inr ts \<Longrightarrow> render_items i vs f' = Inr ts"
proof (induction v f and i vs f arbitrary: t f' and ts f' rule: render_value_render_items.induct)
  case (3 n f)
  then show ?case by (auto split: option.splits)
next
  case (4 items f)
  from 4(2) obtain us where us: "render_items 0 items f = Inr us" and t: "t = ''['' @ join '', '' us @ '']''"
    by (auto simp: res_iff)
  show ?case by (simp add: 4(1) [OF us] t)
next
  case (8 i item items f)
  from 8(3) obtain t us where t: "render_value item (f @ ''['' @ dec i @ '']'') = Inr t"
    and us: "render_items (Suc i) items f = Inr us" and ts: "ts = t # us" by (auto simp: res_iff)
  show ?case by (simp add: 8(1) [OF t] 8(2) [OF t us] ts)
qed simp_all

lemma render_fields_prefix:
  assumes "\<And>s t. render_fields ms s t = render_fields ms' s t"
  shows "render_fields (pre @ ms) s t = render_fields (pre @ ms') s t"
proof (induction pre arbitrary: s t)
  case (Cons x pre)
  obtain k v where x: "x = (k, v)" by (cases x)
  show ?case using Cons.IH unfolding x by (cases v) simp_all
qed (simp add: assms)



end
