(* ===== verification/Validate.thy ===== *)
theory Validate
  imports Bounded Job_Identity
begin

text \<open>
  Request validation, \<open>crates/dray-api/src/validate.rs\<close>. The JSON Schema validator is a parameter: for
  a schema and a value it gives the text of the error that the schema is itself invalid, or the problems
  found, each with the text of its location and its own. A \<open>usize\<close> is a natural number.
\<close>

section \<open>Limits and errors\<close>

record limits =
  max_body_bytes :: nat
  max_circuit_id_len :: nat
  max_idempotency_key_len :: nat
  max_array_len :: nat
  max_string_len :: nat

definition default_limits :: limits where
  "default_limits =
     \<lparr> max_body_bytes = 256 * 1024, max_circuit_id_len = 128, max_idempotency_key_len = 255,
       max_array_len = 4096, max_string_len = 4096 \<rparr>"

datatype validation_error =
    EmptyCircuitId
  | CircuitIdTooLong nat nat
  | CircuitIdNotSlug string
  | IdempotencyKeyTooLong nat nat
  | InputsNotAnObject string
  | ArrayTooLong string nat nat
  | StringTooLong string nat nat
  | SchemaMismatch string
  | Canonical canonical_error

text \<open>
  \<open>{:?}\<close> of a \<open>str\<close>. Control characters of ASCII are escaped; the characters beyond ASCII that are not
  printable are escaped in the source too, and left as they are here.
\<close>

fun hex_of :: "nat \<Rightarrow> string" where
  "hex_of n = (if n < 16 then [hex_char n] else hex_of (n div 16) @ [hex_char (n mod 16)])"

declare hex_of.simps [simp del]

definition debug_char :: "char \<Rightarrow> string" where
  "debug_char c =
     (if c = CHR 0x00 then [CHR 0x5C, CHR ''0'']
      else if c = CHR 0x09 then [CHR 0x5C, CHR ''t'']
      else if c = CHR 0x0D then [CHR 0x5C, CHR ''r'']
      else if c = CHR 0x0A then [CHR 0x5C, CHR ''n'']
      else if c = CHR 0x22 \<or> c = CHR 0x5C then [CHR 0x5C, c]
      else if (of_char c :: nat) < 0x20 \<or> (of_char c :: nat) = 0x7F
      then [CHR 0x5C, CHR ''u'', CHR ''{''] @ hex_of (of_char c) @ ''}''
      else [c])"

definition debug_str :: "string \<Rightarrow> string" where
  "debug_str s = CHR 0x22 # concat (map debug_char s) @ [CHR 0x22]"

fun canonical_error_text :: "canonical_error \<Rightarrow> string" where
  "canonical_error_text (FloatNotAllowed path) =
     ''floating-point numbers are not accepted in circuit inputs (at '' @ path
       @ ''); use an integer or a decimal string''"
| "canonical_error_text (DuplicateKey path key) = ''duplicate object key '' @ debug_str key @ '' at '' @ path"
| "canonical_error_text (TooDeep depth limit) =
     ''input nests '' @ dec depth @ '' levels deep, exceeding the limit of '' @ dec limit"

fun validation_error_text :: "validation_error \<Rightarrow> string" where
  "validation_error_text EmptyCircuitId = ''circuit id must not be empty''"
| "validation_error_text (CircuitIdTooLong len limit) =
     ''circuit id is '' @ dec len @ '' characters, exceeding the limit of '' @ dec limit"
| "validation_error_text (CircuitIdNotSlug cid) =
     ''circuit id '' @ debug_str cid @ '' contains characters outside [a-z0-9_-]; ''
       @ ''circuit ids appear in metrics and paths, so they are kept plain''"
| "validation_error_text (IdempotencyKeyTooLong len limit) =
     ''idempotency key is '' @ dec len @ '' characters, exceeding the limit of '' @ dec limit"
| "validation_error_text (InputsNotAnObject found) = ''inputs must be a JSON object, found '' @ found"
| "validation_error_text (ArrayTooLong path len limit) =
     ''array at '' @ path @ '' has '' @ dec len @ '' elements, exceeding the limit of '' @ dec limit"
| "validation_error_text (StringTooLong path len limit) =
     ''string at '' @ path @ '' is '' @ dec len @ '' characters, exceeding the limit of '' @ dec limit"
| "validation_error_text (SchemaMismatch detail) =
     ''inputs do not match the schema for this circuit: '' @ detail"
| "validation_error_text (Canonical err) = ''inputs could not be canonicalised: '' @ canonical_error_text err"

fun json_type_name :: "json \<Rightarrow> string" where
  "json_type_name JNull = ''null''"
| "json_type_name (JBool _) = ''a boolean''"
| "json_type_name (JNumber _) = ''a number''"
| "json_type_name (JString _) = ''a string''"
| "json_type_name (JArray _) = ''an array''"
| "json_type_name (JObject _) = ''an object''"

section \<open>The checks\<close>

definition slug_char :: "char \<Rightarrow> bool" where
  "slug_char c \<longleftrightarrow>
     (let n = (of_char c :: nat) in 97 \<le> n \<and> n \<le> 122) \<or> is_digit c \<or> c = CHR ''_'' \<or> c = CHR ''-''"

definition check_circuit_id :: "string \<Rightarrow> limits \<Rightarrow> validation_error + unit" where
  "check_circuit_id cid lims =
     (if cid = [] then Inl EmptyCircuitId
      else if max_circuit_id_len lims < length cid
      then Inl (CircuitIdTooLong (length cid) (max_circuit_id_len lims))
      else if \<not> list_all slug_char cid then Inl (CircuitIdNotSlug cid)
      else Inr ())"

definition check_idempotency_key :: "string option \<Rightarrow> limits \<Rightarrow> validation_error + unit" where
  "check_idempotency_key key lims =
     (case key of
        Some k \<Rightarrow>
          if max_idempotency_key_len lims < length k
          then Inl (IdempotencyKeyTooLong (length k) (max_idempotency_key_len lims)) else Inr ()
      | None \<Rightarrow> Inr ())"

text \<open>\<open>chars().count()\<close>.\<close>

definition char_count :: "string \<Rightarrow> nat" where
  "char_count s = length (filter (\<lambda>c. \<not> continuation c) s)"

fun walk :: "json \<Rightarrow> string \<Rightarrow> limits \<Rightarrow> validation_error + unit"
  and walk_items :: "nat \<Rightarrow> json list \<Rightarrow> string \<Rightarrow> limits \<Rightarrow> validation_error + unit"
  and walk_members :: "(string \<times> json) list \<Rightarrow> string \<Rightarrow> limits \<Rightarrow> validation_error + unit"
where
  "walk (JString s) path lims =
     (if max_string_len lims < char_count s
      then Inl (StringTooLong path (char_count s) (max_string_len lims)) else Inr ())"
| "walk (JArray items) path lims =
     (if max_array_len lims < length items
      then Inl (ArrayTooLong path (length items) (max_array_len lims))
      else walk_items 0 items path lims)"
| "walk (JObject ms) path lims = walk_members ms path lims"
| "walk _ path lims = Inr ()"
| "walk_items i [] path lims = Inr ()"
| "walk_items i (item # items) path lims =
     and_then (walk item (path @ ''['' @ dec i @ '']'') lims) (\<lambda>_. walk_items (Suc i) items path lims)"
| "walk_members [] path lims = Inr ()"
| "walk_members ((key, val) # ms) path lims =
     and_then (walk val (path @ ''.'' @ key) lims) (\<lambda>_. walk_members ms path lims)"

definition check_input_limits :: "json \<Rightarrow> limits \<Rightarrow> validation_error + unit" where
  "check_input_limits inputs lims =
     (case inputs of
        JObject _ \<Rightarrow> walk inputs ''$'' lims
      | _ \<Rightarrow> Inl (InputsNotAnObject (json_type_name inputs)))"

text \<open>The parameter: the problems a JSON Schema validator finds in a value.\<close>

type_synonym schema_validator = "json \<Rightarrow> json \<Rightarrow> string + (string \<times> string) list"

definition check_against_schema :: "schema_validator \<Rightarrow> json \<Rightarrow> json \<Rightarrow> validation_error + unit" where
  "check_against_schema validator inputs schema =
     and_then (map_err (\<lambda>e. SchemaMismatch (''the circuit'' @ [CHR 0x27] @ ''s schema is itself invalid: '' @ e)) (validator schema inputs))
       (\<lambda>found.
     let problems = map (\<lambda>(location, err). if location = [] then err else location @ '': '' @ err) found in
     if problems = [] then Inr () else Inl (SchemaMismatch (join ''; '' problems)))"

definition validate_submission ::
  "schema_validator \<Rightarrow> string \<Rightarrow> json \<Rightarrow> string option \<Rightarrow> json \<Rightarrow> limits \<Rightarrow> validation_error + unit" where
  "validate_submission validator cid inputs key schema lims =
     and_then (check_circuit_id cid lims) (\<lambda>_.
     and_then (check_idempotency_key key lims) (\<lambda>_.
     and_then (check_input_limits inputs lims) (\<lambda>_.
     and_then (check_against_schema validator inputs schema) (\<lambda>_.
     and_then (map_err Canonical (canonicalise inputs)) (\<lambda>_.
     Inr ())))))"

section \<open>What an accepted submission is\<close>

text \<open>The specification: a value within the limits, at every level.\<close>

fun within_limits :: "limits \<Rightarrow> json \<Rightarrow> bool" where
  "within_limits lims (JString s) \<longleftrightarrow> char_count s \<le> max_string_len lims"
| "within_limits lims (JArray vs) \<longleftrightarrow> length vs \<le> max_array_len lims \<and> list_all (within_limits lims) vs"
| "within_limits lims (JObject ms) \<longleftrightarrow> list_all (\<lambda>m. within_limits lims (snd m)) ms"
| "within_limits lims _ \<longleftrightarrow> True"

lemma walk_accepts:
  "walk v path lims = Inr () \<longleftrightarrow> within_limits lims v"
  "walk_items i vs path lims = Inr () \<longleftrightarrow> list_all (within_limits lims) vs"
  "walk_members ms path lims = Inr () \<longleftrightarrow> list_all (\<lambda>m. within_limits lims (snd m)) ms"
  by (induction v path lims and i vs path lims and ms path lims rule: walk_walk_items_walk_members.induct)
    (auto simp: res_iff)

text \<open>
  Claim C28. Validation accepts exactly the submissions the rest of the system can work with: a circuit id
  of plain characters within its limit, an idempotency key within its limit, an object whose strings and
  arrays are within the limits at every depth, which the circuit's schema accepts, and which has a
  canonical form (no float, not too deep), so that computing the job's hash cannot fail later.
\<close>
theorem validation_accepts_exactly:
  assumes "wf_json inputs"
  shows "validate_submission validator cid inputs key schema lims = Inr () \<longleftrightarrow>
    cid \<noteq> [] \<and> length cid \<le> max_circuit_id_len lims \<and> list_all slug_char cid \<and>
    (case key of Some k \<Rightarrow> length k \<le> max_idempotency_key_len lims | None \<Rightarrow> True) \<and>
    (case inputs of JObject _ \<Rightarrow> within_limits lims inputs | _ \<Rightarrow> False) \<and>
    validator schema inputs = Inr [] \<and> float_free inputs \<and> nested_within MAX_DEPTH inputs"
proof -
  have "check_circuit_id cid lims = Inr () \<longleftrightarrow>
      cid \<noteq> [] \<and> length cid \<le> max_circuit_id_len lims \<and> list_all slug_char cid"
    by (auto simp: check_circuit_id_def)
  moreover have "check_idempotency_key key lims = Inr () \<longleftrightarrow>
      (case key of Some k \<Rightarrow> length k \<le> max_idempotency_key_len lims | None \<Rightarrow> True)"
    by (auto simp: check_idempotency_key_def split: option.splits)
  moreover have "check_input_limits inputs lims = Inr () \<longleftrightarrow>
      (case inputs of JObject _ \<Rightarrow> within_limits lims inputs | _ \<Rightarrow> False)"
    by (cases inputs) (simp_all add: check_input_limits_def walk_accepts)
  moreover have "check_against_schema validator inputs schema = Inr () \<longleftrightarrow> validator schema inputs = Inr []"
    by (auto simp: check_against_schema_def res_iff)
  moreover have "(\<exists>t. canonicalise inputs = Inr t) \<longleftrightarrow> float_free inputs \<and> nested_within MAX_DEPTH inputs"
    using write_accepts(1) [OF assms, of "''$''" 0] by (simp add: canonicalise_def)
  ultimately show ?thesis by (simp add: validate_submission_def res_iff)
qed

theorem validation_accepts_exactly_witness:
  "validate_submission (\<lambda>_ _. Inr []) ''range-proof'' (JObject [(''x'', JArray [JBool True])]) (Some ''k'')
     JNull default_limits = Inr () \<and>
   validate_submission (\<lambda>_ _. Inr []) ''Range'' (JObject []) None JNull default_limits \<noteq> Inr ()"
proof
  show "validate_submission (\<lambda>_ _. Inr []) ''range-proof'' (JObject [(''x'', JArray [JBool True])]) (Some ''k'')
     JNull default_limits = Inr ()"
    by (subst validation_accepts_exactly)
      (simp_all add: default_limits_def slug_char_def is_digit_def Let_def MAX_DEPTH_def)
  show "validate_submission (\<lambda>_ _. Inr []) ''Range'' (JObject []) None JNull default_limits \<noteq> Inr ()"
    by (subst validation_accepts_exactly) (simp_all add: slug_char_def is_digit_def Let_def)
qed

end
