(* ===== verification/Leases.thy ===== *)
theory Leases
  imports Backoff Store_Properties
begin

text \<open>
  The mirror of the leases in Redis, \<open>crates/dray-store/src/leases.rs\<close>. Redis is a parameter: a
  record of the three commands the code sends over a state of the server. \<open>redis_up\<close> states what their
  documentation says of a server that answers. Every operation of the mirror ignores failures.
\<close>

section \<open>Keys\<close>

text \<open>\<open>Display\<close> of a \<open>Uuid\<close>: 32 hexadecimal digits in groups of 8, 4, 4, 4 and 12.\<close>

fun hex_digits :: "nat \<Rightarrow> nat \<Rightarrow> string" where
  "hex_digits 0 n = []"
| "hex_digits (Suc width) n = hex_char (n div 16 ^ width mod 16) # hex_digits width n"

definition uuid_text :: "uuid \<Rightarrow> string" where
  "uuid_text i =
     (let h = hex_digits 32 i in
      take 8 h @ ''-'' @ take 4 (drop 8 h) @ ''-'' @ take 4 (drop 12 h) @ ''-'' @ take 4 (drop 16 h)
        @ ''-'' @ drop 20 h)"

definition KEY_PREFIX :: string where
  "KEY_PREFIX = ''dray:lease:''"

definition lease_key :: "uuid \<Rightarrow> string" where
  "lease_key jid = KEY_PREFIX @ uuid_text jid"

section \<open>The operations\<close>

text \<open>\<open>SET key value EX seconds\<close> and \<open>DEL key\<close> say whether they succeeded; \<open>GET\<close> may not answer.\<close>

record 'r redis =
  rd_set :: "string \<Rightarrow> string \<Rightarrow> nat \<Rightarrow> 'r \<Rightarrow> bool \<times> 'r"
  rd_del :: "string \<Rightarrow> 'r \<Rightarrow> bool \<times> 'r"
  rd_get :: "string \<Rightarrow> 'r \<Rightarrow> string option option"

datatype liveness = Held string | Free | Unknown

fun is_definitely_free :: "liveness \<Rightarrow> bool" where
  "is_definitely_free Free = True"
| "is_definitely_free _ = False"

definition as_secs :: "duration \<Rightarrow> nat" where
  "as_secs d = d div 10 ^ 9"

definition record_lease :: "'r redis \<Rightarrow> uuid \<Rightarrow> string \<Rightarrow> duration \<Rightarrow> 'r \<Rightarrow> 'r" where
  "record_lease R jid worker_id ttl r =
     (let seconds = max (as_secs ttl) 1 in snd (rd_set R (lease_key jid) worker_id seconds r))"

definition forget :: "'r redis \<Rightarrow> uuid \<Rightarrow> 'r \<Rightarrow> 'r" where
  "forget R jid r = snd (rd_del R (lease_key jid) r)"

definition liveness_of :: "'r redis \<Rightarrow> uuid \<Rightarrow> 'r \<Rightarrow> liveness" where
  "liveness_of R jid r =
     (case rd_get R (lease_key jid) r of
        Some (Some worker) \<Rightarrow> Held worker
      | Some None \<Rightarrow> Free
      | None \<Rightarrow> Unknown)"

fun record_all :: "'r redis \<Rightarrow> (uuid \<times> string \<times> interval) list \<Rightarrow> 'r \<Rightarrow> 'r" where
  "record_all R [] r = r"
| "record_all R ((jid, worker_id, remaining) # ls) r =
     record_all R ls (record_lease R jid worker_id (nat remaining * 1000) r)"

definition rebuild :: "'r redis \<Rightarrow> time \<Rightarrow> db \<Rightarrow> 'r \<Rightarrow> nat \<times> 'r" where
  "rebuild R now db r = (let live = live_leases now db in (length live, record_all R live r))"

section \<open>Facts\<close>

lemma length_hex_digits [simp]: "length (hex_digits w n) = w"
  by (induction w) simp_all

lemma hex_digits_inject: "hex_digits w m = hex_digits w n \<Longrightarrow> m mod 16 ^ w = n mod 16 ^ w"
proof (induction w)
  case (Suc w)
  then have "hex_value (hex_char (m div 16 ^ w mod 16)) = hex_value (hex_char (n div 16 ^ w mod 16))" by simp
  then have "m div 16 ^ w mod 16 = n div 16 ^ w mod 16" by (simp del: hex_value_def)
  moreover have "m mod 16 ^ w = n mod 16 ^ w" using Suc by simp
  moreover have "k mod 16 ^ Suc w = 16 ^ w * (k div 16 ^ w mod 16) + k mod 16 ^ w" for k :: nat
    by (metis mod_mult2_eq mult.commute power_Suc)
  ultimately show ?case by metis
qed simp

lemma uuid_text_inject:
  assumes "i < 2 ^ 128" and "j < 2 ^ 128" and "uuid_text i = uuid_text j"
  shows "i = j"
proof -
  let ?h = "hex_digits 32"
  have split: "?h n = take 8 (?h n) @ take 4 (drop 8 (?h n)) @ take 4 (drop 12 (?h n)) @ take 4 (drop 16 (?h n)) @ drop 20 (?h n)" for n
    by (metis append_take_drop_id drop_drop numeral_plus_numeral add_One semiring_norm(2,3,4,5,6))
  have "?h i = ?h j"
    using assms(3) unfolding uuid_text_def Let_def by (subst (1 2) split) simp
  then have "i mod 16 ^ 32 = j mod 16 ^ 32" by (rule hex_digits_inject)
  moreover have "(16 :: nat) ^ 32 = 2 ^ 128" by simp
  ultimately show ?thesis using assms(1,2) by simp
qed

text \<open>An identifier has 128 bits.\<close>

definition is_uuid :: "uuid \<Rightarrow> bool" where
  "is_uuid i \<longleftrightarrow> i < 2 ^ 128"

lemma lease_key_inject: "is_uuid i \<Longrightarrow> is_uuid j \<Longrightarrow> lease_key i = lease_key j \<longleftrightarrow> i = j"
  by (auto simp: lease_key_def is_uuid_def simp del: power_numeral dest: uuid_text_inject)

text \<open>
  The specification of a server that answers: \<open>SET\<close> with a positive expiry and \<open>DEL\<close> succeed and change
  one key, \<open>GET\<close> answers what the key holds.
\<close>

definition redis_up :: "'r redis \<Rightarrow> bool" where
  "redis_up R \<longleftrightarrow>
     (\<forall>k v n r. 0 < n \<longrightarrow> fst (rd_set R k v n r) \<and>
        (\<forall>k'. rd_get R k' (snd (rd_set R k v n r)) = (if k' = k then Some (Some v) else rd_get R k' r))) \<and>
     (\<forall>k r. fst (rd_del R k r) \<and>
        (\<forall>k'. rd_get R k' (snd (rd_del R k r)) = (if k' = k then Some None else rd_get R k' r)))"

lemma liveness_record:
  assumes "redis_up R" and "is_uuid i" and "is_uuid j"
  shows "liveness_of R i (record_lease R j w ttl r) = (if i = j then Held w else liveness_of R i r)"
  using assms lease_key_inject [OF assms(2,3)]
  by (simp add: liveness_of_def record_lease_def redis_up_def Let_def)

lemma liveness_forget:
  assumes "redis_up R" and "is_uuid i" and "is_uuid j"
  shows "liveness_of R i (forget R j r) = (if i = j then Free else liveness_of R i r)"
  using assms lease_key_inject [OF assms(2,3)]
  by (simp add: liveness_of_def forget_def redis_up_def)

lemma liveness_record_all:
  assumes "redis_up R" and "is_uuid i" and "list_all (\<lambda>(j, _). is_uuid j) ls" and "distinct (map fst ls)"
  shows "liveness_of R i (record_all R ls r)
    = (case map_of (map (\<lambda>(j, w, _). (j, w)) ls) i of Some w \<Rightarrow> Held w | None \<Rightarrow> liveness_of R i r)"
  using assms(3,4)
proof (induction ls arbitrary: r)
  case (Cons l ls)
  obtain j w d where l: "l = (j, w, d)" by (cases l)
  have "i = j \<Longrightarrow> map_of (map (\<lambda>(j, w, _). (j, w)) ls) i = None"
    using Cons.prems(2) by (auto simp: l map_of_eq_None_iff image_iff)
  with Cons show ?case
    using liveness_record [OF assms(1,2), of j w] by (auto simp: l split: option.splits)
qed simp

text \<open>The leases \<open>live_leases\<close> returns.\<close>

definition worker_lease :: "time \<Rightarrow> job_row \<Rightarrow> string option" where
  "worker_lease now r =
     (if j_state r \<in> {S_Leased, S_Proving} \<and> (case j_lease_expires_at r of Some t \<Rightarrow> now < t | None \<Rightarrow> False)
      then j_leased_by r else None)"

definition leases_of :: "time \<Rightarrow> job_row list \<Rightarrow> (uuid \<times> string \<times> interval) list" where
  "leases_of now rs = live_leases now (empty_db\<lparr> jobs_tbl := rs \<rparr>)"

lemma leases_of_simps [simp]:
  "leases_of now [] = []"
  "leases_of now (r # rs) = (case worker_lease now r of None \<Rightarrow> []
     | Some w \<Rightarrow> [(j_id r, w, max (the (j_lease_expires_at r) - now) 0)]) @ leases_of now rs"
  by (auto simp: leases_of_def live_leases_def worker_lease_def split: option.splits)

lemma live_leases_rows: "live_leases now db = leases_of now (jobs_tbl db)"
  by (simp add: live_leases_def leases_of_def)

lemma leases_of_ids: "fst ` set (leases_of now rs) \<subseteq> j_id ` set rs"
  by (induction rs) (auto split: option.splits)

lemma leases_of_distinct: "distinct (map j_id rs) \<Longrightarrow> distinct (map fst (leases_of now rs))"
  using leases_of_ids by (induction rs) (fastforce split: option.splits)+

lemma leases_of_find:
  "distinct (map j_id rs) \<Longrightarrow> map_of (map (\<lambda>(j, w, _). (j, w)) (leases_of now rs)) i
     = (case find (\<lambda>r. j_id r = i) rs of Some r \<Rightarrow> worker_lease now r | None \<Rightarrow> None)"
proof (induction rs)
  case (Cons r rs)
  have "j_id r \<notin> fst ` set (leases_of now rs)" using Cons.prems leases_of_ids [of now rs] by auto
  then have none: "map_of (map (\<lambda>(j, w, _). (j, w)) (leases_of now rs)) (j_id r) = None"
    by (force simp: map_of_eq_None_iff)
  show ?case using Cons none by (auto split: option.splits)
qed simp

text \<open>
  After Redis lost everything, rebuilding makes it agree with the tables again: a job a worker
  holds by a lease that has not expired is held in the mirror by that worker, and every other job is in
  the mirror what it was there before. (A lease a relayer holds is not restored.)
\<close>
theorem rebuilt_mirror_agrees:
  assumes "redis_up R" and "store_ok db" and "list_all (\<lambda>x. is_uuid (j_id x)) (jobs_tbl db)"
    and "find_job jid db = Some row"
  shows "liveness_of R jid (snd (rebuild R now db r))
    = (case worker_lease now row of Some w \<Rightarrow> Held w | None \<Rightarrow> liveness_of R jid r)"
proof -
  note ids = store_ok_ids [OF assms(2)]
  have "is_uuid jid" using find_job_id [OF assms(4)] assms(3) by (auto simp: list_all_iff)
  moreover have "list_all (\<lambda>(j, _). is_uuid j) (live_leases now db)"
    using assms(3) leases_of_ids [of now "jobs_tbl db"] by (fastforce simp: list_all_iff live_leases_rows)
  ultimately have "liveness_of R jid (record_all R (live_leases now db) r)
      = (case map_of (map (\<lambda>(j, w, _). (j, w)) (live_leases now db)) jid of Some w \<Rightarrow> Held w | None \<Rightarrow> liveness_of R jid r)"
    using liveness_record_all [OF assms(1)] leases_of_distinct [OF ids] by (simp add: live_leases_rows)
  then show ?thesis
    using assms(4) leases_of_find [OF ids] by (simp add: rebuild_def Let_def live_leases_rows find_job_def)
qed

text \<open>A server as a map of keys, without expiry.\<close>

definition sample_redis :: "(string \<Rightarrow> string option) redis" where
  "sample_redis =
     \<lparr> rd_set = \<lambda>k v n r. if n = 0 then (False, r) else (True, r(k \<mapsto> v)),
       rd_del = \<lambda>k r. (True, r(k := None)), rd_get = \<lambda>k r. Some (r k) \<rparr>"

lemma sample_redis_up: "redis_up sample_redis"
  by (simp add: redis_up_def sample_redis_def)

theorem rebuilt_mirror_agrees_witness:
  "liveness_of sample_redis 7 (snd (rebuild sample_redis 5 leased_db Map.empty)) = Held ''w''"
proof -
  have "map j_id (jobs_tbl leased_db) = [7]" by code_simp
  then have "list_all (\<lambda>x. is_uuid (j_id x)) (jobs_tbl leased_db)" by (auto simp: is_uuid_def)
  from rebuilt_mirror_agrees [OF sample_redis_up sample_ok(2) this sample_rows(2), of 5 Map.empty]
  show ?thesis by (simp add: worker_lease_def)
qed

end
