(* ===== verification/Api.thy ===== *)
theory Api
  imports Validate Store_Properties Leases
begin

text \<open>
  The HTTP surface, \<open>crates/dray-api/src/api.rs\<close>: the two handlers that do the work, the readiness probe
  and the error responses. A request arrives parsed; a response is its status and its body. Each call to
  the store sees the tables other requests and services left since the one before, and can fail with an
  error of the database instead of being made.
\<close>

section \<open>Requests and responses\<close>

record app_state =
  as_limits :: limits
  as_max_queue_depth :: int
  as_default_max_attempts :: int

record submit_request =
  sq_circuit_id :: string
  sq_inputs :: json
  sq_idempotency_key :: "string option"

record submit_response =
  sp_job_id :: uuid
  sp_state :: string
  sp_created :: bool
  sp_job_hash :: string

record job_response =
  jr_job_id :: uuid
  jr_circuit_id :: string
  jr_state :: string
  jr_attempts :: int
  jr_max_attempts :: int
  jr_last_error :: "string option"
  jr_job_hash :: string
  jr_idempotency_key :: "string option"
  jr_proof_size_bytes :: "nat option"
  jr_created_at :: string
  jr_updated_at :: string

record error_body =
  eb_error :: string
  eb_message :: string

datatype api_error =
    Invalid validation_error
  | UnknownCircuit string
  | CircuitClosed string
  | UnknownJob uuid
  | Overloaded int int
  | Internal store_error

fun api_status :: "api_error \<Rightarrow> nat" where
  "api_status (Invalid _) = 400"
| "api_status (UnknownCircuit _) = 404"
| "api_status (UnknownJob _) = 404"
| "api_status (CircuitClosed _) = 409"
| "api_status (Overloaded _ _) = 503"
| "api_status (Internal _) = 500"

fun api_code :: "api_error \<Rightarrow> string" where
  "api_code (Invalid _) = ''invalid_request''"
| "api_code (UnknownCircuit _) = ''unknown_circuit''"
| "api_code (CircuitClosed _) = ''circuit_disabled''"
| "api_code (UnknownJob _) = ''job_not_found''"
| "api_code (Overloaded _ _) = ''overloaded''"
| "api_code (Internal _) = ''internal_error''"

fun api_error_text :: "api_error \<Rightarrow> string" where
  "api_error_text (Invalid err) = validation_error_text err"
| "api_error_text (UnknownCircuit cid) = ''no circuit is registered with id '' @ debug_str cid"
| "api_error_text (CircuitClosed cid) = ''circuit '' @ debug_str cid @ '' is not currently accepting work''"
| "api_error_text (UnknownJob jid) = ''job '' @ uuid_text jid @ '' not found''"
| "api_error_text (Overloaded depth limit) =
     ''queue depth '' @ dec_int depth @ '' is at or above the limit of '' @ dec_int limit @ ''; retry shortly''"
| "api_error_text (Internal _) = ''internal error''"

definition into_response :: "api_error \<Rightarrow> nat \<times> error_body" where
  "into_response err =
     (let message = (case err of Internal _ \<Rightarrow> ''an internal error occurred'' | other \<Rightarrow> api_error_text other)
      in (api_status err, \<lparr> eb_error = api_code err, eb_message = message \<rparr>))"

section \<open>The handlers\<close>

text \<open>
  A call of a handler to the store: what others did to the tables before it, and the database error it
  met instead of being made.
\<close>

record call_obs =
  co_others :: "db \<Rightarrow> db"
  co_error :: "store_error option"

definition api_call :: "call_obs \<Rightarrow> (db \<Rightarrow> store_error + 'a \<times> db) \<Rightarrow> db \<Rightarrow> (api_error + 'a) \<times> db" where
  "api_call ob f db =
     (let db' = co_others ob db in
      case co_error ob of
        Some e \<Rightarrow> (Inl (Internal e), db')
      | None \<Rightarrow> (case f db' of Inl e \<Rightarrow> (Inl (Internal e), db') | Inr (x, db'') \<Rightarrow> (Inr x, db'')))"

record submit_obs =
  so_depth :: call_obs
  so_circuit :: call_obs
  so_enqueue :: call_obs
  so_new_id :: uuid
  so_now :: time

definition submit ::
  "schema_validator \<Rightarrow> (bytes \<Rightarrow> bytes) \<Rightarrow> app_state \<Rightarrow> submit_obs \<Rightarrow> submit_request \<Rightarrow> db \<Rightarrow>
   (api_error + nat \<times> submit_response) \<times> db" where
  "submit validator sha256 st ob body db =
     (let cid = sq_circuit_id body in
      case api_call (so_depth ob) (\<lambda>db. Inr (int (queue_depth db), db)) db of
        (Inl e, db1) \<Rightarrow> (Inl e, db1)
      | (Inr depth, db1) \<Rightarrow>
          if as_max_queue_depth st \<le> depth then (Inl (Overloaded depth (as_max_queue_depth st)), db1)
          else
            (case api_call (so_circuit ob) (\<lambda>db. Inr (find_circuit cid db, db)) db1 of
               (Inl e, db2) \<Rightarrow> (Inl e, db2)
             | (Inr None, db2) \<Rightarrow> (Inl (UnknownCircuit cid), db2)
             | (Inr (Some circuit), db2) \<Rightarrow>
                 if \<not> c_enabled circuit then (Inl (CircuitClosed cid), db2)
                 else
                   (case validate_submission validator cid (sq_inputs body) (sq_idempotency_key body)
                           (c_input_schema circuit) (as_limits st) of
                      Inl err \<Rightarrow> (Inl (Invalid err), db2)
                    | Inr _ \<Rightarrow>
                        (case api_call (so_enqueue ob) (enqueue sha256 (so_new_id ob) cid (sq_inputs body)
                                (sq_idempotency_key body) (as_default_max_attempts st) (so_now ob)) db2 of
                           (Inl e, db3) \<Rightarrow> (Inl e, db3)
                         | (Inr (j, outcome), db3) \<Rightarrow>
                             (Inr (202, \<lparr> sp_job_id = j_id j, sp_state = state_as_str (j_state j),
                                          sp_created = (outcome = Created),
                                          sp_job_hash = hex_encode (j_job_hash j) \<rparr>), db3)))))"

text \<open>\<open>rfc3339\<close> is the formatting of a time by the date library.\<close>

definition get_job ::
  "(time \<Rightarrow> string) \<Rightarrow> call_obs \<Rightarrow> uuid \<Rightarrow> db \<Rightarrow> (api_error + job_response) \<times> db" where
  "get_job rfc3339 ob jid db =
     (case api_call ob (\<lambda>db. Inr (job_by_id jid db, db)) db of
        (Inl e, db') \<Rightarrow> (Inl e, db')
      | (Inr None, db') \<Rightarrow> (Inl (UnknownJob jid), db')
      | (Inr (Some j), db') \<Rightarrow>
          (Inr \<lparr> jr_job_id = j_id j, jr_circuit_id = j_circuit_id j, jr_state = state_as_str (j_state j),
                 jr_attempts = j_attempts j, jr_max_attempts = j_max_attempts j,
                 jr_last_error = j_last_error j, jr_job_hash = hex_encode (j_job_hash j),
                 jr_idempotency_key = j_idempotency_key j, jr_proof_size_bytes = map_option length (j_proof j),
                 jr_created_at = rfc3339 (j_created_at j), jr_updated_at = rfc3339 (j_updated_at j) \<rparr>, db'))"

definition healthz :: nat where
  "healthz = 200"

definition readyz :: "call_obs \<Rightarrow> db \<Rightarrow> nat \<times> (error_body + int)" where
  "readyz ob db =
     (case fst (api_call ob (\<lambda>db. Inr (int (queue_depth db), db)) db) of
        Inr depth \<Rightarrow> (200, Inr depth)
      | Inl _ \<Rightarrow> (503, Inl \<lparr> eb_error = ''not_ready'', eb_message = ''the database is not reachable'' \<rparr>))"

section \<open>What a submission does\<close>

lemma enqueue_effect:
  assumes "enqueue sha jid cid v key m now db = Inr ((j, e), db')"
  shows "case e of
      Created \<Rightarrow> (\<exists>r. jobs_tbl db' = jobs_tbl db @ [r] \<and> j_state r = S_Queued \<and> j = from_row r \<and> j_id r = jid \<and>
        db' = db\<lparr> jobs_tbl := jobs_tbl db @ [r] \<rparr> \<and> find_job jid db = None)
    | Duplicate \<Rightarrow> db' = db \<and> (\<exists>r \<in> set (jobs_tbl db). j = from_row r)"
  using assms
  by (auto simp: enqueue_def Let_def and_then_Inr new_job_row_def split: if_splits option.splits dest!: find_SomeD)

lemma enqueue_total:
  assumes "find_circuit cid db = Some c" and "c_enabled c" and "canonicalise v = Inr t"
    and "\<And>b. length (sha b) = 32" and "0 < m" and "find_job jid db = None"
  shows "\<exists>x db'. enqueue sha jid cid v key m now db = Inr (x, db')"
proof -
  obtain h where h: "job_hash sha cid v = Inr h" "length h = 32"
    using assms(3,4) by (simp add: job_hash_def job_preimage_def)
  have "satisfies job_checks (new_job_row jid cid h key v m now)"
    using h(2) assms(5) by (simp add: satisfies_def job_checks_def new_job_row_def)
  then have "check_row job_checks (new_job_row jid cid h key v m now) = Inr ()" by (simp add: check_row_ok)
  then show ?thesis
    using assms(1,2,6) h(1) by (cases "find (\<lambda>x. j_job_hash x = h) (jobs_tbl db)") (simp_all add: enqueue_def Let_def)
qed

lemma api_call_cases:
  "api_call ob f db = (res, db1) \<Longrightarrow>
   (\<exists>e. res = Inl (Internal e) \<and> db1 = co_others ob db) \<or>
   (\<exists>x. res = Inr x \<and> f (co_others ob db) = Inr (x, db1))"
  by (auto simp: api_call_def Let_def split: option.splits sum.splits)

text \<open>The tables each call of a submission sees.\<close>

definition seen :: "submit_obs \<Rightarrow> db \<Rightarrow> db \<times> db \<times> db" where
  "seen ob db =
     (let db1 = co_others (so_depth ob) db; db2 = co_others (so_circuit ob) db1
      in (db1, db2, co_others (so_enqueue ob) db2))"

lemma submit_cases:
  assumes "submit validator sha st ob body db = (res, db')" and "seen ob db = (db1, db2, db3)"
  shows "(\<exists>err. res = Inl err \<and> db' \<in> {db1, db2, db3}) \<or>
    (\<exists>j e. res = Inr (202, \<lparr> sp_job_id = j_id j, sp_state = state_as_str (j_state j),
        sp_created = (e = Created), sp_job_hash = hex_encode (j_job_hash j) \<rparr>) \<and>
      int (queue_depth db1) < as_max_queue_depth st \<and>
      enqueue sha (so_new_id ob) (sq_circuit_id body) (sq_inputs body) (sq_idempotency_key body)
        (as_default_max_attempts st) (so_now ob) db3 = Inr ((j, e), db'))"
  using assms
  by (auto simp: submit_def seen_def Let_def split: prod.splits sum.splits option.splits if_splits
      dest!: api_call_cases)

text \<open>Nobody else writes between the calls of a request.\<close>

definition undisturbed :: "submit_obs \<Rightarrow> bool" where
  "undisturbed ob \<longleftrightarrow> co_others (so_depth ob) = id \<and> co_others (so_circuit ob) = id \<and> co_others (so_enqueue ob) = id"

text \<open>
  Claim C19. A submission is accepted or changes nothing. Whatever the reason it is refused for, an
  overlong queue, an unknown or disabled circuit, invalid inputs or a database error at any call, the
  tables are as before and no detail of a database error reaches the client. Accepted, it is answered
  with 202 below the queue limit, and either one queued job was added, which the answer names, or the
  tables are unchanged and the answer names an existing job.
\<close>
theorem submission_is_all_or_nothing:
  assumes "undisturbed ob"
  shows "case submit validator sha st ob body db of (res, db') \<Rightarrow>
    (case res of
       Inl err \<Rightarrow> db' = db \<and>
         (case err of Internal _ \<Rightarrow> into_response err
             = (500, \<lparr> eb_error = ''internal_error'', eb_message = ''an internal error occurred'' \<rparr>)
          | _ \<Rightarrow> fst (into_response err) \<in> {400, 404, 409, 503})
     | Inr (code, resp) \<Rightarrow> code = 202 \<and> int (queue_depth db) < as_max_queue_depth st \<and>
         (if sp_created resp
          then \<exists>r. jobs_tbl db' = jobs_tbl db @ [r] \<and> j_state r = S_Queued \<and> j_id r = sp_job_id resp \<and>
            hex_encode (j_job_hash r) = sp_job_hash resp \<and> find_job (sp_job_id resp) db = None
          else db' = db \<and> sp_job_id resp \<in> j_id ` set (jobs_tbl db)))"
proof -
  obtain res db' where s: "submit validator sha st ob body db = (res, db')" by fastforce
  have "seen ob db = (db, db, db)" using assms by (simp add: seen_def undisturbed_def)
  from submit_cases [OF s this] show ?thesis
  proof (elim disjE exE conjE)
    fix err assume "res = Inl err" "db' \<in> {db, db, db}"
    then show ?thesis by (simp add: s into_response_def split: api_error.split)
  next
    fix j e
    assume "res = Inr (202, \<lparr> sp_job_id = j_id j, sp_state = state_as_str (j_state j),
        sp_created = (e = Created), sp_job_hash = hex_encode (j_job_hash j) \<rparr>)"
      and "int (queue_depth db) < as_max_queue_depth st"
      and "enqueue sha (so_new_id ob) (sq_circuit_id body) (sq_inputs body) (sq_idempotency_key body)
        (as_default_max_attempts st) (so_now ob) db = Inr ((j, e), db')"
    then show ?thesis
      by (cases e) (auto simp: s from_row_def job.defs dest!: enqueue_effect)
  qed
qed

definition quiet_call :: call_obs where
  "quiet_call = \<lparr> co_others = id, co_error = None \<rparr>"

definition quiet_submission :: "uuid \<Rightarrow> time \<Rightarrow> submit_obs" where
  "quiet_submission jid now =
     \<lparr> so_depth = quiet_call, so_circuit = quiet_call, so_enqueue = quiet_call, so_new_id = jid, so_now = now \<rparr>"

definition api_sample :: "int \<Rightarrow> app_state" where
  "api_sample depth = \<lparr> as_limits = default_limits, as_max_queue_depth = depth, as_default_max_attempts = 3 \<rparr>"

definition sample_request :: submit_request where
  "sample_request = \<lparr> sq_circuit_id = ''c'', sq_inputs = JObject [], sq_idempotency_key = None \<rparr>"

lemma quiet_simps [simp]:
  "undisturbed (quiet_submission jid now)"
  "api_call quiet_call f db = (case f db of Inl e \<Rightarrow> (Inl (Internal e), db) | Inr (x, db') \<Rightarrow> (Inr x, db'))"
  by (simp_all add: undisturbed_def quiet_submission_def quiet_call_def api_call_def)

theorem submission_is_all_or_nothing_witness:
  "snd (submit (\<lambda>_ _. Inr []) sample_hash (api_sample 1) (quiet_submission 9 5) sample_request queued_db) = queued_db"
proof -
  have "queue_depth queued_db = 1" by code_simp
  then have "fst (submit (\<lambda>_ _. Inr []) sample_hash (api_sample 1) (quiet_submission 9 5) sample_request queued_db)
      = Inl (Overloaded 1 1)"
    by (simp add: submit_def Let_def api_sample_def quiet_submission_def)
  then show ?thesis
    using submission_is_all_or_nothing [where ob = "quiet_submission 9 5" and validator = "\<lambda>_ _. Inr []"
        and sha = sample_hash and st = "api_sample 1" and body = sample_request and db = queued_db]
    by (auto split: prod.splits)
qed

lemma valid_is_accepted:
  assumes "find_circuit (sq_circuit_id body) db = Some c" and "c_enabled c"
    and "validate_submission validator (sq_circuit_id body) (sq_inputs body) (sq_idempotency_key body)
      (c_input_schema c) (as_limits st) = Inr ()"
    and "int (queue_depth db) < as_max_queue_depth st" and "0 < as_default_max_attempts st"
    and "\<And>b. length (sha b) = 32" and "find_job jid db = None"
  shows "\<exists>resp db'. submit validator sha st (quiet_submission jid now) body db = (Inr (202, resp), db')"
proof -
  obtain t where "canonicalise (sq_inputs body) = Inr t"
    using assms(3) by (auto simp: validate_submission_def res_iff)
  from enqueue_total [OF assms(1,2) this assms(6,5,7)] obtain j e db' where
    "enqueue sha jid (sq_circuit_id body) (sq_inputs body) (sq_idempotency_key body)
       (as_default_max_attempts st) now db = Inr ((j, e), db')" by fast
  with assms(1-4) show ?thesis
    by (simp add: submit_def Let_def quiet_submission_def)
qed

text \<open>
  Validation is enough: below the queue limit, with the database answering and nobody
  interfering, a request for an enabled circuit that passes validation is always accepted; no later step,
  the hash of its inputs or a constraint of the tables, can turn it into an internal error. (A database
  that refuses a text it cannot store, such as one with the character 0, is an answering error of the call.)
\<close>
theorem validated_submission_is_accepted:
  assumes "find_circuit (sq_circuit_id body) db = Some c" and "c_enabled c"
    and "validate_submission validator (sq_circuit_id body) (sq_inputs body) (sq_idempotency_key body)
      (c_input_schema c) (as_limits st) = Inr ()"
    and "int (queue_depth db) < as_max_queue_depth st" and "0 < as_default_max_attempts st"
    and "\<And>b. length (sha b) = 32" and "find_job jid db = None"
  shows "\<exists>resp db'. submit validator sha st (quiet_submission jid now) body db = (Inr (202, resp), db')"
  using assms by (rule valid_is_accepted)

lemma sample_validates:
  "validate_submission (\<lambda>_ _. Inr []) ''c'' (JObject []) None (JObject []) default_limits = Inr ()"
  by (subst validate_submission_def)
    (simp add: check_circuit_id_def check_idempotency_key_def check_input_limits_def check_against_schema_def
      default_limits_def slug_char_def canonicalise_def write_canonical.simps MAX_DEPTH_def Let_def)

lemma sample_conditions:
  "find_circuit (sq_circuit_id sample_request) queued_db = Some sample_circuit"
  "int (queue_depth queued_db) < as_max_queue_depth (api_sample 2)"
  "find_job 9 queued_db = None"
  "c_enabled sample_circuit" "0 < as_default_max_attempts (api_sample 2)" "length (sample_hash b) = 32"
  "validate_submission (\<lambda>_ _. Inr []) (sq_circuit_id sample_request) (sq_inputs sample_request)
     (sq_idempotency_key sample_request) (c_input_schema sample_circuit) (as_limits (api_sample 2)) = Inr ()"
proof -
  show "find_circuit (sq_circuit_id sample_request) queued_db = Some sample_circuit" by code_simp
  have "queue_depth queued_db = 1" by code_simp
  then show "int (queue_depth queued_db) < as_max_queue_depth (api_sample 2)" by (simp add: api_sample_def)
  show "find_job 9 queued_db = None" by code_simp
qed (simp_all add: sample_circuit_def sample_request_def api_sample_def sample_hash_def sample_validates)

lemmas sample_valid = sample_conditions(1,4,7,2,5,6,3)

theorem validated_submission_is_accepted_witness:
  "\<exists>resp db'. submit (\<lambda>_ _. Inr []) sample_hash (api_sample 2) (quiet_submission 9 5) sample_request queued_db
     = (Inr (202, resp), db')"
  by (rule validated_submission_is_accepted [OF sample_valid])

text \<open>
  An accepted request can always be asked about: whatever other requests did in between, and
  whatever the workers, relayers, reapers and clients do afterwards, asking for the job the answer named
  finds it, with the hash the answer gave.
\<close>
theorem accepted_job_can_be_asked_for:
  assumes "store_ok db" and "\<And>d. store_ok d \<Longrightarrow> store_ok (co_others (so_depth ob) d)"
    and "\<And>d. store_ok d \<Longrightarrow> store_ok (co_others (so_circuit ob) d)"
    and "\<And>d. store_ok d \<Longrightarrow> store_ok (co_others (so_enqueue ob) d)"
    and "submit validator sha st ob body db = (Inr (code, resp), db')"
  shows "\<exists>jr. get_job rfc3339 quiet_call (sp_job_id resp) (run_store sha db' ops) = (Inr jr, run_store sha db' ops) \<and>
    jr_job_id jr = sp_job_id resp \<and> jr_job_hash jr = sp_job_hash resp"
proof -
  obtain db1 db2 db3 where s: "seen ob db = (db1, db2, db3)" by (metis prod_cases3)
  then have ok: "store_ok db3" using assms(1-4) by (auto simp: seen_def Let_def)
  from submit_cases [OF assms(5) s] obtain j e where
    resp: "sp_job_id resp = j_id j" "sp_job_hash resp = hex_encode (j_job_hash j)"
    and q: "enqueue sha (so_new_id ob) (sq_circuit_id body) (sq_inputs body) (sq_idempotency_key body)
        (as_default_max_attempts st) (so_now ob) db3 = Inr ((j, e), db')" by auto
  have ok': "store_ok db'" using db_steps_ok [OF enqueue_steps [OF q] ok] .
  obtain r where r: "j = from_row r" "r \<in> set (jobs_tbl db')"
    using enqueue_stored [OF ok q] by (auto dest!: find_SomeD)
  have f: "find_job (j_id r) db' = Some r" using find_job_member [OF store_ok_ids [OF ok'] r(2)] .
  obtain r' where r': "find_job (j_id r) (run_store sha db' ops) = Some r'" "same_work r r'"
    using run_store_kept [OF ok', of sha ops] f unfolding work_kept_def by blast
  then show ?thesis
    using resp r(1) by (simp add: get_job_def job_by_id_def from_row_def job.defs same_work_def)
qed

theorem accepted_job_can_be_asked_for_witness:
  "\<exists>resp db' jr. submit (\<lambda>_ _. Inr []) sample_hash (api_sample 2) (quiet_submission 9 5) sample_request queued_db
      = (Inr (202, resp), db') \<and>
    fst (get_job (\<lambda>_. []) quiet_call (sp_job_id resp) (run_store sample_hash db' [(6, OpLeaseNext [] ''w'' 10)])) = Inr jr \<and>
    jr_job_hash jr = sp_job_hash resp"
proof -
  obtain resp db' where s: "submit (\<lambda>_ _. Inr []) sample_hash (api_sample 2) (quiet_submission 9 5) sample_request queued_db
     = (Inr (202, resp), db')"
    using valid_is_accepted [where sha = sample_hash, OF sample_valid, of 5] by blast
  have "\<exists>jr. get_job (\<lambda>_. []) quiet_call (sp_job_id resp) (run_store sample_hash db' [(6, OpLeaseNext [] ''w'' 10)])
      = (Inr jr, run_store sample_hash db' [(6, OpLeaseNext [] ''w'' 10)]) \<and>
    jr_job_id jr = sp_job_id resp \<and> jr_job_hash jr = sp_job_hash resp"
    by (rule accepted_job_can_be_asked_for [OF sample_ok(1) _ _ _ s]) (simp_all add: quiet_submission_def quiet_call_def)
  with s show ?thesis by fastforce
qed

end
