(* ===== verification/Metrics.thy ===== *)
theory Metrics
  imports Bounded Escaping
begin

text \<open>
  The instruments of a worker and their exposition, \<open>crates/dray-worker/src/metrics.rs\<close>. Every
  instrument is a word of 64 bits that wraps, as \<open>AtomicU64\<close> does; \<open>observe\<close> is its three atomic
  additions, one after the other. Floats are those of the theory \<open>Floats\<close>. The display of a float is exact for values of
  at most three decimals and fifteen digits, which covers the boundaries and, as the sum is kept in
  thousandths, every sum below a trillion.
\<close>

section \<open>Numbers as text\<close>

definition show_thousandths :: "nat \<Rightarrow> string" where
  "show_thousandths n = decimal (n div 1000) 3 (n mod 1000)"

definition show_f64 :: "rat \<Rightarrow> string" where
  "show_f64 x = show_thousandths (nat \<lfloor>x * 1000\<rfloor>)"

section \<open>Instruments\<close>

type_synonym counter = u64

definition counter_increment :: "counter \<Rightarrow> counter" where
  "counter_increment c = c + 1"

definition counter_add :: "counter \<Rightarrow> u64 \<Rightarrow> counter" where
  "counter_add c n = c + n"

record histogram =
  h_bounds :: "rat list"
  h_counts :: "u64 list"
  h_sum :: u64
  h_count :: u64

definition new_histogram :: "rat list \<Rightarrow> histogram" where
  "new_histogram bs =
     \<lparr> h_bounds = bs, h_counts = replicate (Suc (length bs)) 0, h_sum = 0, h_count = 0 \<rparr>"

text \<open>\<open>position(|bound| value <= *bound)\<close>, or the length.\<close>

fun bucket_index :: "rat list \<Rightarrow> rat \<Rightarrow> nat" where
  "bucket_index [] v = 0"
| "bucket_index (b # bs) v = (if v \<le> b then 0 else Suc (bucket_index bs v))"

definition observe_bucket :: "rat \<Rightarrow> histogram \<Rightarrow> histogram" where
  "observe_bucket v h =
     (let i = bucket_index (h_bounds h) v in
      if i < length (h_counts h) then h\<lparr> h_counts := (h_counts h)[i := h_counts h ! i + 1] \<rparr> else h)"

definition observe_sum :: "rat \<Rightarrow> histogram \<Rightarrow> histogram" where
  "observe_sum v h = h\<lparr> h_sum := h_sum h + of_nat (min (nat \<lfloor>f64 (max v 0 * 1000)\<rfloor>) u64_max) \<rparr>"

definition observe_count :: "histogram \<Rightarrow> histogram" where
  "observe_count h = h\<lparr> h_count := h_count h + 1 \<rparr>"

definition observe :: "rat \<Rightarrow> histogram \<Rightarrow> histogram" where
  "observe v h = observe_count (observe_sum v (observe_bucket v h))"

fun running_counts :: "u64 \<Rightarrow> u64 list \<Rightarrow> u64 list" where
  "running_counts running [] = []"
| "running_counts running (c # cs) = (running + c) # running_counts (running + c) cs"

definition cumulative :: "histogram \<Rightarrow> u64 list" where
  "cumulative h = running_counts 0 (h_counts h)"

definition DURATION_BUCKETS :: "rat list" where
  "DURATION_BUCKETS = [1 / 2, 1, 2, 5 / 2, 5, 10, 30, 60, 120]"

definition MEMORY_BUCKETS_KB :: "rat list" where
  "MEMORY_BUCKETS_KB = [32768, 65536, 131072, 262144, 524288, 1048576, 2097152, 4194304]"

definition ATTEMPT_BUCKETS :: "rat list" where
  "ATTEMPT_BUCKETS = [1, 2, 3, 5, 10]"

definition FAILURE_REASONS :: "string list" where
  "FAILURE_REASONS =
     [''timeout'', ''oom'', ''cpu_exhausted'', ''killed'', ''nonzero_exit'', ''spawn_failed'',
      ''bad_inputs'', ''unknown_circuit'', ''scratch_failed'', ''missing_artefact'']"

definition OUTCOMES :: "string list" where
  "OUTCOMES = [''proved'', ''failed'', ''lease_lost'', ''abandoned'']"

record metrics =
  mt_worker_id :: string
  mt_outcomes :: "(string \<times> counter) list"
  mt_failures :: "(string \<times> counter) list"
  mt_proving_duration :: histogram
  mt_peak_memory_kb :: histogram
  mt_attempts :: histogram
  mt_queue_depth :: int
  mt_oldest_lease_age :: int
  mt_leases_reaped :: counter

definition new_metrics :: "string \<Rightarrow> metrics" where
  "new_metrics worker_id =
     \<lparr> mt_worker_id = worker_id,
       mt_outcomes = map (\<lambda>name. (name, 0)) OUTCOMES,
       mt_failures = map (\<lambda>name. (name, 0)) FAILURE_REASONS,
       mt_proving_duration = new_histogram DURATION_BUCKETS,
       mt_peak_memory_kb = new_histogram MEMORY_BUCKETS_KB,
       mt_attempts = new_histogram ATTEMPT_BUCKETS,
       mt_queue_depth = 0, mt_oldest_lease_age = 0, mt_leases_reaped = 0 \<rparr>"

text \<open>The first counter with the name; no counter has it, nothing happens.\<close>

fun increment_named :: "string \<Rightarrow> (string \<times> counter) list \<Rightarrow> (string \<times> counter) list" where
  "increment_named name [] = []"
| "increment_named name ((n, c) # cs) =
     (if n = name then (n, counter_increment c) # cs else (n, c) # increment_named name cs)"

definition record_outcome_metric :: "string \<Rightarrow> metrics \<Rightarrow> metrics" where
  "record_outcome_metric name m = m\<lparr> mt_outcomes := increment_named name (mt_outcomes m) \<rparr>"

text \<open>A debug build panics on an unregistered reason.\<close>

definition record_failure_metric :: "string \<Rightarrow> metrics \<Rightarrow> metrics" where
  "record_failure_metric reason m = m\<lparr> mt_failures := increment_named reason (mt_failures m) \<rparr>"

definition record_proof_metric :: "duration \<Rightarrow> u64 option \<Rightarrow> int \<Rightarrow> metrics \<Rightarrow> metrics" where
  "record_proof_metric d peak attempts m =
     m\<lparr> mt_proving_duration := observe (as_secs_f64 d) (mt_proving_duration m),
        mt_peak_memory_kb := (case peak of
            None \<Rightarrow> mt_peak_memory_kb m
          | Some kb \<Rightarrow> observe (f64 (of_nat (unat kb))) (mt_peak_memory_kb m)),
        mt_attempts := observe (of_int (max attempts 0)) (mt_attempts m) \<rparr>"

section \<open>The exposition\<close>

definition escape_label_char :: "char \<Rightarrow> string" where
  "escape_label_char c =
     (if c = CHR 0x5C then [CHR 0x5C, CHR 0x5C]
      else if c = CHR 0x22 then [CHR 0x5C, CHR 0x22]
      else if c = CHR 0x0A then [CHR 0x5C, CHR ''n'']
      else [c])"

definition escape_label :: "string \<Rightarrow> string" where
  "escape_label v = concat (map escape_label_char v)"

text \<open>The lines of the body; \<open>writeln!\<close> ends each with a newline.\<close>

definition help_lines :: "string \<Rightarrow> string \<Rightarrow> string \<Rightarrow> string list" where
  "help_lines name help kind = [''# HELP '' @ name @ '' '' @ help, ''# TYPE '' @ name @ '' '' @ kind]"

definition sample_line :: "string \<Rightarrow> string \<Rightarrow> string \<Rightarrow> string \<Rightarrow> string" where
  "sample_line name worker labels val =
     name @ ''{worker=\"'' @ worker @ [CHR 0x22] @ labels @ ''} '' @ val"

definition label :: "string \<Rightarrow> string \<Rightarrow> string" where
  "label key val = '','' @ key @ ''=\"'' @ val @ [CHR 0x22]"

definition counter_lines :: "string \<Rightarrow> string \<Rightarrow> string \<Rightarrow> (string \<times> counter) list \<Rightarrow> string list" where
  "counter_lines name worker key cs =
     map (\<lambda>(k, c). sample_line name worker (label key k) (dec (unat c))) cs"

text \<open>\<open>cumulative.get(index).copied().unwrap_or(0)\<close>.\<close>

definition get_or_zero :: "u64 list \<Rightarrow> nat \<Rightarrow> u64" where
  "get_or_zero cs i = (if i < length cs then cs ! i else 0)"

definition render_histogram :: "string \<Rightarrow> string \<Rightarrow> string \<Rightarrow> histogram \<Rightarrow> string list" where
  "render_histogram name help worker h =
     help_lines name help ''histogram''
     @ map (\<lambda>(i, b). sample_line (name @ ''_bucket'') worker (label ''le'' (show_f64 b))
                (dec (unat (get_or_zero (cumulative h) i)))) (enumerate 0 (h_bounds h))
     @ [sample_line (name @ ''_bucket'') worker (label ''le'' ''+Inf'') (dec (unat (h_count h))),
        sample_line (name @ ''_sum'') worker [] (show_thousandths (unat (h_sum h))),
        sample_line (name @ ''_count'') worker [] (dec (unat (h_count h)))]"

definition render_lines :: "metrics \<Rightarrow> string list" where
  "render_lines m =
     (let worker = escape_label (mt_worker_id m) in
      help_lines ''dray_worker_attempts_total'' ''Attempts finished, by outcome.'' ''counter''
      @ counter_lines ''dray_worker_attempts_total'' worker ''outcome'' (mt_outcomes m)
      @ help_lines ''dray_worker_failures_total'' ''Failed attempts, by reason.'' ''counter''
      @ counter_lines ''dray_worker_failures_total'' worker ''reason'' (mt_failures m)
      @ render_histogram ''dray_worker_proving_duration_seconds''
          ''How long a successful proof took.'' worker (mt_proving_duration m)
      @ render_histogram ''dray_worker_peak_memory_kilobytes''
          ''Peak resident set size of a proving subprocess.'' worker (mt_peak_memory_kb m)
      @ render_histogram ''dray_worker_attempts_per_job''
          ''How many attempts a job needed before it succeeded.'' worker (mt_attempts m)
      @ help_lines ''dray_queue_depth'' ''Jobs waiting to be leased.'' ''gauge''
      @ [sample_line ''dray_queue_depth'' worker [] (dec_int (mt_queue_depth m))]
      @ help_lines ''dray_oldest_lease_age_seconds''
          ''Age of the longest-held lease, or 0 if none.'' ''gauge''
      @ [sample_line ''dray_oldest_lease_age_seconds'' worker [] (dec_int (mt_oldest_lease_age m))]
      @ help_lines ''dray_leases_reaped_total'' ''Expired leases returned to the queue.'' ''counter''
      @ [sample_line ''dray_leases_reaped_total'' worker [] (dec (unat (mt_leases_reaped m)))])"

definition render :: "metrics \<Rightarrow> string" where
  "render m = concat (map (\<lambda>l. l @ [CHR 0x0A]) (render_lines m))"

section \<open>Histograms\<close>

lemma length_running_counts [simp]: "length (running_counts r cs) = length cs"
  by (induction cs arbitrary: r) simp_all

lemma running_counts_nth:
  "i < length cs \<Longrightarrow> running_counts r cs ! i = r + sum_list (take (Suc i) cs)"
proof (induction cs arbitrary: r i)
  case (Cons c cs)
  then show ?case by (cases i) (simp_all add: add.assoc)
qed simp

lemma bucket_index_le: "bucket_index bs v \<le> length bs"
  by (induction bs) auto

lemma bucket_index_iff:
  "sorted bs \<Longrightarrow> i < length bs \<Longrightarrow> bucket_index bs v \<le> i \<longleftrightarrow> v \<le> bs ! i"
proof (induction bs arbitrary: i)
  case (Cons b bs)
  show ?case
  proof (cases i)
    case (Suc j)
    with Cons have "b \<le> bs ! j" by simp
    with Cons.IH [of j] Cons.prems Suc show ?thesis by (auto intro: order_trans)
  qed simp
qed simp

lemma sum_take_update:
  "k < length cs \<Longrightarrow> sum_list (take (Suc i) (cs[k := cs ! k + 1])) =
     sum_list (take (Suc i) cs) + (if k \<le> i then 1 else (0 :: u64))"
proof (induction cs arbitrary: k i)
  case (Cons c cs)
  show ?case
  proof (cases k)
    case (Suc k')
    then show ?thesis
    proof (cases i)
      case (Suc i')
      with Cons \<open>k = Suc k'\<close> show ?thesis by (simp add: add.assoc)
    qed simp
  qed (simp add: add_ac)
qed simp

lemma observe_parts:
  assumes "length (h_counts h) = Suc (length (h_bounds h))"
  shows "h_bounds (observe v h) = h_bounds h" and "h_count (observe v h) = h_count h + 1"
    and "h_counts (observe v h) = (h_counts h)[bucket_index (h_bounds h) v :=
            h_counts h ! bucket_index (h_bounds h) v + 1]"
    and "length (h_counts (observe v h)) = Suc (length (h_bounds h))"
  using assms bucket_index_le [of "h_bounds h" v]
  by (simp_all add: observe_def observe_bucket_def observe_sum_def observe_count_def Let_def)

text \<open>What holds of a histogram that has observed the values \<open>vs\<close>.\<close>

definition observed :: "rat list \<Rightarrow> rat list \<Rightarrow> histogram \<Rightarrow> bool" where
  "observed bs vs h \<longleftrightarrow> h_bounds h = bs \<and> length (h_counts h) = Suc (length bs) \<and>
     h_count h = of_nat (length vs) \<and> sum_list (h_counts h) = of_nat (length vs) \<and>
     (\<forall>i < length bs. sum_list (take (Suc i) (h_counts h)) = of_nat (length (filter (\<lambda>v. v \<le> bs ! i) vs)))"

lemma observed_new: "observed bs [] (new_histogram bs)"
  by (simp add: observed_def new_histogram_def sum_list_replicate take_replicate del: replicate.simps)

lemma observed_step:
  assumes "sorted bs" and "observed bs vs h"
  shows "observed bs (vs @ [v]) (observe v h)"
proof -
  have len: "length (h_counts h) = Suc (length (h_bounds h))" and b: "h_bounds h = bs"
    using assms(2) by (simp_all add: observed_def)
  have k: "bucket_index bs v < length (h_counts h)" using bucket_index_le [of bs v] len b by simp
  have all: "sum_list (h_counts (observe v h)) = sum_list (h_counts h) + 1"
    using sum_take_update [OF k, of "length bs"] bucket_index_le [of bs v] observe_parts [OF len, of v] len b
    by simp
  show ?thesis
    using assms(2) observe_parts [OF len, of v] all sum_take_update [OF k] bucket_index_iff [OF assms(1)] b
    by (auto simp: observed_def)
qed

lemma observed_fold: "sorted bs \<Longrightarrow> observed bs ws h \<Longrightarrow> observed bs (ws @ vs) (fold observe vs h)"
proof (induction vs arbitrary: ws h)
  case (Cons v vs)
  from Cons.IH [OF Cons.prems(1) observed_step [OF Cons.prems], of v] show ?case by simp
qed simp

lemma buckets_sorted: "sorted DURATION_BUCKETS" "sorted MEMORY_BUCKETS_KB" "sorted ATTEMPT_BUCKETS"
  by (simp_all add: DURATION_BUCKETS_def MEMORY_BUCKETS_KB_def ATTEMPT_BUCKETS_def)

text \<open>
  The buckets are cumulative: after any observations, the bucket of a boundary holds the number
  of values less than or equal to it, the last one the number of values altogether, which is also the
  histogram's count.
\<close>
theorem histogram_buckets_are_cumulative:
  assumes "sorted bs" and "h = fold observe vs (new_histogram bs)"
  shows "(\<forall>i < length bs. cumulative h ! i = of_nat (length (filter (\<lambda>v. v \<le> bs ! i) vs))) \<and>
    cumulative h ! length bs = of_nat (length vs) \<and> h_count h = of_nat (length vs)"
proof -
  have o: "observed bs vs h" using observed_fold [OF assms(1) observed_new, of vs] assms(2) by simp
  then have "cumulative h ! i = sum_list (take (Suc i) (h_counts h))" if "i \<le> length bs" for i
    using that by (simp add: cumulative_def running_counts_nth observed_def)
  with o show ?thesis by (simp add: observed_def)
qed

theorem histogram_buckets_are_cumulative_witness:
  "cumulative (fold observe [5 / 2, 3, 200] (new_histogram DURATION_BUCKETS)) ! 3 = 1"
  using histogram_buckets_are_cumulative [OF buckets_sorted(1) refl, of "[5 / 2, 3, 200]"]
  by (simp add: DURATION_BUCKETS_def)

text \<open>
  A scrape between the first and the last addition of an observation: every boundary's bucket already
  counts the value, and the bucket of infinity, which must hold at least as much, does not.
\<close>

lemma scrape_inside_an_observation:
  "cumulative (observe_bucket 1 (new_histogram ATTEMPT_BUCKETS)) = [1, 1, 1, 1, 1, 1] \<and>
   h_count (observe_bucket 1 (new_histogram ATTEMPT_BUCKETS)) = 0"
  by (simp add: cumulative_def observe_bucket_def new_histogram_def ATTEMPT_BUCKETS_def Let_def)

section \<open>The exposition can be read back\<close>

definition label_unescape :: "string \<Rightarrow> (char \<times> string) option" where
  "label_unescape s =
     (case s of
        [] \<Rightarrow> None
      | a # r \<Rightarrow>
          if a \<noteq> CHR 0x5C then Some (a, r)
          else (case r of
            [] \<Rightarrow> None
          | b # r' \<Rightarrow> if b = CHR ''n'' then Some (CHR 0x0A, r')
                     else if b = CHR 0x22 \<or> b = CHR 0x5C then Some (b, r') else None))"

interpretation label_text: char_escape escape_label_char label_unescape "CHR 0x22"
  by unfold_locales (auto simp: escape_label_char_def label_unescape_def)

text \<open>The specification: the name of a sample, the value of its label \<open>worker\<close>, and what follows.\<close>

definition read_sample :: "string \<Rightarrow> (string \<times> string \<times> string) option" where
  "read_sample l =
     (let name = takeWhile (\<lambda>c. c \<noteq> CHR ''{'') l; r = dropWhile (\<lambda>c. c \<noteq> CHR ''{'') l in
      if prefix ''{worker=\"'' r
      then map_option (Pair name) (read_quoted label_unescape (CHR 0x22) (length l) (drop 9 r)) else None)"

definition plain_name :: "string \<Rightarrow> bool" where
  "plain_name n \<longleftrightarrow> list_all (\<lambda>c. c \<noteq> CHR ''{'' \<and> c \<noteq> CHR 0x0A) n"

definition good_line :: "string \<Rightarrow> string \<Rightarrow> bool" where
  "good_line w l \<longleftrightarrow> CHR 0x0A \<notin> set l \<and>
     (prefix ''# '' l \<or> (\<exists>name rest. plain_name name \<and> read_sample l = Some (name, w, rest)))"

lemma escape_label_no_newline: "CHR 0x0A \<notin> set (escape_label w)"
  by (auto simp: escape_label_def escape_label_char_def split: if_splits)

lemma length_escape_label: "length w \<le> length (escape_label w)"
  by (induction w) (auto simp: escape_label_def escape_label_char_def)

lemma good_sample:
  assumes "plain_name name" and "CHR 0x0A \<notin> set labels" and "CHR 0x0A \<notin> set val"
  shows "good_line w (sample_line name (escape_label w) labels val)"
proof -
  let ?l = "sample_line name (escape_label w) labels val"
  have n: "\<And>c. c \<in> set name \<Longrightarrow> c \<noteq> CHR ''{''" using assms(1) by (simp add: plain_name_def list_all_iff)
  then have "takeWhile (\<lambda>c. c \<noteq> CHR ''{'') ?l = name"
    and d: "dropWhile (\<lambda>c. c \<noteq> CHR ''{'') ?l
      = ''{worker=\"'' @ escape_label w @ CHR 0x22 # labels @ ''} '' @ val"
    by (simp_all add: sample_line_def)
  moreover have "length w < length ?l" using length_escape_label [of w] by (simp add: sample_line_def)
  then have "read_quoted label_unescape (CHR 0x22) (length ?l)
      (escape_label w @ CHR 0x22 # labels @ ''} '' @ val) = Some (w, labels @ ''} '' @ val)"
    unfolding escape_label_def by (rule label_text.read_quoted_written)
  ultimately have "read_sample ?l = Some (name, w, labels @ ''} '' @ val)"
    by (simp add: read_sample_def Let_def)
  moreover have "CHR 0x0A \<notin> set ?l"
    using assms escape_label_no_newline [of w]
    by (auto simp: sample_line_def plain_name_def list_all_iff)
  ultimately show ?thesis using assms(1) by (auto simp: good_line_def)
qed

lemma good_help: "CHR 0x0A \<notin> set (name @ help @ kind) \<Longrightarrow> list_all (good_line w) (help_lines name help kind)"
  by (simp add: help_lines_def good_line_def)

lemma dec_no_newline: "CHR 0x0A \<notin> set (dec n)" "CHR 0x0A \<notin> set (dec_int i)"
  by (auto dest: dec_digits dec_int_number_chars simp: is_number_char_def is_digit_def)

lemma show_no_newline: "CHR 0x0A \<notin> set (show_thousandths n)"
proof -
  have "CHR 0x0A \<notin> set (decimals w r)" if "r < 10 ^ w" for w r
    using that
  proof (induction w arbitrary: r)
    case (Suc w)
    then have d: "r div 10 ^ w < 10" by (simp add: less_mult_imp_div_less mult.commute)
    from is_digit_digit_char [OF this] have "digit_char (r div 10 ^ w) \<noteq> CHR 0x0A"
      by (auto simp: is_digit_def)
    with Suc show ?case by simp
  qed simp
  from this [of "n mod 1000" 3] show ?thesis
    using dec_no_newline by (simp add: show_thousandths_def decimal_def)
qed

text \<open>The counters are the registered ones, as \<open>new\<close> makes them and every recording keeps them.\<close>

definition registered :: "metrics \<Rightarrow> bool" where
  "registered m \<longleftrightarrow> map fst (mt_outcomes m) = OUTCOMES \<and> map fst (mt_failures m) = FAILURE_REASONS"

lemma increment_named_names [simp]: "map fst (increment_named name cs) = map fst cs"
  by (induction cs) auto

lemma registered_keeps:
  "registered (new_metrics w)"
  "registered m \<Longrightarrow> registered (record_outcome_metric name m)"
  "registered m \<Longrightarrow> registered (record_failure_metric name m)"
  "registered m \<Longrightarrow> registered (record_proof_metric d peak n m)"
  by (simp_all add: registered_def new_metrics_def record_outcome_metric_def record_failure_metric_def
      record_proof_metric_def comp_def)

lemma label_no_newline [simp]:
  "CHR 0x0A \<in> set (label key val) \<longleftrightarrow> CHR 0x0A \<in> set key \<or> CHR 0x0A \<in> set val"
  by (auto simp: label_def)

lemma show_f64_no_newline: "CHR 0x0A \<notin> set (show_f64 b)"
  by (simp add: show_f64_def show_no_newline)

lemma good_counters:
  assumes "plain_name name" and "CHR 0x0A \<notin> set key" and "list_all (\<lambda>k. CHR 0x0A \<notin> set k) (map fst cs)"
  shows "list_all (good_line w) (counter_lines name (escape_label w) key cs)"
  using assms(3)
proof (induction cs)
  case (Cons c cs)
  then have "good_line w (sample_line name (escape_label w) (label key (fst c)) (dec (unat (snd c))))"
    using assms(1,2) dec_no_newline by (intro good_sample) simp_all
  with Cons show ?case by (cases c) (simp add: counter_lines_def)
qed (simp add: counter_lines_def)

lemma plain_suffix: "plain_name name \<Longrightarrow> plain_name s \<Longrightarrow> plain_name (name @ s)"
  by (simp add: plain_name_def)

lemma good_histogram:
  assumes "plain_name name" and "CHR 0x0A \<notin> set help"
  shows "list_all (good_line w) (render_histogram name help (escape_label w) h)"
proof -
  have n: "plain_name (name @ ''_bucket'')" "plain_name (name @ ''_sum'')" "plain_name (name @ ''_count'')"
    by (rule plain_suffix [OF assms(1)], simp add: plain_name_def)+
  have "CHR 0x0A \<notin> set name" using assms(1) by (auto simp: plain_name_def list_all_iff)
  then have h: "list_all (good_line w) (help_lines name help ''histogram'')"
    using assms(2) by (intro good_help) simp
  have "good_line w (sample_line (name @ ''_bucket'') (escape_label w) (label ''le'' t) (dec v))"
    if "CHR 0x0A \<notin> set t" for t v
    using that dec_no_newline by (intro good_sample n) simp_all
  moreover have "good_line w (sample_line (name @ ''_sum'') (escape_label w) [] (show_thousandths v))"
    and "good_line w (sample_line (name @ ''_count'') (escape_label w) [] (dec v))" for v
    using dec_no_newline show_no_newline by (intro good_sample n; simp)+
  ultimately show ?thesis
    using h show_f64_no_newline by (auto simp: render_histogram_def list_all_iff)
qed

text \<open>
  Claim C37. Whatever the worker id is (it can come from the environment), the exposition stays readable:
  no line contains a newline of its own, and every line is a comment or a sample whose label \<open>worker\<close>,
  unescaped by the rules of the format, is that id.
\<close>
theorem exposition_is_readable:
  assumes "registered m"
  shows "list_all (good_line (mt_worker_id m)) (render_lines m)"
proof -
  let ?w = "mt_worker_id m"
  have o: "list_all (\<lambda>k. CHR 0x0A \<notin> set k) (map fst (mt_outcomes m))"
    and f: "list_all (\<lambda>k. CHR 0x0A \<notin> set k) (map fst (mt_failures m))"
    using assms by (simp_all only: registered_def) (simp_all add: OUTCOMES_def FAILURE_REASONS_def)
  show ?thesis
    unfolding render_lines_def Let_def list_all_append
    by (intro conjI good_help good_counters good_histogram o f)
      (simp_all add: plain_name_def good_sample dec_no_newline)
qed

theorem exposition_is_readable_witness:
  "list_all (good_line [CHR 0x22, CHR ''}'', CHR 0x0A])
     (render_lines (record_failure_metric ''oom'' (new_metrics [CHR 0x22, CHR ''}'', CHR 0x0A])))"
  using exposition_is_readable [OF registered_keeps(3) [OF registered_keeps(1)],
      of "''oom''" "[CHR 0x22, CHR ''}'', CHR 0x0A]"]
  by (simp only: record_failure_metric_def new_metrics_def metrics.simps)

end
