(* ===== verification/Worker.thy ===== *)
theory Worker
  imports Service Leases Prover Metrics
begin

text \<open>
  The lease loop of a worker, \<open>crates/dray-worker/src/worker.rs\<close>. What a step learns from outside (the
  database clock and whether the database answered, the tools, the signals) is in an observation; the
  tables, the mirror and the instruments are passed through. Tasks that run beside an attempt (the
  heartbeat, the reaper, the sampler) are ticks of their own, and an attempt sees what they and other
  processes did to the tables and the mirror while it was proving.
\<close>

section \<open>Configuration and outcomes\<close>

datatype outcome =
    Proved uuid
  | Failed uuid failure_kind "duration option"
  | LeaseLost uuid
  | Abandoned uuid

fun outcome_label :: "outcome \<Rightarrow> string" where
  "outcome_label (Proved _) = ''proved''"
| "outcome_label (Failed _ _ _) = ''failed''"
| "outcome_label (LeaseLost _) = ''lease_lost''"
| "outcome_label (Abandoned _) = ''abandoned''"

fun outcome_job :: "outcome \<Rightarrow> uuid" where
  "outcome_job (Proved i) = i"
| "outcome_job (Failed i _ _) = i"
| "outcome_job (LeaseLost i) = i"
| "outcome_job (Abandoned i) = i"

record worker_config =
  wc_worker_id :: string
  wc_lease_ttl :: duration
  wc_heartbeat_interval :: duration
  wc_poll_interval :: duration
  wc_shutdown_grace :: duration
  wc_reap_interval :: duration
  wc_sample_interval :: duration
  wc_backoff :: backoff

definition new_worker_config :: "string \<Rightarrow> worker_config" where
  "new_worker_config worker_id =
     \<lparr> wc_worker_id = worker_id, wc_lease_ttl = seconds 180, wc_heartbeat_interval = seconds 30,
       wc_poll_interval = 500 * 10 ^ 6, wc_shutdown_grace = seconds 30, wc_reap_interval = seconds 30,
       wc_sample_interval = seconds 15, wc_backoff = default_backoff \<rparr>"

text \<open>The fixed parts of a worker, and what it changes: the tables, the mirror, its instruments.\<close>

record 'r worker =
  w_config :: worker_config
  w_prover :: prover_config
  w_leases :: "'r redis option"

record 'r worker_state =
  ws_db :: db
  ws_mirror :: 'r
  ws_metrics :: metrics

definition on_mirror :: "'r worker \<Rightarrow> ('r redis \<Rightarrow> 'r \<Rightarrow> 'r) \<Rightarrow> 'r worker_state \<Rightarrow> 'r worker_state" where
  "on_mirror w f s =
     (case w_leases w of None \<Rightarrow> s | Some R \<Rightarrow> s\<lparr> ws_mirror := f R (ws_mirror s) \<rparr>)"

definition on_store ::
  "bool \<Rightarrow> (db \<Rightarrow> store_error + 'a \<times> db) \<Rightarrow> 'r worker_state \<Rightarrow> 'a option \<times> 'r worker_state" where
  "on_store up f s =
     (case store_call up (ws_db s) (f (ws_db s)) of (x, db') \<Rightarrow> (x, s\<lparr> ws_db := db' \<rparr>))"

section \<open>Recording the result\<close>

definition duration_ms_of :: "duration \<Rightarrow> int" where
  "duration_ms_of d = min (int (d div 10 ^ 6)) i64_max"

definition peak_kb_of :: "u64 option \<Rightarrow> int option" where
  "peak_kb_of peak =
     (case peak of
        None \<Rightarrow> None
      | Some kb \<Rightarrow> if int (unat kb) \<le> i64_max then Some (int (unat kb)) else None)"

definition record_result ::
  "'r worker \<Rightarrow> store_obs \<Rightarrow> job \<Rightarrow> prove_error + proven \<Rightarrow> 'r worker_state \<Rightarrow> outcome \<times> 'r worker_state"
where
  "record_result w ob j result s =
     (let jid = j_id j; cfg = w_config w in
      case result of
        Inr p \<Rightarrow>
          (case on_store (o_up ob) (record_proof jid (wc_worker_id cfg) (pv_proof p) (pv_public_inputs p)
                  (duration_ms_of (pv_duration p)) (peak_kb_of (pv_peak_memory_kb p)) (o_now ob)) s of
             (Some _, s') \<Rightarrow>
               (Proved jid, s'\<lparr> ws_metrics :=
                  record_proof_metric (pv_duration p) (pv_peak_memory_kb p) (j_attempts j) (ws_metrics s') \<rparr>)
           | (None, s') \<Rightarrow> (LeaseLost jid, s'))
      | Inl failure \<Rightarrow>
          let kind = prove_error_kind failure;
              attempt = of_int (max (j_attempts j) 1);
              retry_in = (case kind of
                  Permanent \<Rightarrow> None
                | Transient \<Rightarrow> Some (delay (wc_backoff cfg) attempt (o_jitter ob)));
              s1 = s\<lparr> ws_metrics := record_failure_metric (prove_error_label failure) (ws_metrics s) \<rparr>
          in (case on_store (o_up ob) (record_failure jid (wc_worker_id cfg) kind (prove_error_text failure)
                     (map_option interval_of retry_in) (o_now ob)) s1 of
                (None, s') \<Rightarrow> (LeaseLost jid, s')
              | (Some _, s') \<Rightarrow> (Failed jid kind retry_in, s')))"

section \<open>One attempt\<close>

text \<open>
  Which branch of the \<open>select!\<close> came first: the heartbeat ended, the proof was done, shutdown was
  requested and the proof was done, or was not, within the grace.
\<close>

datatype proving_end = HeartbeatEnded | ProvingEnded | EndedInGrace | GraceOver

record 'r attempt_obs =
  ao_begin :: store_obs
  ao_others :: "db \<Rightarrow> db"
  ao_mirror :: "'r \<Rightarrow> 'r"
  ao_prover :: prover_world
  ao_how :: proving_end
  ao_end :: store_obs

definition scratch_label :: "job \<Rightarrow> string" where
  "scratch_label j = uuid_text (j_id j) @ ''-'' @ dec_int (j_attempts j)"

definition proving :: "'r worker \<Rightarrow> 'r attempt_obs \<Rightarrow> job \<Rightarrow> prove_error + proven" where
  "proving w ob j = prove (ao_prover ob) (w_prover w) (j_circuit_id j) (j_inputs j) (scratch_label j)"

text \<open>The start of an attempt up to the moment it ends; \<open>None\<close> when the job could not be started.\<close>

definition attempt_begun :: "'r worker \<Rightarrow> 'r attempt_obs \<Rightarrow> job \<Rightarrow> 'r worker_state \<Rightarrow> 'r worker_state option"
where
  "attempt_begun w ob j s =
     (let jid = j_id j; cfg = w_config w in
      case on_store (o_up (ao_begin ob)) (begin_proving jid (wc_worker_id cfg) (o_now (ao_begin ob))) s of
        (None, _) \<Rightarrow> None
      | (Some _, s1) \<Rightarrow>
          let s2 = on_mirror w (\<lambda>R. record_lease R jid (wc_worker_id cfg) (wc_lease_ttl cfg)) s1 in
          Some (s2\<lparr> ws_db := ao_others ob (ws_db s2), ws_mirror := ao_mirror ob (ws_mirror s2) \<rparr>))"

definition finish_attempt :: "'r worker \<Rightarrow> 'r attempt_obs \<Rightarrow> job \<Rightarrow> 'r worker_state \<Rightarrow> outcome \<times> 'r worker_state"
where
  "finish_attempt w ob j s =
     (let jid = j_id j in
      case ao_how ob of
        HeartbeatEnded \<Rightarrow> (LeaseLost jid, s)
      | ProvingEnded \<Rightarrow> record_result w (ao_end ob) j (proving w ob j) s
      | EndedInGrace \<Rightarrow> record_result w (ao_end ob) j (proving w ob j) s
      | GraceOver \<Rightarrow>
          (Abandoned jid, snd (on_store (o_up (ao_end ob))
             (release_lease jid (wc_worker_id (w_config w)) (o_now (ao_end ob))) s)))"

definition attempt :: "'r worker \<Rightarrow> 'r attempt_obs \<Rightarrow> job \<Rightarrow> 'r worker_state \<Rightarrow> outcome \<times> 'r worker_state"
where
  "attempt w ob j s =
     (case attempt_begun w ob j s of
        None \<Rightarrow> (LeaseLost (j_id j), s)
      | Some s1 \<Rightarrow>
          (case finish_attempt w ob j s1 of
             (out, s2) \<Rightarrow> (out, on_mirror w (\<lambda>R. forget R (j_id j)) s2)))"

section \<open>The loops\<close>

record 'r turn_obs =
  to_now :: time
  to_up :: bool
  to_locked :: "uuid list"
  to_shutdown_before :: bool
  to_shutdown_after :: bool
  to_release :: store_obs
  to_attempt :: "'r attempt_obs"

datatype worker_turn = Stopped | Slept | Attempted outcome

definition worker_turn_of :: "'r worker \<Rightarrow> 'r turn_obs \<Rightarrow> 'r worker_state \<Rightarrow> worker_turn \<times> 'r worker_state"
where
  "worker_turn_of w ob s =
     (let cfg = w_config w in
      if to_shutdown_before ob then (Stopped, s)
      else
        (case on_store (to_up ob) (lease_next (to_locked ob) (wc_worker_id cfg)
                (interval_of (wc_lease_ttl cfg)) (to_now ob)) s of
           (Some (Some j), s1) \<Rightarrow>
             if to_shutdown_after ob
             then (Stopped, snd (on_store (o_up (to_release ob))
                    (release_lease (j_id j) (wc_worker_id cfg) (o_now (to_release ob))) s1))
             else
               (case attempt w (to_attempt ob) j s1 of
                  (out, s2) \<Rightarrow>
                    (Attempted out, s2\<lparr> ws_metrics := record_outcome_metric (outcome_label out) (ws_metrics s2) \<rparr>))
         | (Some None, s1) \<Rightarrow> (Slept, s1)
         | (None, s1) \<Rightarrow> (Slept, s1)))"

text \<open>\<open>run\<close>, over one observation per turn: the attempts made until shutdown, or until they run out.\<close>

fun run_worker :: "'r worker \<Rightarrow> 'r turn_obs list \<Rightarrow> 'r worker_state \<Rightarrow> outcome list \<times> 'r worker_state" where
  "run_worker w [] s = ([], s)"
| "run_worker w (ob # obs) s =
     (case worker_turn_of w ob s of
        (Stopped, s') \<Rightarrow> ([], s')
      | (Slept, s') \<Rightarrow> run_worker w obs s'
      | (Attempted out, s') \<Rightarrow> (case run_worker w obs s' of (outs, s'') \<Rightarrow> (out # outs, s'')))"

text \<open>One tick of the heartbeat: whether it goes on.\<close>

definition worker_heartbeat_tick ::
  "'r worker \<Rightarrow> store_obs \<Rightarrow> uuid \<Rightarrow> 'r worker_state \<Rightarrow> bool \<times> 'r worker_state" where
  "worker_heartbeat_tick w ob jid s =
     (let cfg = w_config w in
      case on_store (o_up ob) (renew_lease jid (wc_worker_id cfg) (interval_of (wc_lease_ttl cfg)) (o_now ob)) s of
        (Some True, s') \<Rightarrow>
          (True, on_mirror w (\<lambda>R. record_lease R jid (wc_worker_id cfg) (wc_lease_ttl cfg)) s')
      | (Some False, s') \<Rightarrow> (False, s')
      | (None, s') \<Rightarrow> (True, s'))"

definition worker_reap_tick ::
  "'r worker \<Rightarrow> store_obs \<Rightarrow> uuid list \<Rightarrow> 'r worker_state \<Rightarrow> 'r worker_state" where
  "worker_reap_tick w ob locked s =
     (case on_store (o_up ob) (reap_expired_leases locked (wc_worker_id (w_config w)) (o_now ob)) s of
        (Some reaped, s') \<Rightarrow>
          if reaped \<noteq> []
          then s'\<lparr> ws_metrics := (ws_metrics s')\<lparr> mt_leases_reaped :=
                 counter_add (mt_leases_reaped (ws_metrics s')) (of_nat (length reaped)) \<rparr> \<rparr>
          else s'
      | (None, s') \<Rightarrow> s')"

text \<open>One tick of the sampler; \<open>o_read_up\<close> is whether the depth, \<open>o_up\<close> whether the age was read.\<close>

definition sample_tick :: "store_obs \<Rightarrow> 'r worker_state \<Rightarrow> 'r worker_state" where
  "sample_tick ob s =
     (let m = ws_metrics s;
          m1 = (if o_read_up ob then m\<lparr> mt_queue_depth := int (queue_depth (ws_db s)) \<rparr> else m);
          m2 = (if o_up ob
                then m1\<lparr> mt_oldest_lease_age := (case oldest_lease_age (o_now ob) (ws_db s) of
                       None \<Rightarrow> 0 | Some age \<Rightarrow> min (age div 10 ^ 6) i64_max) \<rparr>
                else m1)
      in s\<lparr> ws_metrics := m2 \<rparr>)"

end
