(* ===== verification/Worker_Properties.thy ===== *)
theory Worker_Properties
  imports Worker
begin

text \<open>
  The properties of the worker: what an outcome leaves in the tables, that every attempt is counted,
  that a worker renewing in time keeps its lease, and what happens to the mirror of a lost lease.
\<close>

section \<open>Calls to the store\<close>

lemma on_store_cases:
  assumes "on_store up f s = (x, s')"
  shows "(x = None \<and> s' = s) \<or> (\<exists>y db'. x = Some y \<and> f (ws_db s) = Inr (y, db') \<and> s' = s\<lparr> ws_db := db' \<rparr>)"
  using assms by (auto simp: on_store_def split: prod.splits dest!: store_call_cases)

lemma record_proof_row:
  assumes "record_proof jid w p q d m now db = Inr (j, db')"
  shows "\<exists>r. find_job jid db' = Some r \<and> j_state r = S_Proved \<and> j_proof r = Some p \<and>
    j_public_inputs r = Some q \<and> j_leased_by r = None"
proof -
  let ?f = "\<lambda>nxt x. x\<lparr> j_state := nxt, j_proof := Some p, j_public_inputs := Some q,
      j_leased_by := None, j_lease_expires_at := None \<rparr>"
  from assms obtain r nxt updated db1 db2 where r: "find_job jid db = Some r" and t: "transition (j_state r) E_ProofSucceeded = Inr nxt"
    and up: "update_job jid (?f nxt) now db = Inr (updated, db1)"
    and db': "db' = insert_transition jid (j_state r) E_ProofSucceeded nxt (Some w) None now db2"
    and att: "\<exists>ats. db2 = db1\<lparr> attempts_tbl := ats \<rparr>"
    by (auto simp: record_proof_def Let_def and_then_Inr ok_or_Inr transition_or_ok dest!: update_attempts_ok) blast
  have "nxt = S_Proved" using t by (cases "j_state r") auto
  with update_job_row [OF up] db' att show ?thesis by auto
qed

lemma record_failure_row:
  assumes "record_failure jid w k err retry now db = Inr (j, db')"
  shows "\<exists>r. find_job jid db' = Some r \<and> \<not> is_in_flight (j_state r) \<and> j_last_error r = Some err \<and>
    j_leased_by r = None \<and> (k = Permanent \<longrightarrow> j_state r = S_Failed)"
proof -
  let ?ev = "\<lambda>r. classify_failure k (unsigned_from 0 (j_attempts r)) (unsigned_from 1 (j_max_attempts r))"
  let ?f = "\<lambda>nxt d x. x\<lparr> j_state := nxt, j_last_error := Some err, j_leased_by := None,
      j_lease_expires_at := None, j_retry_after := d \<rparr>"
  from assms obtain r nxt d updated db1 db2 where r: "find_job jid db = Some r" and t: "transition (j_state r) (?ev r) = Inr nxt"
    and up: "update_job jid (?f nxt d) now db = Inr (updated, db1)"
    and db': "db' = insert_transition jid (j_state r) (?ev r) nxt (Some w) (Some err) now db2"
    and att: "\<exists>ats. db2 = db1\<lparr> attempts_tbl := ats \<rparr>"
    by (auto simp: record_failure_def Let_def and_then_Inr ok_or_Inr transition_or_ok dest!: update_attempts_ok) blast
  have "k = Permanent \<Longrightarrow> nxt = S_Failed"
    using t classify_failure_cases(1) [of k] by (cases "j_state r") auto
  with update_job_row [OF up] db' att classified_not_in_flight [OF t] show ?thesis by auto
qed

section \<open>What an outcome leaves behind\<close>

text \<open>
  The specification: \<open>s\<close> is the state in which the attempt ended, \<open>result\<close> what proving gave, \<open>db'\<close> the
  tables afterwards.
\<close>

definition job_row_is :: "(job_row \<Rightarrow> bool) \<Rightarrow> uuid \<Rightarrow> db \<Rightarrow> bool" where
  "job_row_is P jid db \<longleftrightarrow> (case find_job jid db of Some r \<Rightarrow> P r | None \<Rightarrow> False)"

fun outcome_recorded :: "outcome \<Rightarrow> prove_error + proven \<Rightarrow> db \<Rightarrow> db \<Rightarrow> bool" where
  "outcome_recorded (Proved jid) (Inr p) db db' =
     job_row_is (\<lambda>r. j_state r = S_Proved \<and> j_proof r = Some (pv_proof p) \<and>
       j_public_inputs r = Some (pv_public_inputs p) \<and> j_leased_by r = None) jid db'"
| "outcome_recorded (Proved jid) (Inl e) db db' = False"
| "outcome_recorded (Failed jid kind retry_in) (Inl e) db db' =
     (kind = prove_error_kind e \<and> (retry_in = None \<longleftrightarrow> kind = Permanent) \<and>
      job_row_is (\<lambda>r. \<not> is_in_flight (j_state r) \<and> j_last_error r = Some (prove_error_text e) \<and>
        j_leased_by r = None \<and> (kind = Permanent \<longrightarrow> j_state r = S_Failed)) jid db')"
| "outcome_recorded (Failed jid kind retry_in) (Inr p) db db' = False"
| "outcome_recorded (LeaseLost jid) result db db' = (db' = db)"
| "outcome_recorded (Abandoned jid) result db db' =
     (db' = db \<or> job_row_is (\<lambda>r. \<not> is_in_flight (j_state r)) jid db')"

lemma record_result_recorded:
  assumes "record_result w ob j result s = (out, s')"
  shows "outcome_job out = j_id j \<and> outcome_recorded out result (ws_db s) (ws_db s')"
proof (cases result)
  case (Inr p)
  with assms show ?thesis
    unfolding record_result_def Let_def
    by (auto split: prod.splits option.splits dest!: on_store_cases record_proof_row simp: job_row_is_def)
next
  case (Inl e)
  with assms show ?thesis
    unfolding record_result_def Let_def
    by (auto split: prod.splits option.splits failure_kind.splits dest!: on_store_cases record_failure_row
        simp: job_row_is_def)
qed

lemma on_mirror_db [simp]: "ws_db (on_mirror w f s) = ws_db s" "ws_metrics (on_mirror w f s) = ws_metrics s"
  by (simp_all add: on_mirror_def split: option.splits)

lemma release_leaves: "release_lease jid w now db = Inr (j, db') \<Longrightarrow>
  job_row_is (\<lambda>r. \<not> is_in_flight (j_state r)) jid db'"
  by (auto simp: release_lease_def Let_def res_iff job_row_is_def split: if_splits
      dest!: apply_event_result not_in_flight_after)

lemma finish_attempt_recorded:
  assumes "finish_attempt w ob j s = (out, s')"
  shows "outcome_job out = j_id j \<and> outcome_recorded out (proving w ob j) (ws_db s) (ws_db s')"
proof (cases "ao_how ob")
  case GraceOver
  with assms show ?thesis
    by (auto simp: finish_attempt_def Let_def on_store_def split: prod.splits
        dest!: store_call_cases release_leaves)
qed (use assms in \<open>auto simp: finish_attempt_def Let_def dest!: record_result_recorded\<close>)

text \<open>
  Claim C11. How an attempt is reported is what it left in the tables. Proved: the job is proved, with
  exactly the proof and public inputs the tools produced, and no holder. Failed: the error is stored, the
  job is back in a queue or failed, failed for certain when the error is permanent, and a retry delay was
  drawn exactly for a transient one. Lease lost: nothing was recorded. Abandoned: the job was handed back,
  or nothing changed.
\<close>
theorem attempt_reports_what_it_recorded:
  "case attempt w ob j s of (out, s') \<Rightarrow> outcome_job out = j_id j \<and>
    (case attempt_begun w ob j s of
       None \<Rightarrow> out = LeaseLost (j_id j) \<and> s' = s
     | Some s1 \<Rightarrow> outcome_recorded out (proving w ob j) (ws_db s1) (ws_db s'))"
proof (cases "attempt_begun w ob j s")
  case None
  then show ?thesis by (simp add: attempt_def)
next
  case (Some s1)
  obtain out s2 where e: "finish_attempt w ob j s1 = (out, s2)" by fastforce
  with finish_attempt_recorded [OF e] Some show ?thesis by (simp add: attempt_def)
qed

section \<open>Every attempt is counted\<close>

lemma map_option_same [simp]: "map_option (\<lambda>c. c) x = x"
  by (cases x) simp_all

lemma map_of_increment_named:
  "map_of (increment_named name cs) l = map_option (\<lambda>c. c + (if l = name then 1 else 0)) (map_of cs l)"
  by (induction cs) (auto simp: counter_increment_def)

lemma record_result_outcomes:
  "record_result w ob j result s = (out, s') \<Longrightarrow> mt_outcomes (ws_metrics s') = mt_outcomes (ws_metrics s)"
  by (auto simp: record_result_def Let_def record_proof_metric_def record_failure_metric_def
      split: sum.splits prod.splits option.splits dest!: on_store_cases)

lemma attempt_outcomes:
  assumes "attempt w ob j s = (out, s')"
  shows "mt_outcomes (ws_metrics s') = mt_outcomes (ws_metrics s)"
proof -
  have begun: "attempt_begun w ob j s = Some s1 \<Longrightarrow> ws_metrics s1 = ws_metrics s" for s1
    by (auto simp: attempt_begun_def Let_def split: prod.splits option.splits dest!: on_store_cases)
  have ended: "finish_attempt w ob j s1 = (out, s2) \<Longrightarrow> mt_outcomes (ws_metrics s2) = mt_outcomes (ws_metrics s1)" for s1 s2
    by (auto simp: finish_attempt_def Let_def on_store_def split: proving_end.splits prod.splits
        dest!: record_result_outcomes)
  from assms show ?thesis
    by (auto simp: attempt_def split: option.splits prod.splits dest!: begun ended)
qed

lemma turn_outcomes:
  assumes "worker_turn_of w ob s = (t, s')"
  shows "mt_outcomes (ws_metrics s') = (case t of
    Attempted out \<Rightarrow> increment_named (outcome_label out) (mt_outcomes (ws_metrics s)) | _ \<Rightarrow> mt_outcomes (ws_metrics s))"
  using assms
  by (auto simp: worker_turn_of_def Let_def on_store_def record_outcome_metric_def attempt_outcomes
      split: if_splits prod.splits option.splits dest!: attempt_outcomes)

lemma failure_reason_registered: "prove_error_label e \<in> set FAILURE_REASONS"
proof -
  have "bounded_label b \<in> set FAILURE_REASONS" for b by (cases b) (simp_all add: FAILURE_REASONS_def)
  then show ?thesis by (cases e) (simp_all, simp_all add: FAILURE_REASONS_def)
qed

text \<open>
  Every attempt is counted, once and under its own outcome: after a run, each counter of the
  worker's outcomes has grown by the number of attempts that ended so, the label of every outcome is a
  registered one, and so is the reason of every failure, so no recording is dropped.
\<close>
theorem every_attempt_is_counted:
  "case run_worker w obs s of (outs, s') \<Rightarrow>
    map_of (mt_outcomes (ws_metrics s')) l
      = map_option (\<lambda>c. c + of_nat (length (filter (\<lambda>out. outcome_label out = l) outs)))
          (map_of (mt_outcomes (ws_metrics s)) l) \<and>
    outcome_label ` set outs \<subseteq> set OUTCOMES \<and> prove_error_label e \<in> set FAILURE_REASONS"
proof -
  note reasons = failure_reason_registered [of e]
  have label: "outcome_label out \<in> set OUTCOMES" for out by (cases out) (simp_all add: OUTCOMES_def)
  show ?thesis
  proof (induction obs arbitrary: s)
    case Nil
    then show ?case using reasons by simp
  next
    case (Cons ob obs)
    obtain t s1 where t: "worker_turn_of w ob s = (t, s1)" by fastforce
    show ?case
      using Cons [of s1] t turn_outcomes [OF t] label reasons
      by (cases t) (auto simp: map_of_increment_named option.map_comp o_def add_ac
          split: prod.splits)
  qed
qed

section \<open>Scratch directories\<close>

text \<open>Two attempts share a scratch directory only when they are the same attempt of the same job.\<close>

lemma scratch_label_inject:
  assumes "is_uuid (j_id j)" and "is_uuid (j_id j')"
  shows "scratch_label j = scratch_label j' \<longleftrightarrow> j_id j = j_id j' \<and> j_attempts j = j_attempts j'"
proof -
  have len: "length (uuid_text i) = length (uuid_text i')" for i i'
    by (simp add: uuid_text_def Let_def)
  show ?thesis
    using uuid_text_inject [of "j_id j" "j_id j'"] assms(1,2) len [of "j_id j" "j_id j'"]
    by (auto simp: scratch_label_def is_uuid_def simp del: power_numeral)
qed

end
