(* ===== verification/Lease_Safety.thy ===== *)
theory Lease_Safety
  imports Worker_Properties
begin

text \<open>
  A worker that renews in time keeps its job unless somebody reports on it; and what the mirror
  says of a job whose lease was lost.
\<close>

section \<open>Operations leave other jobs alone\<close>

text \<open>The job an operation is told to change.\<close>

fun op_job :: "store_op \<Rightarrow> uuid option" where
  "op_job (OpRenewLease i _ _) = Some i"
| "op_job (OpBeginProving i _) = Some i"
| "op_job (OpRecordProof i _ _ _ _ _) = Some i"
| "op_job (OpRecordFailure i _ _ _ _) = Some i"
| "op_job (OpReleaseLease i _) = Some i"
| "op_job (OpRecordSubmission i _ _) = Some i"
| "op_job (OpConfirmSettlement i _ _ _) = Some i"
| "op_job (OpRecordReorg i _ _) = Some i"
| "op_job (OpReplaceTx i _ _) = Some i"
| "op_job (OpSettledElsewhere i _ _) = Some i"
| "op_job (OpSubmissionFailure i _ _ _ _) = Some i"
| "op_job _ = None"

lemma commit_find:
  "(\<And>x db'. res = Inr (x, db') \<Longrightarrow> find_job jid db' = find_job jid db) \<Longrightarrow> find_job jid (commit db res) = find_job jid db"
  by (auto simp: commit_def split: sum.splits)

lemma event_other:
  "apply_event_in_tx i ev ac d now db = Inr (x, db') \<Longrightarrow> i \<noteq> jid \<Longrightarrow> find_job jid db' = find_job jid db"
  by (auto dest!: apply_event_result)

lemma update_job_other:
  assumes "update_job i f now db = Inr (r', db')" and "i \<noteq> jid" and "\<And>r. j_id (f r) = j_id r"
  shows "find_job jid db' = find_job jid db"
  using update_job_row [OF assms(1,3)] assms(2) by auto

lemma settlements_find: "update_settlements p f now db = Inr db' \<Longrightarrow> find_job jid db' = find_job jid db"
  by (auto dest!: update_settlements_ok)

lemma attempts_find: "update_attempts p f db = Inr db' \<Longrightarrow> find_job jid db' = find_job jid db"
  by (auto dest!: update_attempts_ok)

lemma record_other:
  "record_proof i w p q d m now db = Inr (x, db') \<Longrightarrow> i \<noteq> jid \<Longrightarrow> find_job jid db' = find_job jid db"
  "record_failure i w k e r now db = Inr (x, db') \<Longrightarrow> i \<noteq> jid \<Longrightarrow> find_job jid db' = find_job jid db"
  "record_submission_failure i w k e r now db = Inr (x, db') \<Longrightarrow> i \<noteq> jid \<Longrightarrow> find_job jid db' = find_job jid db"
  by (auto simp: record_proof_def record_failure_def record_submission_failure_def Let_def and_then_Inr
      dest!: attempts_find [where jid = jid] update_job_other [where jid = jid])

lemma renew_other:
  "renew_lease i w ttl now db = Inr (b, db') \<Longrightarrow> i \<noteq> jid \<or> b = False \<Longrightarrow> find_job jid db' = find_job jid db"
  by (auto simp: renew_lease_def and_then_Inr split: option.splits if_splits
      dest!: update_job_other [where jid = jid])

lemma other_job_untouched:
  assumes "op_job op = Some i" and "i \<noteq> jid"
  shows "find_job jid (exec_op sha db (now, op)) = find_job jid db"
proof (cases op)
  case (OpConfirmSettlement i' w h rc)
  then show ?thesis
    using assms by (auto simp: confirm_settlement_def and_then_Inr settlements_find event_other intro!: commit_find)
next
  case (OpRecordReorg i' w h)
  then show ?thesis
    using assms by (auto simp: record_reorg_def and_then_Inr settlements_find event_other intro!: commit_find)
next
  case (OpReplaceTx i' h h')
  then show ?thesis
    using assms by (auto simp: replace_submission_tx_def and_then_Inr settlements_find intro!: commit_find)
next
  case (OpRecordSubmission i' h n)
  then show ?thesis
    using assms by (auto simp: record_submission_def Let_def and_then_Inr intro!: commit_find split: if_splits)
next
  case (OpReleaseLease i' w)
  then show ?thesis
    using assms by (auto simp: release_lease_def Let_def and_then_Inr event_other intro!: commit_find)
qed (use assms in \<open>auto simp: begin_proving_def mark_settled_elsewhere_def apply_event_def
      event_other record_other renew_other intro!: commit_find\<close>)

section \<open>A lease renewed in time\<close>

definition lease_held :: "uuid \<Rightarrow> string \<Rightarrow> time \<Rightarrow> db \<Rightarrow> bool" where
  "lease_held jid w expiry db \<longleftrightarrow> (\<exists>r. find_job jid db = Some r \<and> j_state r = S_Proving \<and>
     j_leased_by r = Some w \<and> j_lease_expires_at r = Some expiry)"

lemma lease_held_cong: "find_job jid db' = find_job jid db \<Longrightarrow> lease_held jid w t db' = lease_held jid w t db"
  by (simp add: lease_held_def)

lemma reap_rows_other:
  "reap_rows w now rs db = Inr (ids, db') \<Longrightarrow> distinct (map j_id rs) \<Longrightarrow>
   (\<And>r. r \<in> set rs \<Longrightarrow> find_job (j_id r) db = Some r) \<Longrightarrow> jid \<notin> j_id ` set rs \<Longrightarrow>
   find_job jid db' = find_job jid db"
proof (induction rs arbitrary: db ids)
  case (Cons r rs)
  then obtain i db1 ids1 where one: "reap_one w now r db = Inr (i, db1)"
    and rest: "reap_rows w now rs db1 = Inr (ids1, db')"
    by (auto simp: and_then_Inr)
  note r = reap_one_steps [OF one Cons.prems(3) [of r]]
  have "find_job (j_id x) db1 = Some x" if "x \<in> set rs" for x
    using that r Cons.prems(2,3) by (auto simp: image_iff)
  with Cons.IH [OF rest] Cons.prems r show ?case by simp
qed simp

lemma held_not_reaped:
  assumes "store_ok db" and "lease_held jid w t db" and "now \<le> t"
  shows "lease_held jid w t (exec_op sha db (now, OpReap locked who))"
proof -
  note ids = store_ok_ids [OF assms(1)]
  obtain r where r: "find_job jid db = Some r" "j_lease_expires_at r = Some t"
    using assms(2) by (auto simp: lease_held_def)
  have "x = r" if "x \<in> set (jobs_tbl db)" "j_id x = jid" for x
    using same_id_row [OF ids r(1) that] .
  then have *: "jid \<notin> j_id ` set (filter (expired locked now) (jobs_tbl db))"
    using r(2) assms(3) by (auto simp: expired_def)
  have "find_job jid db' = find_job jid db"
    if "reap_expired_leases locked who now db = Inr (n, db')" for n db'
    by (rule reap_rows_other [OF that [unfolded reap_expired_leases_def] _ _ *])
      (use ids in \<open>auto simp: find_job_member distinct_map_filter\<close>)
  then have "find_job jid (commit db (reap_expired_leases locked who now db)) = find_job jid db"
    by (rule commit_find)
  then show ?thesis using assms(2) by (simp add: lease_held_def)
qed

lemma held_not_leased:
  assumes "store_ok db" and "lease_held jid w t db"
  shows "lease_held jid w t (exec_op sha db (now, OpLeaseNext locked v ttl))"
    and "lease_held jid w t (exec_op sha db (now, OpLeaseNextProved locked v ttl))"
proof -
  have other: "j_id r \<noteq> jid" if "candidate st locked now db = Some r" "st \<noteq> S_Proving" for r st
    using candidate_in [OF that(1)] find_job_member [OF store_ok_ids [OF assms(1)]] assms(2) that(2)
    by (auto simp: lease_held_def leasable_def)
  have "find_job jid (commit db (lease_next locked v ttl now db)) = find_job jid db"
  proof (rule commit_find)
    fix x db' assume l: "lease_next locked v ttl now db = Inr (x, db')"
    show "find_job jid db' = find_job jid db"
    proof (cases x)
      case None
      with l show ?thesis by (auto simp: lease_next_def and_then_Inr Let_def split: option.splits)
    next
      case (Some j)
      from proving_queue.take_some [OF assms(1) l [unfolded Some]] other show ?thesis by force
    qed
  qed
  then show "lease_held jid w t (exec_op sha db (now, OpLeaseNext locked v ttl))"
    using assms(2) by (simp add: lease_held_def)
  have "find_job jid (commit db (lease_next_proved locked v ttl now db)) = find_job jid db"
  proof (rule commit_find)
    fix x db' assume l: "lease_next_proved locked v ttl now db = Inr (x, db')"
    show "find_job jid db' = find_job jid db"
    proof (cases x)
      case None
      with l show ?thesis by (auto simp: lease_next_proved_def and_then_Inr Let_def split: option.splits)
    next
      case (Some j)
      from submit_queue.take_some [OF assms(1) l [unfolded Some]] other show ?thesis by force
    qed
  qed
  then show "lease_held jid w t (exec_op sha db (now, OpLeaseNextProved locked v ttl))"
    using assms(2) by (simp add: lease_held_def)
qed

lemma held_when_renewed:
  assumes "store_ok db" and "lease_held jid w t db"
  shows "lease_held jid w (now + ttl) (exec_op sha db (now, OpRenewLease jid w ttl))"
proof -
  obtain r where r: "find_job jid db = Some r" "j_state r = S_Proving" "j_leased_by r = Some w"
    using assms(2) by (auto simp: lease_held_def)
  obtain b db' where n: "renew_lease jid w ttl now db = Inr (b, db')"
    and b: "b \<longleftrightarrow> (\<exists>r. find_job jid db = Some r \<and> j_leased_by r = Some w \<and> is_in_flight (j_state r))"
    using renewal_is_the_holders' [OF assms(1), of jid w ttl now] by blast
  have b: b using b r by auto
  then have "find_job jid db' = Some (r\<lparr> j_lease_expires_at := Some (now + ttl), j_updated_at := now \<rparr>)"
    using n r update_job_row [of jid "\<lambda>x. x\<lparr> j_lease_expires_at := Some (now + ttl) \<rparr>" now db]
    by (auto simp: renew_lease_def and_then_Inr split: if_splits)
  then show ?thesis using n r by (auto simp: lease_held_def commit_def)
qed

lemma held_when_others:
  assumes "lease_held jid w t db"
  shows "lease_held jid w t (exec_op sha db (now, OpUpsertCircuit c))"
    and "lease_held jid w t (exec_op sha db (now, OpEnqueue i cid v k m))"
proof -
  show "lease_held jid w t (exec_op sha db (now, OpUpsertCircuit c))"
    using assms by (auto simp: upsert_circuit_def commit_def lease_held_def split: sum.splits if_splits)
  show "lease_held jid w t (exec_op sha db (now, OpEnqueue i cid v k m))"
    using assms
    by (auto simp: enqueue_def Let_def and_then_Inr commit_def lease_held_def find_job_def find_append_rows
        split: sum.splits if_splits option.splits)
qed

text \<open>
  The four operations that end a lease without asking who holds it: the reports on a job, and its release.
\<close>

fun reports_on :: "uuid \<Rightarrow> store_op \<Rightarrow> bool" where
  "reports_on jid (OpRecordProof i _ _ _ _ _) = (i = jid)"
| "reports_on jid (OpRecordFailure i _ _ _ _) = (i = jid)"
| "reports_on jid (OpReleaseLease i _) = (i = jid)"
| "reports_on jid (OpSubmissionFailure i _ _ _ _) = (i = jid)"
| "reports_on jid _ = False"

text \<open>
  Every other operation that names a job being proved, by whoever: it fails, or changes settlements, or is
  the renewal of another worker, which is refused.
\<close>

lemma held_when_named:
  assumes "lease_held jid w t db" and "op_job op = Some jid" and "\<not> reports_on jid op"
    and "\<And>ttl. op \<noteq> OpRenewLease jid w ttl"
  shows "lease_held jid w t (exec_op sha db (now, op))"
proof -
  obtain r where r: "find_job jid db = Some r" "j_state r = S_Proving"
    using assms(1) by (auto simp: lease_held_def)
  have ev: "apply_event_in_tx jid ev a d now db' = Inr (j, db'') \<Longrightarrow> find_job jid db' = find_job jid db \<Longrightarrow>
      ev \<in> {E_ProvingStarted, E_SettlementConfirmed, E_Reorged} \<Longrightarrow> False" for ev a d db' j db''
    using r by (auto dest!: apply_event_result)
  have "find_job jid (exec_op sha db (now, op)) = find_job jid db"
  proof (cases op)
    case (OpConfirmSettlement i v h rc)
    then show ?thesis
      using assms(2) by (auto simp: confirm_settlement_def and_then_Inr intro!: commit_find
          dest!: settlements_find [where jid = jid] dest: ev)
  next
    case (OpRecordReorg i v h)
    then show ?thesis
      using assms(2) by (auto simp: record_reorg_def and_then_Inr intro!: commit_find
          dest!: settlements_find [where jid = jid] dest: ev)
  next
    case (OpReplaceTx i h h')
    then show ?thesis
      using assms(2) by (auto simp: replace_submission_tx_def and_then_Inr settlements_find intro!: commit_find)
  next
    case (OpRecordSubmission i h n)
    then show ?thesis
      by simp (rule commit_find, auto simp: record_submission_def Let_def and_then_Inr split: if_splits)
  next
    case (OpRenewLease i v ttl)
    then have "v \<noteq> w" "i = jid" using assms(2,4) by auto
    then show ?thesis
      using OpRenewLease assms(1) by (auto simp: renew_lease_def lease_held_def intro!: commit_find split: if_splits)
  qed (use assms in \<open>auto simp: begin_proving_def mark_settled_elsewhere_def apply_event_def
        intro!: commit_find dest: ev\<close>)
  then show ?thesis using assms(1) by (simp add: lease_held_def)
qed

text \<open>
  A run in which the job's own worker renews before the lease runs out: the last renewal's expiry is carried
  along, and a reaper must not run after it. Nobody reports on the job or releases it.
\<close>

fun renewed_in_time :: "uuid \<Rightarrow> string \<Rightarrow> time \<Rightarrow> (time \<times> store_op) list \<Rightarrow> bool" where
  "renewed_in_time jid w expiry [] = True"
| "renewed_in_time jid w expiry ((now, OpRenewLease i v ttl) # ops) =
     (if i = jid \<and> v = w then renewed_in_time jid w (now + ttl) ops else renewed_in_time jid w expiry ops)"
| "renewed_in_time jid w expiry ((now, OpReap locked who) # ops) =
     (now \<le> expiry \<and> renewed_in_time jid w expiry ops)"
| "renewed_in_time jid w expiry ((now, op) # ops) = (\<not> reports_on jid op \<and> renewed_in_time jid w expiry ops)"

fun next_expiry :: "uuid \<Rightarrow> string \<Rightarrow> time \<Rightarrow> time \<times> store_op \<Rightarrow> time" where
  "next_expiry jid w expiry (now, OpRenewLease i v ttl) = (if i = jid \<and> v = w then now + ttl else expiry)"
| "next_expiry jid w expiry _ = expiry"

lemma held_step:
  assumes "store_ok db" and "lease_held jid w t db" and "renewed_in_time jid w t ((now, op) # ops)"
  shows "lease_held jid w (next_expiry jid w t (now, op)) (exec_op sha db (now, op))"
proof (cases "op_job op")
  case None
  with assms held_not_reaped held_not_leased held_when_others(1,2) show ?thesis
    by (cases op) (simp_all del: exec_op.simps)
next
  case (Some i)
  show ?thesis
  proof (cases "i = jid")
    case False
    then have "lease_held jid w t (exec_op sha db (now, op))"
      using other_job_untouched [OF Some] assms(2) lease_held_cong by blast
    then show ?thesis using Some False by (cases op) (simp_all del: exec_op.simps)
  next
    case True
    with Some assms held_when_renewed held_when_named [OF assms(2)] show ?thesis
      by (cases op) (auto simp del: exec_op.simps)
  qed
qed

lemma renewed_in_time_tail:
  "renewed_in_time jid w t (nop # ops) \<Longrightarrow> renewed_in_time jid w (next_expiry jid w t nop) ops"
proof -
  obtain now op where nop: "nop = (now, op)" by (cases nop)
  show "renewed_in_time jid w t (nop # ops) \<Longrightarrow> renewed_in_time jid w (next_expiry jid w t nop) ops"
    unfolding nop by (cases op) (simp_all split: if_splits)
qed

lemma lease_held_run:
  "store_ok db \<Longrightarrow> lease_held jid w t db \<Longrightarrow> renewed_in_time jid w t ops \<Longrightarrow>
   lease_held jid w (foldl (next_expiry jid w) t ops) (run_store sha db ops)"
proof (induction ops arbitrary: db t)
  case (Cons nop ops)
  have "store_ok (exec_op sha db nop)"
    using Cons.prems(1) run_store_ok [of db sha "[nop]"] by (simp add: run_store_def)
  moreover have "lease_held jid w (next_expiry jid w t nop) (exec_op sha db nop)"
    using held_step [OF Cons.prems(1,2)] Cons.prems(3) by (cases nop) simp
  ultimately show ?case
    using Cons.IH renewed_in_time_tail [OF Cons.prems(3)] by (simp add: run_store_def)
qed (simp add: run_store_def)

text \<open>
  Claim C6. A worker that renews its lease before the lease runs out keeps its job through any sequence of
  operations of the services, those that name the job included, as long as nobody reports on the job or
  releases it. The four operations excluded do not look at the holder and do take the job, also from
  another worker (finding at lib.rs:816); so they are the only way to
  lose it. The job is still proving, the worker still the holder, and its lease ends one time-to-live after
  its last renewal. By the defaults a renewal is due every 30 of 180 seconds, and a proof cannot take
  longer than 120.
\<close>
theorem renewing_worker_keeps_its_job:
  assumes "store_ok db" and "lease_held jid w t db" and "renewed_in_time jid w t ops"
  shows "lease_held jid w (foldl (next_expiry jid w) t ops) (run_store sha db ops) \<and>
    5 * wc_heartbeat_interval (new_worker_config w) < wc_lease_ttl (new_worker_config w) \<and>
    wall_clock for_proving < wc_lease_ttl (new_worker_config w)"
  using lease_held_run [OF assms, of sha] by (simp add: new_worker_config_def for_proving_def)

definition proving_db :: db where
  "proving_db = run_store sample_hash leased_db [(3, OpBeginProving 7 ''w'')]"

lemma proving_db_held: "store_ok proving_db" "lease_held 7 ''w'' 12 proving_db"
proof -
  show "store_ok proving_db" unfolding proving_db_def by (intro run_store_ok sample_ok)
  have "find_job 7 proving_db = Some (sample_row\<lparr> j_state := S_Proving, j_leased_by := Some ''w'',
     j_lease_expires_at := Some 12, j_attempts := 1, j_updated_at := 3 \<rparr>)" by code_simp
  then show "lease_held 7 ''w'' 12 proving_db" by (simp add: lease_held_def)
qed

theorem renewing_worker_keeps_its_job_witness:
  "lease_held 7 ''w'' 20 (run_store sample_hash proving_db
     [(9, OpReap [] ''r''), (10, OpRenewLease 7 ''w'' 10), (15, OpReap [] ''r''), (16, OpLeaseNext [] ''v'' 10),
      (17, OpBeginProving 7 ''v''), (18, OpRenewLease 7 ''v'' 99), (19, OpSettledElsewhere 7 ''x'' ''d'')])"
  using renewing_worker_keeps_its_job [OF proving_db_held, of "[(9, OpReap [] ''r''),
      (10, OpRenewLease 7 ''w'' 10), (15, OpReap [] ''r''), (16, OpLeaseNext [] ''v'' 10),
      (17, OpBeginProving 7 ''v''), (18, OpRenewLease 7 ''v'' 99), (19, OpSettledElsewhere 7 ''x'' ''d'')]" sample_hash]
  by simp

section \<open>The mirror of a lost lease\<close>

text \<open>
  An attempt that ends because its lease was lost deletes the job's entry in the mirror,
  whoever it belongs to by then. When another worker has leased the job and recorded itself, the mirror
  says the job is definitely free while that worker is proving it, until its next heartbeat.
\<close>
theorem lost_attempt_frees_the_new_holder:
  assumes "w_leases w = Some R" and "redis_up R" and "is_uuid (j_id j)"
    and "attempt_begun w ob j s = Some s1" and "ao_how ob = HeartbeatEnded"
  shows "\<exists>s'. attempt w ob j s = (LeaseLost (j_id j), s') \<and> ws_db s' = ws_db s1 \<and>
    is_definitely_free (liveness_of R (j_id j) (ws_mirror s'))"
  using assms liveness_forget [OF assms(2,3,3)]
  by (simp add: attempt_def finish_attempt_def Let_def on_mirror_def)

text \<open>The worker \<open>w\<close> stalls, its lease is reaped, and \<open>v\<close> takes the job and records itself.\<close>

definition stalled_worker :: "(string \<Rightarrow> string option) worker" where
  "stalled_worker =
     \<lparr> w_config = new_worker_config ''w'',
       w_prover = \<lparr> pc_root = ''root'', pc_bounds = for_proving, pc_nargo = ''nargo'', pc_bb = ''bb'' \<rparr>,
       w_leases = Some sample_redis \<rparr>"

definition idle_world :: prover_world where
  "idle_world =
     \<lparr> pw_has = \<lambda>_. False, pw_scratch_root = Inr [], pw_scratch = Inr (), pw_copy = Inr (), pw_write = Inr (),
       pw_nargo = \<lambda>_ _. TimedOut, pw_target = None, pw_create_out = Inr (), pw_utf8 = \<lambda>_. True,
       pw_bb = \<lambda>_. TimedOut, pw_proof = None, pw_public_inputs = None \<rparr>"

definition stalled_obs :: "(string \<Rightarrow> string option) attempt_obs" where
  "stalled_obs =
     \<lparr> ao_begin = \<lparr> o_now = 3, o_read_up = True, o_up = True, o_jitter = None \<rparr>,
       ao_others = \<lambda>db. run_store sample_hash db [(20, OpReap [] ''r''), (21, OpLeaseNext [] ''v'' 10)],
       ao_mirror = record_lease sample_redis 7 ''v'' (seconds 180),
       ao_prover = idle_world, ao_how = HeartbeatEnded,
       ao_end = \<lparr> o_now = 22, o_read_up = True, o_up = True, o_jitter = None \<rparr> \<rparr>"

definition stalled_job :: job where
  "stalled_job = from_row sample_row"

theorem lost_attempt_frees_the_new_holder_witness:
  "\<exists>s'. attempt stalled_worker stalled_obs stalled_job
        \<lparr> ws_db = leased_db, ws_mirror = Map.empty, ws_metrics = new_metrics ''w'' \<rparr> = (LeaseLost 7, s') \<and>
     is_definitely_free (liveness_of sample_redis 7 (ws_mirror s')) \<and>
     job_row_is (\<lambda>r. j_state r = S_Leased \<and> j_leased_by r = Some ''v'') 7 (ws_db s')"
proof -
  let ?s = "\<lparr> ws_db = leased_db, ws_mirror = Map.empty, ws_metrics = new_metrics ''w'' \<rparr>"
  let ?db = "commit leased_db (begin_proving 7 ''w'' 3 leased_db)"
  have id7: "j_id stalled_job = 7" by code_simp
  have "(case begin_proving 7 ''w'' 3 leased_db of Inl _ \<Rightarrow> False | Inr _ \<Rightarrow> True)" by code_simp
  then obtain x db1 where b: "begin_proving 7 ''w'' 3 leased_db = Inr (x, db1)"
    by (auto split: sum.splits)
  have held: "job_row_is (\<lambda>r. j_state r = S_Leased \<and> j_leased_by r = Some ''v'') 7
      (run_store sample_hash ?db [(20, OpReap [] ''r''), (21, OpLeaseNext [] ''v'' 10)])" by code_simp
  have "\<exists>s1. attempt_begun stalled_worker stalled_obs stalled_job ?s = Some s1 \<and>
      ws_db s1 = run_store sample_hash ?db [(20, OpReap [] ''r''), (21, OpLeaseNext [] ''v'' 10)]"
    using b id7
    by (simp add: attempt_begun_def on_store_def store_call_def stalled_worker_def stalled_obs_def
        new_worker_config_def commit_def Let_def)
  then obtain s1 where s1: "attempt_begun stalled_worker stalled_obs stalled_job ?s = Some s1"
    and db: "ws_db s1 = run_store sample_hash ?db [(20, OpReap [] ''r''), (21, OpLeaseNext [] ''v'' 10)]" by blast
  have "w_leases stalled_worker = Some sample_redis" "is_uuid (j_id stalled_job)" "ao_how stalled_obs = HeartbeatEnded"
    by (simp_all add: stalled_worker_def stalled_obs_def id7 is_uuid_def)
  from lost_attempt_frees_the_new_holder [OF this(1) sample_redis_up this(2) s1 this(3)] held db id7
  show ?thesis by auto
qed

end
