(* ===== verification/Services.thy ===== *)
theory Services
  imports Api Lease_Safety Relayer_Properties
begin

text \<open>
  The composition: the store as an implementation of the job state machine, and the three services, the
  API, the workers and the relayer, as clients that change the tables only by steps of the store.
\<close>

section \<open>The store implements the state machine\<close>

text \<open>
  The abstract specification: jobs and their states. A job appears queued, and moves by an event that
  the state machine of \<open>Job\<close> allows.
\<close>

type_synonym board = "uuid \<Rightarrow> job_state option"

inductive board_step :: "board \<Rightarrow> board \<Rightarrow> bool" where
  appear: "b jid = None \<Longrightarrow> board_step b (b(jid \<mapsto> S_Queued))"
| move: "b jid = Some s \<Longrightarrow> transition s ev = Inr t \<Longrightarrow> board_step b (b(jid \<mapsto> t))"

text \<open>The abstraction function.\<close>

definition board_of :: "db \<Rightarrow> board" where
  "board_of db jid = map_option j_state (find_job jid db)"

lemma board_of_tables [simp]:
  "board_of (db\<lparr> attempts_tbl := a \<rparr>) = board_of db"
  "board_of (db\<lparr> settlements_tbl := s \<rparr>) = board_of db"
  "board_of (db\<lparr> circuits_tbl := c \<rparr>) = board_of db"
  "board_of (insert_transition jid f e t ac d now db) = board_of db"
  by (simp_all add: board_of_def fun_eq_iff)

lemma board_of_replace:
  "find_job jid db = Some r \<Longrightarrow> j_id r' = jid \<Longrightarrow> board_of (replace_row r' db) = (board_of db)(jid \<mapsto> j_state r')"
  by (auto simp: board_of_def fun_eq_iff find_job_replace)

lemma db_step_refines: "db_step db db' \<Longrightarrow> board_of db' = board_of db \<or> board_step (board_of db) (board_of db')"
proof (induction rule: db_step.induct)
  case (step_new r db)
  then have "board_of (db\<lparr> jobs_tbl := jobs_tbl db @ [r] \<rparr>) = (board_of db)(j_id r \<mapsto> S_Queued)"
    by (auto simp: board_of_def fun_eq_iff find_job_def find_append_rows split: option.splits)
  moreover have "board_of db (j_id r) = None" using step_new by (simp add: board_of_def)
  ultimately show ?case using appear by metis
next
  case (step_event jid db r ev r' ac d now)
  then have jd: "j_id r' = jid" using find_job_id [OF step_event(1)] by (simp add: moved_by_defs)
  have "board_of db jid = Some (j_state r)" using step_event(1) by (simp add: board_of_def)
  moreover have "transition (j_state r) ev = Inr (j_state r')" using step_event(2) by (simp add: moved_by_def)
  ultimately have "board_step (board_of db) ((board_of db)(jid \<mapsto> j_state r'))" by (rule move)
  then show ?case by (simp only: board_of_tables board_of_replace [OF step_event(1) jd] simp_thms)
next
  case (step_renew jid db r r' t now)
  then have "j_id r' = jid" "j_state r' = j_state r" using find_job_id [OF step_renew(1)] by simp_all
  with board_of_replace [OF step_renew(1)] step_renew(1) show ?case
    by (simp add: board_of_def fun_upd_idem fun_eq_iff)
qed simp_all

lemma db_steps_refine: "db_steps db db' \<Longrightarrow> board_step\<^sup>*\<^sup>* (board_of db) (board_of db')"
  by (induction rule: rtranclp_induct) (auto dest!: db_step_refines intro: rtranclp.rtrancl_into_rtrancl)

inductive_cases board_stepE: "board_step b b'"

text \<open>What the abstract machine says of one job, and so of the tables: it only takes events.\<close>

lemma board_runs:
  assumes "board_step\<^sup>*\<^sup>* b b'" and "b jid = Some s"
  shows "\<exists>es. b' jid = Some (run s es)"
  using assms
proof (induction rule: rtranclp_induct)
  case base
  then show ?case by (metis run_Nil)
next
  case (step y z)
  then obtain es where es: "y jid = Some (run s es)" by blast
  from step(2) consider
      (new) i where "y i = None" "z = y(i \<mapsto> S_Queued)"
    | (event) i u ev t where "y i = Some u" "transition u ev = Inr t" "z = y(i \<mapsto> t)"
    by (rule board_stepE)
  then show ?case
  proof cases
    case new
    then show ?thesis using es by auto
  next
    case event
    show ?thesis
    proof (cases "i = jid")
      case True
      then have "run s (es @ [ev]) = t" using event es by (simp add: run_append try_event_def)
      then show ?thesis using event True by auto
    qed (use event es in auto)
  qed
qed

lemma finished_stays:
  assumes "board_step\<^sup>*\<^sup>* b b'" and "b jid = Some s" and "is_terminal s"
  shows "b' jid = Some s"
  using board_runs [OF assms(1,2)] terminal_kept.run_inv [of s s] assms(3) by (auto simp: run_def)

section \<open>Operation by operation\<close>

text \<open>The error an operation is refused with.\<close>

definition refusal :: "store_error + 'a \<Rightarrow> store_error option" where
  "refusal res = (case res of Inl e \<Rightarrow> Some e | Inr _ \<Rightarrow> None)"

fun refused :: "(bytes \<Rightarrow> bytes) \<Rightarrow> db \<Rightarrow> time \<times> public_op \<Rightarrow> store_error option" where
  "refused sha db (now, Service (OpUpsertCircuit c)) = refusal (upsert_circuit c db)"
| "refused sha db (now, Service (OpEnqueue i c v k m)) = refusal (enqueue sha i c v k m now db)"
| "refused sha db (now, Service (OpLeaseNext l w ttl)) = refusal (lease_next l w ttl now db)"
| "refused sha db (now, Service (OpRenewLease i w ttl)) = refusal (renew_lease i w ttl now db)"
| "refused sha db (now, Service (OpReap l w)) = refusal (reap_expired_leases l w now db)"
| "refused sha db (now, Service (OpBeginProving i w)) = refusal (begin_proving i w now db)"
| "refused sha db (now, Service (OpRecordProof i w p q d m)) = refusal (record_proof i w p q d m now db)"
| "refused sha db (now, Service (OpRecordFailure i w k e r)) = refusal (record_failure i w k e r now db)"
| "refused sha db (now, Service (OpReleaseLease i w)) = refusal (release_lease i w now db)"
| "refused sha db (now, Service (OpLeaseNextProved l w ttl)) = refusal (lease_next_proved l w ttl now db)"
| "refused sha db (now, Service (OpRecordSubmission i h n)) = refusal (record_submission i h n now db)"
| "refused sha db (now, Service (OpConfirmSettlement i w h rc)) = refusal (confirm_settlement i w h rc now db)"
| "refused sha db (now, Service (OpRecordReorg i w h)) = refusal (record_reorg i w h now db)"
| "refused sha db (now, Service (OpReplaceTx i h h')) = refusal (replace_submission_tx i h h' now db)"
| "refused sha db (now, Service (OpSettledElsewhere i w d)) = refusal (mark_settled_elsewhere i w d now db)"
| "refused sha db (now, Service (OpSubmissionFailure i w k e r)) =
     refusal (record_submission_failure i w k e r now db)"
| "refused sha db (now, ApplyEvent i ev ac d) = refusal (apply_event i ev ac d now db)"

text \<open>What an operation that was not refused does to the board.\<close>

definition moves :: "job_event set \<Rightarrow> uuid \<Rightarrow> board \<Rightarrow> board \<Rightarrow> bool" where
  "moves evs jid b b' \<longleftrightarrow>
     (\<exists>ev \<in> evs. \<exists>s t. b jid = Some s \<and> transition s ev = Inr t \<and> b' = b(jid \<mapsto> t))"

fun failure_events :: "failure_kind \<Rightarrow> job_event set" where
  "failure_events Permanent = {E_PermanentlyFailed}"
| "failure_events Transient = {E_RetryScheduled, E_AttemptsExhausted}"

definition reaps :: "uuid list \<Rightarrow> board \<Rightarrow> board \<Rightarrow> bool" where
  "reaps locked b b' \<longleftrightarrow>
     (\<forall>jid. b' jid = b jid \<or> jid \<notin> set locked \<and>
        (\<exists>s ev. b jid = Some s \<and> is_in_flight s \<and> ev \<in> {E_LeaseExpired, E_RetryScheduled, E_AttemptsExhausted} \<and>
           (\<exists>t. transition s ev = Inr t \<and> b' jid = Some t)))"

fun board_op :: "store_op \<Rightarrow> board \<Rightarrow> board \<Rightarrow> bool" where
  "board_op (OpEnqueue i _ _ _ _) b b' = (b' = b \<or> b i = None \<and> b' = b(i \<mapsto> S_Queued))"
| "board_op (OpLeaseNext l _ _) b b' = (b' = b \<or> (\<exists>i. i \<notin> set l \<and> moves {E_Leased} i b b'))"
| "board_op (OpLeaseNextProved l _ _) b b' = (b' = b \<or> (\<exists>i. i \<notin> set l \<and> moves {E_SubmissionStarted} i b b'))"
| "board_op (OpReap l _) b b' = reaps l b b'"
| "board_op (OpBeginProving i _) b b' = moves {E_ProvingStarted} i b b'"
| "board_op (OpRecordProof i _ _ _ _ _) b b' = moves {E_ProofSucceeded} i b b'"
| "board_op (OpRecordFailure i _ k _ _) b b' = moves (failure_events k) i b b'"
| "board_op (OpReleaseLease i _) b b' = moves {E_LeaseExpired, E_RetryScheduled} i b b'"
| "board_op (OpConfirmSettlement i _ _ _) b b' = moves {E_SettlementConfirmed} i b b'"
| "board_op (OpRecordReorg i _ _) b b' = moves {E_Reorged} i b b'"
| "board_op (OpSettledElsewhere i _ _) b b' = moves {E_SettlementConfirmed} i b b'"
| "board_op (OpSubmissionFailure i _ k _ _) b b' = moves (failure_events k) i b b'"
| "board_op _ b b' = (b' = b)"

fun board_public :: "public_op \<Rightarrow> board \<Rightarrow> board \<Rightarrow> bool" where
  "board_public (Service op) b b' = board_op op b b'"
| "board_public (ApplyEvent i ev _ _) b b' = moves {ev} i b b'"

lemma board_settlements [simp]:
  "update_settlements p f now db = Inr db' \<Longrightarrow> board_of db' = board_of db"
  by (auto dest!: update_settlements_ok)

lemma board_attempts [simp]: "update_attempts p f db = Inr db' \<Longrightarrow> board_of db' = board_of db"
  by (auto dest!: update_attempts_ok)

lemma board_insert_attempt [simp]: "insert_attempt i n w now db = Inr db' \<Longrightarrow> board_of db' = board_of db"
  by (auto dest!: insert_attempt_ok)

lemma board_update_job:
  assumes "update_job jid f now db = Inr (r', db')" and "find_job jid db = Some r" and "\<And>x. j_id (f x) = j_id x"
  shows "board_of db' = (board_of db)(jid \<mapsto> j_state (f r))"
  using update_job_row [OF assms(1,3)] assms(2) by (auto simp: board_of_def fun_eq_iff)

lemma movesI:
  "find_job jid db = Some r \<Longrightarrow> ev \<in> evs \<Longrightarrow> transition (j_state r) ev = Inr t \<Longrightarrow>
   b' = (board_of db)(jid \<mapsto> t) \<Longrightarrow> moves evs jid (board_of db) b'"
  by (auto simp: moves_def board_of_def)

lemma apply_event_board:
  assumes "apply_event_in_tx jid ev ac d now db = Inr (j, db')"
  shows "moves {ev} jid (board_of db) (board_of db')"
  using apply_event_result [OF assms] by (auto simp: board_of_def fun_eq_iff intro!: movesI)

lemma moves_mono: "moves evs jid b b' \<Longrightarrow> evs \<subseteq> evs' \<Longrightarrow> moves evs' jid b b'"
  by (auto simp: moves_def)

lemma classify_failure_events: "classify_failure k a m \<in> failure_events k"
  by (cases k) simp_all

lemma record_proof_board:
  assumes "record_proof jid w p q d m now db = Inr (x, db')"
  shows "moves {E_ProofSucceeded} jid (board_of db) (board_of db')"
proof -
  from assms obtain r nxt u db1 db2 where r: "find_job jid db = Some r" and t: "transition (j_state r) E_ProofSucceeded = Inr nxt"
    and up: "update_job jid (\<lambda>x. x\<lparr> j_state := nxt, j_proof := Some p, j_public_inputs := Some q,
        j_leased_by := None, j_lease_expires_at := None \<rparr>) now db = Inr (u, db1)"
    and att: "\<exists>ats. db2 = db1\<lparr> attempts_tbl := ats \<rparr>"
    and db': "db' = insert_transition jid (j_state r) E_ProofSucceeded nxt (Some w) None now db2"
    by (auto simp: record_proof_def Let_def and_then_Inr ok_or_Inr transition_or_ok dest!: update_attempts_ok) blast
  show ?thesis
    using board_update_job [OF up r] att by (intro movesI [OF r _ t]) (auto simp: db')
qed

lemma record_failure_board:
  assumes "record_failure jid w k e retry now db = Inr (x, db')"
  shows "moves (failure_events k) jid (board_of db) (board_of db')"
proof -
  from assms obtain r ev nxt z u db1 db2 where r: "find_job jid db = Some r" and t: "transition (j_state r) ev = Inr nxt"
    and ev: "ev = classify_failure k (unsigned_from 0 (j_attempts r)) (unsigned_from 1 (j_max_attempts r))"
    and up: "update_job jid (\<lambda>x. x\<lparr> j_state := nxt, j_last_error := Some e, j_leased_by := None,
        j_lease_expires_at := None, j_retry_after := z \<rparr>) now db = Inr (u, db1)"
    and att: "\<exists>ats. db2 = db1\<lparr> attempts_tbl := ats \<rparr>"
    and db': "db' = insert_transition jid (j_state r) ev nxt (Some w) (Some e) now db2"
    by (auto simp: record_failure_def Let_def and_then_Inr ok_or_Inr transition_or_ok dest!: update_attempts_ok) blast
  show ?thesis
    using board_update_job [OF up r] att ev classify_failure_events
    by (intro movesI [OF r _ t]) (auto simp: db')
qed

lemma submission_failure_board:
  assumes "record_submission_failure jid w k e retry now db = Inr (x, db')"
  shows "moves (failure_events k) jid (board_of db) (board_of db')"
proof -
  from assms obtain r ev nxt z u db1 where r: "find_job jid db = Some r" and t: "transition (j_state r) ev = Inr nxt"
    and ev: "ev = classify_failure k (unsigned_from 0 (j_submission_attempts r)) (unsigned_from 1 (j_max_attempts r))"
    and up: "update_job jid (\<lambda>x. x\<lparr> j_state := nxt, j_last_error := Some e, j_leased_by := None,
        j_lease_expires_at := None, j_retry_after := z \<rparr>) now db = Inr (u, db1)"
    and db': "db' = insert_transition jid (j_state r) ev nxt (Some w) (Some e) now db1"
    by (auto simp: record_submission_failure_def Let_def and_then_Inr ok_or_Inr transition_or_ok)
  show ?thesis
    using board_update_job [OF up r] ev classify_failure_events
    by (intro movesI [OF r _ t]) (auto simp: db')
qed

lemma lease_next_board:
  assumes "lease_next l w ttl now db = Inr (x, db')" and "distinct (map j_id (jobs_tbl db))"
  shows "board_op (OpLeaseNext l w ttl) (board_of db) (board_of db')"
proof (cases "candidate S_Queued l now db")
  case (Some row)
  from Some have row: "find_job (j_id row) db = Some row" "j_state row = S_Queued" "j_id row \<notin> set l"
    using assms(2) by (auto dest!: candidate_in simp: leasable_def find_job_member)
  from assms(1) Some obtain n u db1 db2 where
    up: "update_job (j_id row) (\<lambda>x. x\<lparr> j_state := S_Leased, j_leased_by := Some w,
        j_lease_expires_at := Some (now + ttl), j_attempts := n, j_retry_after := None \<rparr>) now db = Inr (u, db1)"
    and att: "\<exists>ats. db2 = db1\<lparr> attempts_tbl := ats \<rparr>"
    and db': "db' = insert_transition (j_id row) S_Queued E_Leased S_Leased (Some w) None now db2"
    by (auto simp: lease_next_def Let_def and_then_Inr transition_or_ok dest!: insert_attempt_ok) blast
  have "moves {E_Leased} (j_id row) (board_of db) (board_of db')"
    using board_update_job [OF up row(1)] att row(2)
    by (intro movesI [OF row(1), of E_Leased _ S_Leased]) (auto simp: db')
  with row(3) show ?thesis by auto
qed (use assms(1) in \<open>simp add: lease_next_def\<close>)

lemma lease_next_proved_board:
  assumes "lease_next_proved l w ttl now db = Inr (x, db')" and "distinct (map j_id (jobs_tbl db))"
  shows "board_op (OpLeaseNextProved l w ttl) (board_of db) (board_of db')"
proof (cases "candidate S_Proved l now db")
  case (Some row)
  from Some have row: "find_job (j_id row) db = Some row" "j_state row = S_Proved" "j_id row \<notin> set l"
    using assms(2) by (auto dest!: candidate_in simp: leasable_def find_job_member)
  from assms(1) Some obtain n u db1 where
    up: "update_job (j_id row) (\<lambda>x. x\<lparr> j_state := S_Submitting, j_leased_by := Some w,
        j_lease_expires_at := Some (now + ttl), j_submission_attempts := n, j_retry_after := None \<rparr>) now db = Inr (u, db1)"
    and db': "db' = insert_transition (j_id row) S_Proved E_SubmissionStarted S_Submitting (Some w) None now db1"
    by (auto simp: lease_next_proved_def Let_def and_then_Inr transition_or_ok)
  have "moves {E_SubmissionStarted} (j_id row) (board_of db) (board_of db')"
    using board_update_job [OF up row(1)] row(2) by (intro movesI [OF row(1), of E_SubmissionStarted _ S_Submitting]) (simp_all add: db')
  with row(3) show ?thesis by auto
qed (use assms(1) in \<open>simp add: lease_next_proved_def\<close>)

lemma reap_event_in_flight:
  assumes "transition (j_state r) (reap_event r) = Inr t" and "is_in_flight (j_state r)"
  shows "reap_event r \<in> {E_LeaseExpired, E_RetryScheduled, E_AttemptsExhausted}"
  by (auto simp: reap_event_def Let_def)

lemma reap_one_board:
  assumes "reap_one w now r db = Inr (i, db')" and "find_job (j_id r) db = Some r"
  shows "moves {reap_event r} (j_id r) (board_of db) (board_of db')"
proof -
  from assms(1) obtain nxt d u db1 db2 where t: "transition (j_state r) (reap_event r) = Inr nxt"
    and up: "update_job (j_id r) (\<lambda>x. x\<lparr> j_state := nxt, j_leased_by := None, j_lease_expires_at := None,
        j_last_error := Some d \<rparr>) now db = Inr (u, db1)"
    and att: "\<exists>ats. db2 = db1\<lparr> attempts_tbl := ats \<rparr>"
    and db': "db' = insert_transition (j_id r) (j_state r) (reap_event r) nxt (Some w) (Some d) now db2"
    by (auto simp: reap_one_def Let_def and_then_Inr transition_or_ok dest!: update_attempts_ok) blast
  show ?thesis
    using board_update_job [OF up assms(2)] att by (intro movesI [OF assms(2) _ t]) (auto simp: db')
qed

lemma reap_rows_board:
  "reap_rows w now rs db = Inr (ids, db') \<Longrightarrow> distinct (map j_id rs) \<Longrightarrow>
   (\<And>r. r \<in> set rs \<Longrightarrow> find_job (j_id r) db = Some r) \<Longrightarrow>
   board_of db' jid = board_of db jid \<or>
   (\<exists>r \<in> set rs. j_id r = jid \<and> (\<exists>t. transition (j_state r) (reap_event r) = Inr t \<and> board_of db' jid = Some t))"
proof (induction rs arbitrary: db ids)
  case (Cons r rs)
  then obtain i db1 ids1 where one: "reap_one w now r db = Inr (i, db1)"
    and rest: "reap_rows w now rs db1 = Inr (ids1, db')"
    by (auto simp: and_then_Inr)
  have r: "find_job (j_id r) db = Some r" using Cons.prems(3) by simp
  note moved = reap_one_board [OF one r]
  have "find_job (j_id x) db1 = Some x" if "x \<in> set rs" for x
    using that reap_one_steps [OF one r] Cons.prems(2,3) by (auto simp: image_iff)
  with Cons.IH [OF rest] Cons.prems(2)
  have IH: "board_of db' jid = board_of db1 jid \<or>
    (\<exists>r \<in> set rs. j_id r = jid \<and> (\<exists>t. transition (j_state r) (reap_event r) = Inr t \<and> board_of db' jid = Some t))" by simp
  from moved r obtain t where t: "transition (j_state r) (reap_event r) = Inr t" "board_of db1 = (board_of db)(j_id r \<mapsto> t)"
    by (auto simp: moves_def board_of_def)
  show ?case using IH t by (cases "j_id r = jid") auto
qed simp

lemma reap_board:
  assumes "reap_expired_leases l w now db = Inr (ids, db')" and "distinct (map j_id (jobs_tbl db))"
  shows "reaps l (board_of db) (board_of db')"
  unfolding reaps_def
proof
  fix jid
  let ?rs = "filter (expired l now) (jobs_tbl db)"
  have "board_of db' jid = board_of db jid \<or>
    (\<exists>r \<in> set ?rs. j_id r = jid \<and> (\<exists>t. transition (j_state r) (reap_event r) = Inr t \<and> board_of db' jid = Some t))"
    using assms(1) unfolding reap_expired_leases_def
    by (rule reap_rows_board) (use assms(2) in \<open>auto simp: find_job_member distinct_map_filter\<close>)
  then show "board_of db' jid = board_of db jid \<or> jid \<notin> set l \<and>
      (\<exists>s ev. board_of db jid = Some s \<and> is_in_flight s \<and> ev \<in> {E_LeaseExpired, E_RetryScheduled, E_AttemptsExhausted} \<and>
         (\<exists>t. transition s ev = Inr t \<and> board_of db' jid = Some t))"
  proof
    assume "\<exists>r \<in> set ?rs. j_id r = jid \<and> (\<exists>t. transition (j_state r) (reap_event r) = Inr t \<and> board_of db' jid = Some t)"
    then obtain r t where r: "r \<in> set (jobs_tbl db)" "expired l now r" "j_id r = jid"
      and t: "transition (j_state r) (reap_event r) = Inr t" "board_of db' jid = Some t" by auto
    have "is_in_flight (j_state r)" "jid \<notin> set l"
      using r(2,3) by (auto simp: expired_def holds_lease_state_def)
    moreover have "board_of db jid = Some (j_state r)"
      using find_job_member [OF assms(2) r(1)] r(3) by (simp add: board_of_def)
    ultimately show ?thesis using t reap_event_in_flight [OF t(1)] by blast
  qed simp
qed

lemma enqueue_board:
  assumes "enqueue sha i c v k m now db = Inr (x, db')"
  shows "board_op (OpEnqueue i c v k m) (board_of db) (board_of db')"
proof -
  from assms obtain hash where "db' = db \<or> find_job i db = None \<and>
      db' = db\<lparr> jobs_tbl := jobs_tbl db @ [new_job_row i c hash k v m now] \<rparr>"
    by (auto simp: enqueue_def Let_def res_iff split: if_splits option.splits)
  then show ?thesis
    by (auto simp: board_of_def fun_eq_iff find_job_def find_append_rows new_job_row_def split: option.splits)
qed

lemma renew_board:
  assumes "renew_lease i w ttl now db = Inr (x, db')"
  shows "board_of db' = board_of db"
proof -
  have "board_of db1 = board_of db" if "find_job i db = Some r"
    "update_job i (\<lambda>x. x\<lparr> j_lease_expires_at := t \<rparr>) now db = Inr (r', db1)" for r r' t db1
    using board_update_job [OF that(2,1)] that(1) by (simp add: board_of_def fun_upd_idem fun_eq_iff)
  with assms show ?thesis
    by (auto simp: renew_lease_def and_then_Inr split: option.splits if_splits)
qed

lemma settlements_event_board:
  assumes "update_settlements p f now db = Inr db1" and "apply_event_in_tx i ev a d now db1 = Inr (x, db')"
  shows "moves {ev} i (board_of db) (board_of db')"
  using apply_event_board [OF assms(2)] by (simp only: board_settlements [OF assms(1)])

lemma op_boards:
  "upsert_circuit c db = Inr (y, db') \<Longrightarrow> board_op (OpUpsertCircuit c) (board_of db) (board_of db')"
  "renew_lease i w ttl now db = Inr (b, db') \<Longrightarrow> board_op (OpRenewLease i w ttl) (board_of db) (board_of db')"
  "begin_proving i w now db = Inr (x, db') \<Longrightarrow> board_op (OpBeginProving i w) (board_of db) (board_of db')"
  "record_proof i w p q ms m now db = Inr (x, db') \<Longrightarrow> board_op (OpRecordProof i w p q ms m) (board_of db) (board_of db')"
  "record_failure i w k e r now db = Inr (x, db') \<Longrightarrow> board_op (OpRecordFailure i w k e r) (board_of db) (board_of db')"
  "release_lease i w now db = Inr (x, db') \<Longrightarrow> board_op (OpReleaseLease i w) (board_of db) (board_of db')"
  "record_submission i h n now db = Inr (z, db') \<Longrightarrow> board_op (OpRecordSubmission i h n) (board_of db) (board_of db')"
  "confirm_settlement i w h rc now db = Inr (x, db') \<Longrightarrow> board_op (OpConfirmSettlement i w h rc) (board_of db) (board_of db')"
  "record_reorg i w h now db = Inr (x, db') \<Longrightarrow> board_op (OpRecordReorg i w h) (board_of db) (board_of db')"
  "replace_submission_tx i h h' now db = Inr (z, db') \<Longrightarrow> board_op (OpReplaceTx i h h') (board_of db) (board_of db')"
  "mark_settled_elsewhere i w d now db = Inr (x, db') \<Longrightarrow> board_op (OpSettledElsewhere i w d) (board_of db) (board_of db')"
  "record_submission_failure i w k e r now db = Inr (x, db') \<Longrightarrow> board_op (OpSubmissionFailure i w k e r) (board_of db) (board_of db')"
  "apply_event i ev ac dt now db = Inr (x, db') \<Longrightarrow> board_public (ApplyEvent i ev ac dt) (board_of db) (board_of db')"
proof -
  show "upsert_circuit c db = Inr (y, db') \<Longrightarrow> board_op (OpUpsertCircuit c) (board_of db) (board_of db')"
    by (auto simp: upsert_circuit_def split: if_splits)
  show "release_lease i w now db = Inr (x, db') \<Longrightarrow> board_op (OpReleaseLease i w) (board_of db) (board_of db')"
    by (auto simp: release_lease_def Let_def and_then_Inr dest!: apply_event_board elim!: moves_mono split: if_splits)
  show "record_submission i h n now db = Inr (z, db') \<Longrightarrow> board_op (OpRecordSubmission i h n) (board_of db) (board_of db')"
    by (auto simp: record_submission_def Let_def and_then_Inr split: if_splits)
  show "confirm_settlement i w h rc now db = Inr (x, db') \<Longrightarrow> board_op (OpConfirmSettlement i w h rc) (board_of db) (board_of db')"
    by (auto simp: confirm_settlement_def and_then_Inr intro: settlements_event_board)
  show "record_reorg i w h now db = Inr (x, db') \<Longrightarrow> board_op (OpRecordReorg i w h) (board_of db) (board_of db')"
    by (auto simp: record_reorg_def and_then_Inr intro: settlements_event_board)
  show "replace_submission_tx i h h' now db = Inr (z, db') \<Longrightarrow> board_op (OpReplaceTx i h h') (board_of db) (board_of db')"
    by (auto simp: replace_submission_tx_def and_then_Inr)
qed (simp_all add: renew_board begin_proving_def mark_settled_elsewhere_def apply_event_def apply_event_board
    record_proof_board record_failure_board submission_failure_board)

lemma committed:
  "refusal res = None \<Longrightarrow> \<exists>x db'. res = Inr (x, db') \<and> commit db res = db'" for res :: "store_error + 'a \<times> db"
  by (auto simp: refusal_def commit_def split: sum.splits)

lemma op_board:
  assumes "distinct (map j_id (jobs_tbl db))" and "refused sha db (now, op) = None"
  shows "board_public op (board_of db) (board_of (exec_public sha db (now, op)))"
proof (cases op)
  case (ApplyEvent i e a d)
  with assms(2) show ?thesis by (auto dest!: committed [where db = db] simp: op_boards simp del: board_public.simps)
next
  case (Service o')
  note reap = reap_board [OF _ assms(1)]
  have *: "refused sha db (now, Service o') = None \<Longrightarrow>
      board_public (Service o') (board_of db) (board_of (exec_public sha db (now, Service o')))"
    by (cases o'; simp only: refused.simps exec_public.simps exec_op.simps board_public.simps;
        drule committed [where db = db]; elim exE conjE)
      (simp_all only: op_boards enqueue_board lease_next_board [OF _ assms(1)] lease_next_proved_board [OF _ assms(1)]
        board_op.simps(4) reap)
  show ?thesis using assms(2) unfolding Service by (rule *)
qed

lemma uncommitted: "refusal res = Some e \<Longrightarrow> commit db res = db"
  by (auto simp: refusal_def commit_def split: sum.splits)

lemma refused_unchanged: "refused sha db nop = Some e \<Longrightarrow> exec_public sha db nop = db"
  by (induction sha db nop rule: refused.induct) (simp_all add: uncommitted)

lemma store_ok_log: "store_ok db \<Longrightarrow> log_ok db"
  by (auto simp: store_ok_def log_ok_def row_ok_def)

text \<open>
  Claim C13. The store implements the job state machine, operation by operation. On any tables whose log is
  the history (which every public operation keeps), an operation that is refused changes nothing at all, and
  one that is not does to the states of the jobs exactly what its name says: an event reported for a job
  moves that job, and no other, by a legal transition on that event; leasing moves one queued (or proved) job
  nobody has locked, or none; the reaper moves only jobs in flight that nobody has locked, by the events of
  an expiry; a submission adds one queued job or none; all others leave every job where it is.
\<close>
theorem store_refines_state_machine:
  assumes "log_ok db"
  shows "log_ok (exec_public sha db (now, op)) \<and>
    (case refused sha db (now, op) of
       Some e \<Rightarrow> exec_public sha db (now, op) = db
     | None \<Rightarrow> board_public op (board_of db) (board_of (exec_public sha db (now, op))))"
proof -
  have ids: "distinct (map j_id (jobs_tbl db))" using assms by (simp add: log_ok_def)
  show ?thesis
  proof (cases "refused sha db (now, op)")
    case None
    with exec_public_log_ok [OF assms] op_board [OF ids] show ?thesis by (simp del: refused.simps)
  next
    case (Some e)
    with assms refused_unchanged [OF Some] show ?thesis by (simp del: refused.simps)
  qed
qed

theorem store_refines_state_machine_witness:
  "moves {E_ProvingStarted} 7 (board_of leased_db) (board_of (exec_public sample_hash leased_db (3, Service (OpBeginProving 7 ''w'')))) \<and>
   board_of leased_db 7 = Some S_Leased \<and>
   exec_public sample_hash leased_db (3, Service (OpRecordProof 7 ''w'' ''p'' ''q'' 1 None)) = leased_db"
proof -
  have ok: "log_ok leased_db" by (rule store_ok_log [OF sample_ok(2)])
  have 1: "refused sample_hash leased_db (3, Service (OpBeginProving 7 ''w'')) = None"
    and 2: "refused sample_hash leased_db (3, Service (OpRecordProof 7 ''w'' ''p'' ''q'' 1 None)) \<noteq> None"
    and 3: "board_of leased_db 7 = Some S_Leased" by code_simp+
  from store_refines_state_machine [OF ok, of sample_hash 3 "Service (OpBeginProving 7 ''w'')"] 1
    store_refines_state_machine [OF ok, of sample_hash 3 "Service (OpRecordProof 7 ''w'' ''p'' ''q'' 1 None)"] 2 3
  show ?thesis by (auto simp del: refused.simps exec_public.simps)
qed

section \<open>The services change the tables by steps of the store\<close>

definition refines :: "db \<Rightarrow> db \<Rightarrow> bool" where
  "refines db db' \<longleftrightarrow> (store_ok db \<longrightarrow> store_ok db' \<and> db_steps db db')"

lemma refines_refl [simp]: "refines db db"
  by (simp add: refines_def)

lemma refines_trans: "refines a b \<Longrightarrow> refines b c \<Longrightarrow> refines a c"
  by (auto simp: refines_def)

lemma refines_steps: "db_steps db db' \<Longrightarrow> refines db db'"
  by (simp add: refines_def db_steps_ok)

lemma refines_when_ok: "(store_ok db \<Longrightarrow> db_steps db db') \<Longrightarrow> refines db db'"
  by (auto simp: refines_def db_steps_ok)

lemma store_call_refines:
  assumes "store_call up db res = (x, db')" and "\<And>y db'. store_ok db \<Longrightarrow> res = Inr (y, db') \<Longrightarrow> db_steps db db'"
  shows "refines db db'"
  using store_call_cases [OF assms(1)] assms(2) by (auto intro: refines_when_ok)

lemmas steps_of =
  upsert_circuit_steps enqueue_steps renew_lease_steps begin_proving_steps record_proof_steps
  record_failure_steps release_lease_steps record_submission_steps confirm_settlement_steps
  record_reorg_steps replace_submission_tx_steps mark_settled_elsewhere_steps record_submission_failure_steps

text \<open>What other processes do in between is taken to be steps of the store too.\<close>

definition well_behaved :: "(db \<Rightarrow> db) \<Rightarrow> bool" where
  "well_behaved f \<longleftrightarrow> (\<forall>db. refines db (f db))"

subsection \<open>Workers\<close>

lemma on_store_refines:
  "on_store up f s = (x, s') \<Longrightarrow> (\<And>y db'. store_ok (ws_db s) \<Longrightarrow> f (ws_db s) = Inr (y, db') \<Longrightarrow> db_steps (ws_db s) db') \<Longrightarrow>
   refines (ws_db s) (ws_db s')"
  by (auto dest!: on_store_cases intro: refines_when_ok)

lemma record_result_refines:
  "record_result w ob j result s = (out, s') \<Longrightarrow> refines (ws_db s) (ws_db s')"
  by (auto simp: record_result_def Let_def split: sum.splits prod.splits option.splits
      dest!: on_store_cases intro!: refines_steps dest: steps_of)

lemma attempt_begun_refines:
  assumes "attempt_begun w ob j s = Some s1" and "well_behaved (ao_others ob)"
  shows "refines (ws_db s) (ws_db s1)"
proof -
  let ?cfg = "w_config w"
  obtain x s2 where b: "on_store (o_up (ao_begin ob))
      (begin_proving (j_id j) (wc_worker_id ?cfg) (o_now (ao_begin ob))) s = (x, s2)" by fastforce
  then have "refines (ws_db s) (ws_db s2)"
    by (auto dest!: on_store_cases dest: steps_of intro!: refines_steps)
  moreover have "ws_db s1 = ao_others ob (ws_db s2)"
    using assms(1) b by (auto simp: attempt_begun_def Let_def split: option.splits)
  ultimately show ?thesis using assms(2) by (auto simp: well_behaved_def intro: refines_trans)
qed

lemma finish_attempt_refines:
  "finish_attempt w ob j s = (out, s') \<Longrightarrow> refines (ws_db s) (ws_db s')"
  by (auto simp: finish_attempt_def Let_def split: proving_end.splits prod.splits
      dest!: record_result_refines)
    (auto simp: on_store_def split: prod.splits dest!: store_call_cases dest: steps_of intro!: refines_steps)

lemma attempt_refines:
  assumes "attempt w ob j s = (out, s')" and "well_behaved (ao_others ob)"
  shows "refines (ws_db s) (ws_db s')"
  using assms
  by (auto simp: attempt_def split: option.splits prod.splits
      dest!: finish_attempt_refines attempt_begun_refines [OF _ assms(2)] intro: refines_trans)

lemma release_after_lease:
  "refines (ws_db s) (ws_db (snd (on_store up (release_lease jid holder now) s)))"
  by (auto simp: on_store_def split: prod.splits dest!: store_call_cases dest: steps_of intro!: refines_steps)

lemma worker_turn_refines:
  assumes "worker_turn_of w ob s = (t, s')" and "well_behaved (ao_others (to_attempt ob))"
  shows "refines (ws_db s) (ws_db s')"
proof -
  have lease: "on_store up (lease_next locked holder ttl now) s = (x, s1) \<Longrightarrow> refines (ws_db s) (ws_db s1)"
    for up locked holder ttl now x s1
    by (erule on_store_refines) (blast intro: lease_next_steps store_ok_ids)
  show ?thesis
    using assms(1)
    by (auto simp: worker_turn_of_def Let_def split: if_splits prod.splits option.splits
        dest!: lease attempt_refines [OF _ assms(2)] intro: refines_trans refines_trans [OF _ release_after_lease])
qed

lemma run_worker_refines:
  "run_worker w obs s = (outs, s') \<Longrightarrow> list_all (\<lambda>ob. well_behaved (ao_others (to_attempt ob))) obs \<Longrightarrow>
   refines (ws_db s) (ws_db s')"
proof (induction obs arbitrary: s outs)
  case (Cons ob obs)
  obtain t s1 where t: "worker_turn_of w ob s = (t, s1)" by fastforce
  have "refines (ws_db s) (ws_db s1)" using worker_turn_refines [OF t] Cons.prems(2) by simp
  moreover have "refines (ws_db s1) (ws_db s')"
    using Cons t by (auto split: worker_turn.splits prod.splits)
  ultimately show ?case by (rule refines_trans)
qed simp

lemma worker_ticks_refine:
  "refines (ws_db s) (ws_db (snd (worker_heartbeat_tick w ob jid s)))"
  "refines (ws_db s) (ws_db (worker_reap_tick w ob locked s))"
  "ws_db (sample_tick ob s) = ws_db s"
proof -
  show "refines (ws_db s) (ws_db (snd (worker_heartbeat_tick w ob jid s)))"
    by (auto simp: worker_heartbeat_tick_def Let_def split: prod.splits option.splits bool.splits
        dest!: on_store_cases dest: steps_of intro!: refines_steps)
  have "on_store up (reap_expired_leases locked holder now) s = (x, s1) \<Longrightarrow> refines (ws_db s) (ws_db s1)"
    for up holder now x s1
    by (erule on_store_refines) (blast intro: conjunct1 [OF reap_expired_leases_steps] store_ok_ids)
  then show "refines (ws_db s) (ws_db (worker_reap_tick w ob locked s))"
    by (auto simp: worker_reap_tick_def split: prod.splits option.splits)
  show "ws_db (sample_tick ob s) = ws_db s" by (simp add: sample_tick_def Let_def)
qed

subsection \<open>Relayers\<close>

lemma outcome_refines:
  "mark_settled_outcome cfg ob jid db = (out, db') \<Longrightarrow> refines db db'"
  "record_failure_outcome cfg ob jid f db = (out, db') \<Longrightarrow> refines db db'"
  "record_chain_failure cfg ob jid f db = (out, db') \<Longrightarrow> refines db db'"
  "explain_revert cfg ob nu jid db = (out, db') \<Longrightarrow> refines db db'"
proof -
  show mark: "mark_settled_outcome cfg ob jid db = (out, db') \<Longrightarrow> refines db db'" for out db'
    by (auto simp: mark_settled_outcome_def split: prod.splits option.splits dest!: store_call_cases
        dest: steps_of intro!: refines_steps)
  show failed: "record_failure_outcome cfg ob jid f db = (out, db') \<Longrightarrow> refines db db'" for f out db'
  proof -
    fix f out db'
    assume f: "record_failure_outcome cfg ob jid f db = (out, db')"
    show "refines db db'"
    proof (cases "failure_kind_of f")
      case None
      with f mark show ?thesis by (simp add: record_failure_outcome_def)
    next
      case (Some k)
      with f show ?thesis
        by (auto simp: record_failure_outcome_def Let_def split: prod.splits option.splits
            dest!: store_call_cases dest: steps_of intro!: refines_steps)
    qed
  qed
  show "record_chain_failure cfg ob jid f db = (out, db') \<Longrightarrow> refines db db'"
    by (auto simp: record_chain_failure_def split: if_splits dest: mark failed)
  show "explain_revert cfg ob nu jid db = (out, db') \<Longrightarrow> refines db db'"
    by (auto simp: explain_revert_def split: sum.splits bool.splits dest: mark failed)
qed

lemma confirm_refines: "confirm cfg ob head block jid tx m db = (c, db') \<Longrightarrow> refines db db'"
  by (auto simp: confirm_def Let_def split: sum.splits if_splits bool.splits prod.splits option.splits
      dest!: store_call_cases dest: steps_of intro!: refines_steps)

lemma replacement_refines: "refines db (record_replacement ob jid tx tx' db)"
  by (cases "store_call (o_up ob) db (replace_submission_tx jid tx tx' (o_now ob) db)")
    (auto simp: record_replacement_def dest!: store_call_cases dest: steps_of intro!: refines_steps)

lemma replace_stuck_refines:
  "replace_stuck cfg ob jid pending current st ns db = (st', ns', db') \<Longrightarrow> refines db db'"
  by (auto simp: replace_stuck_def replacement_refines split: if_splits prod.splits sum.splits bump_result.splits)

lemma track_step_refines:
  assumes "track_step cfg jid n ob st ns db = (res, st', ns', db')"
  shows "refines db db'"
proof -
  have orphan: "confirm cfg ob head block jid tx m db = (C_Orphaned, db1) \<Longrightarrow>
      record_failure_outcome cfg ob jid f db1 = (out, db2) \<Longrightarrow> refines db db2" for head block tx m db1 f out db2
    using confirm_refines outcome_refines(2) refines_trans by metis
  show ?thesis
    using assms unfolding track_step_def
    by (auto split: sum.splits option.splits if_splits prod.splits confirmation.splits
        dest: outcome_refines(4) confirm_refines replace_stuck_refines orphan)
qed

lemma track_refines:
  "track cfg jid n obs st ns db = (res, st', ns', db') \<Longrightarrow> list_all (\<lambda>ob. well_behaved (ob_others ob)) obs \<Longrightarrow>
   refines db db'"
proof (induction obs arbitrary: st ns db)
  case (Cons ob obs)
  obtain o1 st1 ns1 db1 where t: "track_step cfg jid n ob st ns (ob_others ob db) = (o1, st1, ns1, db1)"
    by (metis prod_cases4)
  have "refines db (ob_others ob db)" using Cons.prems(2) by (simp add: well_behaved_def)
  then have "refines db db1" using track_step_refines [OF t] by (rule refines_trans)
  moreover have "refines db1 db'"
    using Cons t by (cases o1) auto
  ultimately show ?case by (rule refines_trans)
qed simp

lemma finish_refines: "finish r ns = (nx, ns', db') \<Longrightarrow> refines db (snd r) \<Longrightarrow> refines db db'"
  by (auto simp: finish_def)

lemma settle_fresh_refines:
  assumes "settle_fresh cfg h ob j p pis n ns db = (nx, ns', db')"
  shows "refines db db'"
proof -
  have out: "refines db (snd (mark_settled_outcome cfg ob jid db))"
      "refines db (snd (record_failure_outcome cfg ob jid f db))"
      "refines db (snd (record_chain_failure cfg ob jid f db))" for jid f
    using outcome_refines(1-3) by (metis prod.collapse)+
  have sub: "refines db (snd (store_call up db (record_submission jid tx nf now db)))" for up jid tx nf now
    by (cases "store_call up db (record_submission jid tx nf now db)")
      (auto dest!: store_call_cases dest: steps_of intro!: refines_steps)
  show ?thesis
    using assms unfolding settle_fresh_def Let_def
    by (auto split: sum.splits bool.splits prod.splits intro: finish_refines out sub)
qed

lemma settle_refines:
  assumes "settle cfg h ob j ns db = (nx, ns', db')"
  shows "refines db db'"
proof -
  have out: "refines db (snd (record_failure_outcome cfg ob jid f db))" for jid f
    using outcome_refines(2) by (metis prod.collapse)
  show ?thesis
    using assms unfolding settle_def Let_def
    by (auto split: option.splits if_splits intro: finish_refines [OF _ out] settle_fresh_refines)
qed

lemma relayer_release_refines: "refines db (snd (store_call up db (release_lease jid who now db)))"
  by (cases "store_call up db (release_lease jid who now db)")
    (auto dest!: store_call_cases dest: steps_of intro!: refines_steps)

lemma end_attempt_refines: "refines db (snd (end_attempt cfg ob jid how db))"
  by (auto simp: end_attempt_def relayer_release_refines split: attempt_end.splits option.splits)

lemma run_turn_refines: "refines db (snd (run_turn cfg ob locked before after db))"
proof -
  have lease: "store_call up db (lease_next_proved locked who ttl now db) = (x, db1) \<Longrightarrow> refines db db1"
    for up who ttl now x db1
    by (erule store_call_refines) (blast intro: lease_next_proved_steps store_ok_ids)
  show ?thesis
    by (auto simp: run_turn_def split: prod.splits option.splits dest!: lease
        intro: refines_trans [OF _ relayer_release_refines])
qed

lemma relayer_ticks_refine:
  "refines db (snd (heartbeat_tick holder ttl ob jid db))"
  "refines db (reap_tick reaper ob locked db)"
  "refines db (reorg_watch_tick cfg ob used db)"
proof -
  show "refines db (snd (heartbeat_tick holder ttl ob jid db))"
    by (auto simp: heartbeat_tick_def split: prod.splits option.splits bool.splits
        dest!: store_call_cases dest: steps_of intro!: refines_steps)
  show "refines db (reap_tick reaper ob locked db)"
    unfolding reap_tick_def
    by (rule store_call_refines [OF prod.collapse [symmetric]])
      (blast intro: conjunct1 [OF reap_expired_leases_steps] store_ok_ids)
  have reorg: "refines db (snd (store_call up db (record_reorg jid who tx now db)))" for up jid who tx now db
    by (cases "store_call up db (record_reorg jid who tx now db)")
      (auto dest!: store_call_cases dest: steps_of intro!: refines_steps)
  have "refines db (reorg_pass who ob used ws db)" for who ws db
  proof (induction ws arbitrary: db)
    case (Cons x ws)
    obtain jid tx nf where x: "x = (jid, tx, nf)" by (cases x)
    show ?case
      using Cons [of db] refines_trans [OF reorg Cons]
      by (auto simp: x split: option.splits sum.splits bool.splits)
  qed simp
  then show "refines db (reorg_watch_tick cfg ob used db)" by (simp add: reorg_watch_tick_def)
qed

subsection \<open>The API\<close>

lemma submit_refines:
  assumes "submit validator sha st ob body db = (res, db')"
    and "well_behaved (co_others (so_depth ob))" and "well_behaved (co_others (so_circuit ob))"
    and "well_behaved (co_others (so_enqueue ob))"
  shows "refines db db'"
proof -
  obtain db1 db2 db3 where s: "seen ob db = (db1, db2, db3)" by (metis prod_cases3)
  have "refines db db1" "refines db1 db2" "refines db2 db3"
    using s assms(2-4) by (auto simp: seen_def Let_def well_behaved_def)
  then have r: "refines db db1" "refines db db2" "refines db db3" by (blast intro: refines_trans)+
  from submit_cases [OF assms(1) s] r show ?thesis
    by (auto dest!: enqueue_steps intro: refines_trans [OF _ refines_steps])
qed

subsection \<open>All of them\<close>

text \<open>
  A request, a worker's run, the settling of a job and the tracking of its transaction, one
  after the other and each with other processes' steps in between wherever it waits, together only take
  steps of the store: every invariant of the store holds afterwards, every job there was before is still
  there with the same work, all jobs together moved by the state machine, and none that had failed or
  been rejected is revived.
\<close>
theorem services_refine_the_store:
  assumes "store_ok db"
    and "well_behaved (co_others (so_depth sob))" and "well_behaved (co_others (so_circuit sob))"
    and "well_behaved (co_others (so_enqueue sob))"
    and "list_all (\<lambda>ob. well_behaved (ao_others (to_attempt ob))) wobs"
    and "list_all (\<lambda>ob. well_behaved (ob_others ob)) tobs"
    and "db1 = snd (submit validator sha st sob body db)"
    and "db2 = ws_db (snd (run_worker w wobs \<lparr> ws_db = db1, ws_mirror = mirror, ws_metrics = m \<rparr>))"
    and "db3 = snd (snd (settle cfg keccak ob j ns db2))"
    and "db4 = snd (snd (snd (track cfg jid n tobs tk ns' db3)))"
  shows "store_ok db4 \<and> board_step\<^sup>*\<^sup>* (board_of db) (board_of db4) \<and> work_kept db db4 \<and>
    (\<forall>jid s. board_of db jid = Some s \<and> is_terminal s \<longrightarrow> board_of db4 jid = Some s)"
proof -
  obtain res d1 where 1: "submit validator sha st sob body db = (res, d1)" by fastforce
  obtain outs s where 2: "run_worker w wobs \<lparr> ws_db = db1, ws_mirror = mirror, ws_metrics = m \<rparr> = (outs, s)" by fastforce
  obtain nx ns1 d3 where 3: "settle cfg keccak ob j ns db2 = (nx, ns1, d3)" by (metis prod_cases3)
  obtain o4 tk4 ns4 d4 where 4: "track cfg jid n tobs tk ns' db3 = (o4, tk4, ns4, d4)" by (metis prod_cases4)
  have "refines db db1" using submit_refines [OF 1 assms(2-4)] 1 assms(7) by simp
  moreover have "refines db1 db2" using run_worker_refines [OF 2 assms(5)] 2 assms(8) by simp
  moreover have "refines db2 db3" using settle_refines [OF 3] 3 assms(9) by simp
  moreover have "refines db3 db4" using track_refines [OF 4 assms(6)] 4 assms(10) by simp
  ultimately have "refines db db4" by (blast intro: refines_trans)
  then show ?thesis
    using assms(1) db_steps_refine db_steps_work_kept finished_stays by (simp add: refines_def) blast
qed

text \<open>One turn of a worker in which the job is leased, the lease is lost, and another worker takes it.\<close>

definition stalled_turn :: "(string \<Rightarrow> string option) turn_obs" where
  "stalled_turn =
     \<lparr> to_now = 2, to_up = True, to_locked = [], to_shutdown_before = False, to_shutdown_after = False,
       to_release = ao_end stalled_obs, to_attempt = stalled_obs \<rparr>"

lemma stalled_well_behaved: "well_behaved (ao_others (to_attempt stalled_turn))"
proof -
  have "refines db (run_store sample_hash db ops)" for db ops
    by (rule refines_when_ok) (rule run_steps)
  then show ?thesis by (simp add: well_behaved_def stalled_turn_def stalled_obs_def)
qed

lemma well_behaved_id: "well_behaved id"
  by (simp add: well_behaved_def)

theorem services_refine_the_store_witness:
  "store_ok (snd (snd (snd (track sample_config 7 sample_nullifier [sample_poll] sample_state new_nonce_state
     (snd (snd (settle sample_config id sample_settle sample_job new_nonce_state
       (ws_db (snd (run_worker stalled_worker [stalled_turn]
         \<lparr> ws_db = snd (submit (\<lambda>_ _. Inr []) sample_hash (api_sample 2) (quiet_submission 9 1) sample_request queued_db),
           ws_mirror = Map.empty, ws_metrics = new_metrics ''w'' \<rparr>)))))))))) "
  by (rule services_refine_the_store [OF sample_ok(1) _ _ _ _ _ refl refl refl refl, THEN conjunct1])
    (simp_all add: quiet_submission_def quiet_call_def sample_poll_def stalled_well_behaved well_behaved_id
      well_behaved_id [unfolded id_def])

end
