(* ===== verification/Chain_Client.thy ===== *)
theory Chain_Client
  imports Relayer_Properties
begin

text \<open>
  The client of one chain, \<open>struct Chain\<close> of \<open>crates/dray-relayer/src/chain.rs\<close>: connecting, the
  transaction a settlement is sent as, and the calls to the node and the contract. The node is an
  argument of each call; the parser of private keys and the ABI encoding of \<open>settle\<close> are parameters.
  What the client makes of receipts, fees and blocks is in \<open>Chain\<close>.
\<close>

section \<open>Connecting\<close>

type_synonym address = bytes

record chain =
  ch_settlement :: address
  ch_address :: address
  ch_chain_id :: u64

text \<open>\<open>trim_start_matches("0x")\<close>: every leading occurrence goes.\<close>

fun strip_0x :: "string \<Rightarrow> string" where
  "strip_0x (a # b # s) = (if a = CHR ''0'' \<and> b = CHR ''x'' then strip_0x s else a # b # s)"
| "strip_0x s = s"

definition connect ::
  "(string \<Rightarrow> string + address) \<Rightarrow> string + unit \<Rightarrow> string + u64 \<Rightarrow> string \<Rightarrow> string \<Rightarrow> address \<Rightarrow>
   chain_error + chain" where
  "connect parse_key dialled chain_id rpc_url private_key settlement =
     and_then (map_err ChainKey (parse_key (strip_0x (trim private_key)))) (\<lambda>address.
     and_then (map_err (\<lambda>e. ChainRpc (''connecting to '' @ rpc_url @ '': '' @ e)) dialled) (\<lambda>_.
     and_then (map_err ChainRpc chain_id) (\<lambda>cid.
     Inr \<lparr> ch_settlement = settlement, ch_address = address, ch_chain_id = cid \<rparr>)))"

section \<open>Calls\<close>

definition chain_block_number :: "string + u64 \<Rightarrow> chain_error + u64" where
  "chain_block_number answer = map_err ChainRpc answer"

definition pending_nonce :: "chain \<Rightarrow> (address \<Rightarrow> string + u64) \<Rightarrow> chain_error + u64" where
  "pending_nonce ch pending_count = map_err ChainRpc (pending_count (ch_address ch))"

definition nullifier_used :: "chain \<Rightarrow> (address \<Rightarrow> b256 \<Rightarrow> string + bool) \<Rightarrow> b256 \<Rightarrow> chain_error + bool" where
  "nullifier_used ch contract nullifier = map_err ChainRpc (contract (ch_settlement ch) nullifier)"

definition is_authorised :: "chain \<Rightarrow> (address \<Rightarrow> address \<Rightarrow> string + bool) \<Rightarrow> chain_error + bool" where
  "is_authorised ch contract = map_err ChainRpc (contract (ch_settlement ch) (ch_address ch))"

definition balance :: "chain \<Rightarrow> (address \<Rightarrow> string + 256 word) \<Rightarrow> chain_error + 256 word" where
  "balance ch get_balance = map_err ChainRpc (get_balance (ch_address ch))"

section \<open>The settlement transaction\<close>

record transaction_request =
  tr_to :: address
  tr_from :: address
  tr_input :: bytes
  tr_nonce :: "u64 option"
  tr_chain_id :: "u64 option"
  tr_gas_limit :: "u64 option"
  tr_max_fee :: "u128 option"
  tr_max_priority_fee :: "u128 option"

type_synonym abi = "b256 \<Rightarrow> bytes \<Rightarrow> b256 list \<Rightarrow> bytes"

definition settle_request :: "abi \<Rightarrow> chain \<Rightarrow> b256 \<Rightarrow> bytes \<Rightarrow> b256 list \<Rightarrow> transaction_request" where
  "settle_request abi_encode ch circuit pf pis =
     \<lparr> tr_to = ch_settlement ch, tr_from = ch_address ch, tr_input = abi_encode circuit pf pis,
       tr_nonce = None, tr_chain_id = None, tr_gas_limit = None, tr_max_fee = None,
       tr_max_priority_fee = None \<rparr>"

definition estimate_settle_gas ::
  "abi \<Rightarrow> chain \<Rightarrow> (transaction_request \<Rightarrow> string + u64) \<Rightarrow> b256 \<Rightarrow> bytes \<Rightarrow> b256 list \<Rightarrow> chain_error + u64" where
  "estimate_settle_gas abi_encode ch estimate circuit pf pis =
     map_err ChainRpc (estimate (settle_request abi_encode ch circuit pf pis))"

definition submit_settlement ::
  "abi \<Rightarrow> chain \<Rightarrow> (transaction_request \<Rightarrow> string + b256) \<Rightarrow>
   b256 \<Rightarrow> bytes \<Rightarrow> b256 list \<Rightarrow> u64 \<Rightarrow> fees \<Rightarrow> u64 \<Rightarrow> chain_error + b256" where
  "submit_settlement abi_encode ch send circuit pf pis nonce f limit =
     (let request = (settle_request abi_encode ch circuit pf pis)
        \<lparr> tr_nonce := Some nonce, tr_chain_id := Some (ch_chain_id ch), tr_gas_limit := Some limit,
          tr_max_fee := Some (max_fee_per_gas f), tr_max_priority_fee := Some (max_priority_fee_per_gas f) \<rparr>
      in map_err ChainRpc (send request))"

text \<open>The relayer's \<open>submit\<close> of a call it can replace, over a node that takes transactions.\<close>

definition node_submit ::
  "abi \<Rightarrow> chain \<Rightarrow> (transaction_request \<Rightarrow> string + b256) \<Rightarrow> replaceable \<Rightarrow> u64 \<Rightarrow> fees \<Rightarrow> chain_error + b256" where
  "node_submit abi_encode ch send c nonce f =
     submit_settlement abi_encode ch send (rp_circuit c) (rp_proof c) (rp_public_inputs c) nonce f (rp_gas_limit c)"

section \<open>What reaches the chain\<close>

text \<open>
  The one transaction a settlement is about: to the settlement contract, from the relayer's account, on
  the chain the node said it is, with the call's data and gas limit and a price within the caps.
\<close>

definition settles :: "abi \<Rightarrow> chain \<Rightarrow> gas_policy \<Rightarrow> replaceable \<Rightarrow> transaction_request \<Rightarrow> bool" where
  "settles abi_encode ch p call tx \<longleftrightarrow>
     tr_to tx = ch_settlement ch \<and> tr_from tx = ch_address ch \<and>
     tr_input tx = abi_encode (rp_circuit call) (rp_proof call) (rp_public_inputs call) \<and>
     tr_chain_id tx = Some (ch_chain_id ch) \<and> tr_gas_limit tx = Some (rp_gas_limit call) \<and> tr_nonce tx \<noteq> None \<and>
     (case (tr_max_fee tx, tr_max_priority_fee tx) of
        (Some m, Some t) \<Rightarrow> within_caps p \<lparr> max_fee_per_gas = m, max_priority_fee_per_gas = t \<rparr>
      | _ \<Rightarrow> False)"

definition strict_send ::
  "abi \<Rightarrow> chain \<Rightarrow> gas_policy \<Rightarrow> replaceable \<Rightarrow> (transaction_request \<Rightarrow> string + b256) \<Rightarrow>
   transaction_request \<Rightarrow> string + b256" where
  "strict_send abi_encode ch p call send tx = (if settles abi_encode ch p call tx then send tx else Inl ''refused'')"

lemma strict_send_allows:
  assumes "same_call c call" and "within_caps p f"
  shows "node_submit abi_encode ch (strict_send abi_encode ch p call send) c n f = node_submit abi_encode ch send c n f"
proof -
  have "rp_circuit c = rp_circuit call" "rp_proof c = rp_proof call" "rp_public_inputs c = rp_public_inputs call"
      "rp_gas_limit c = rp_gas_limit call"
    using assms(1) by (auto simp: same_call_def intro: replaceable.equality dest: arg_cong [of _ _ rp_circuit]
        arg_cong [of _ _ rp_proof] arg_cong [of _ _ rp_public_inputs] arg_cong [of _ _ rp_gas_limit])
  then show ?thesis
    using assms(2) by (simp add: node_submit_def submit_settlement_def settle_request_def strict_send_def settles_def
        within_caps_def)
qed

lemma strict_node_strict_send:
  "strict_node p call (node_submit abi_encode ch (strict_send abi_encode ch p call send))
     = strict_node p call (node_submit abi_encode ch send)"
  by (intro ext) (simp add: strict_node_def strict_send_allows)

text \<open>Observations whose transactions go to a node.\<close>

definition poll_on :: "abi \<Rightarrow> chain \<Rightarrow> track_obs \<times> (transaction_request \<Rightarrow> string + b256) \<Rightarrow> track_obs" where
  "poll_on abi_encode ch = (\<lambda>(ob, send). ob\<lparr> ob_submit := node_submit abi_encode ch send \<rparr>)"

definition settle_on :: "abi \<Rightarrow> chain \<Rightarrow> (transaction_request \<Rightarrow> string + b256) \<Rightarrow> settle_obs \<Rightarrow> settle_obs" where
  "settle_on abi_encode ch send so = so\<lparr> so_submit := node_submit abi_encode ch send \<rparr>"

lemma settle_on_sel [simp]:
  "so_estimate (settle_on abi_encode ch send so) = so_estimate so"
  "so_nullifier (settle_on abi_encode ch send so) = so_nullifier so"
  by (simp_all add: settle_on_def)

lemma settle_on_strict:
  "strict_settle p call (settle_on abi_encode ch (strict_send abi_encode ch p call send) so)
     = strict_settle p call (settle_on abi_encode ch send so)"
  by (simp add: strict_settle_def settle_on_def strict_node_strict_send)

lemma polls_on_strict:
  "map (strict_poll p call) (map (poll_on abi_encode ch) (map (apsnd (strict_send abi_encode ch p call)) obs))
     = map (strict_poll p call) (map (poll_on abi_encode ch) obs)"
  by (auto simp: strict_poll_def poll_on_def strict_node_strict_send split: prod.splits)

text \<open>
  Claim C30. Everything a settlement puts on the chain is the one transaction it is about: to the
  settlement contract, from the relayer's account, for the chain it connected to, with the call's data
  and gas limit, a nonce of its own and a price within both caps, and only after the node said the
  nullifier is unused. A node that refuses every other transaction, at the first broadcast and at every
  poll of the tracker, changes nothing, through any number of bumps and resubmissions.
\<close>
theorem only_settlements_reach_the_chain:
  assumes "so_estimate so = Inr est"
    and "settle_fresh cfg kec (settle_on abi_encode ch send so) j pf ps n ns db = (Tracking st n', ns1, db1)"
    and "call = settlement_call kec j pf ps est"
  shows "settle_fresh cfg kec (settle_on abi_encode ch (strict_send abi_encode ch (rl_gas cfg) call send) so) j pf ps n ns db
      = (Tracking st n', ns1, db1) \<and>
    track cfg jid n (map (poll_on abi_encode ch) (map (apsnd (strict_send abi_encode ch (rl_gas cfg) call)) obs)) st ns2 db2
      = track cfg jid n (map (poll_on abi_encode ch) obs) st ns2 db2 \<and>
    so_nullifier so n = Inr False"
proof (intro conjI)
  have est: "so_estimate (settle_on abi_encode ch s so) = Inr est" for s using assms(1) by simp
  show "settle_fresh cfg kec (settle_on abi_encode ch (strict_send abi_encode ch (rl_gas cfg) call send) so) j pf ps n ns db
      = (Tracking st n', ns1, db1)"
    using settle_fresh_strict [OF est, of cfg kec j pf ps] assms(2) unfolding assms(3)
    by (metis settle_on_strict)
  have "sends_only (rl_gas cfg) call st" "so_nullifier so n = Inr False"
    using settle_fresh_tracking [OF assms(2)] assms(1,3) by auto
  then show "so_nullifier so n = Inr False"
      and "track cfg jid n (map (poll_on abi_encode ch) (map (apsnd (strict_send abi_encode ch (rl_gas cfg) call)) obs)) st ns2 db2
      = track cfg jid n (map (poll_on abi_encode ch) obs) st ns2 db2"
    using track_strict [of cfg call st] by (simp, metis polls_on_strict)
qed

definition sample_chain :: chain where
  "sample_chain = \<lparr> ch_settlement = ''s'', ch_address = ''a'', ch_chain_id = 31337 \<rparr>"

theorem only_settlements_reach_the_chain_witness:
  "\<exists>st call. track sample_config 7 sample_nullifier
      (map (poll_on (\<lambda>a b c. a @ b @ concat c) sample_chain)
        (map (apsnd (strict_send (\<lambda>a b c. a @ b @ concat c) sample_chain (rl_gas sample_config) call))
          [(sample_poll, \<lambda>_. Inr sample_tx)])) st new_nonce_state submitting_db
    = track sample_config 7 sample_nullifier
      (map (poll_on (\<lambda>a b c. a @ b @ concat c) sample_chain) [(sample_poll, \<lambda>_. Inr sample_tx)])
        st new_nonce_state submitting_db \<and> tk_call st \<noteq> None"
proof -
  let ?so = "settle_on (\<lambda>a b c. a @ b @ concat c) sample_chain (\<lambda>_. Inr sample_tx) sample_settle"
  have "\<exists>st ns1 db1. settle_fresh sample_config (\<lambda>b. b) ?so sample_job ''p'' [sample_nullifier] sample_nullifier
      new_nonce_state submitting_db = (Tracking st sample_nullifier, ns1, db1)"
    by (simp add: settle_fresh_def settle_on_def node_submit_def submit_settlement_def sample_settle_def broadcast_def
        new_nonce_state_def Let_def)
  then obtain st ns1 db1 where f: "settle_fresh sample_config (\<lambda>b. b) ?so sample_job ''p'' [sample_nullifier]
      sample_nullifier new_nonce_state submitting_db = (Tracking st sample_nullifier, ns1, db1)" by blast
  have e: "so_estimate sample_settle = Inr 100000" by (simp add: sample_settle_def)
  have "tk_call st \<noteq> None" using settle_fresh_tracking [OF f] by blast
  with only_settlements_reach_the_chain [OF e f refl, of 7 "[(sample_poll, \<lambda>_. Inr sample_tx)]" new_nonce_state submitting_db]
  show ?thesis by blast
qed

section \<open>The key\<close>

lemma strip_0x_plain: "strip_0x (''0x'' @ s) = strip_0x s"
  by simp

text \<open>A key connects to the same account with and without its prefix and white space around it.\<close>

lemma connect_ignores_prefix:
  assumes "key = [] \<or> \<not> ascii_space (hd key) \<and> \<not> ascii_space (last key)"
  shows "connect parse_key dialled cid url ('' '' @ ''0x'' @ key @ '' '') settlement
    = connect parse_key dialled cid url key settlement"
proof -
  have "trim key = key"
    using assms by (cases key rule: rev_cases) (auto simp: trim_def dropWhile_append dropWhile_eq_self_iff hd_append,
        metis list.set_sel(1))
  moreover have "trim ('' '' @ ''0x'' @ key @ '' '') = ''0x'' @ key"
    using assms by (cases key rule: rev_cases) (auto simp: trim_def ascii_space_def dropWhile_append)
  ultimately show ?thesis by (simp add: connect_def)
qed

end
