(* ===== verification/Artifacts.thy ===== *)
theory Artifacts
  imports Prover "HOL-Library.AList"
begin

text \<open>
  Preparing the circuits before the first job: \<open>prepare\<close>, \<open>copy_dir\<close>, \<open>absolute\<close> and \<open>Artifacts\<close> of
  \<open>crates/dray-worker/src/prover.rs\<close>. A directory is the list of its entries; the workspace of circuits
  and the artefact directory are two such trees (there are no links in them, neither lies in the other,
  and a circuit's name is one component of a path). The operating system may refuse any operation, which
  the model is told by the path; what the tools do to the directory they run in is an argument.
\<close>

section \<open>Directories\<close>

datatype node = File bytes | Dir "(string \<times> node) list"

type_synonym dir = "(string \<times> node) list"

type_synonym path = "string list"

text \<open>The file at a path.\<close>

fun file_at :: "dir \<Rightarrow> path \<Rightarrow> bytes option" where
  "file_at d [] = None"
| "file_at d (n # p) =
     (case map_of d n of
        None \<Rightarrow> None
      | Some (File c) \<Rightarrow> (if p = [] then Some c else None)
      | Some (Dir sub) \<Rightarrow> file_at sub p)"

text \<open>No two entries of one directory have the same name.\<close>

fun wf_dir :: "dir \<Rightarrow> bool" where
  "wf_dir [] = True"
| "wf_dir ((n, File c) # es) = (n \<notin> fst ` set es \<and> wf_dir es)"
| "wf_dir ((n, Dir sub) # es) = (n \<notin> fst ` set es \<and> wf_dir sub \<and> wf_dir es)"

section \<open>Operations\<close>

text \<open>\<open>create_dir_all\<close> of one more component, \<open>fs::copy\<close>, and \<open>fs::remove_file\<close> with its error ignored.\<close>

definition create_dir :: "(path \<Rightarrow> string option) \<Rightarrow> path \<Rightarrow> node option \<Rightarrow> string + dir" where
  "create_dir refuse loc existing =
     (case refuse loc of
        Some e \<Rightarrow> Inl e
      | None \<Rightarrow>
          (case existing of
             None \<Rightarrow> Inr []
           | Some (Dir es) \<Rightarrow> Inr es
           | Some (File _) \<Rightarrow> Inl ''File exists (os error 17)''))"

definition copy_file :: "(path \<Rightarrow> string option) \<Rightarrow> path \<Rightarrow> bytes \<Rightarrow> node option \<Rightarrow> string + node" where
  "copy_file refuse loc content existing =
     (case refuse loc of
        Some e \<Rightarrow> Inl e
      | None \<Rightarrow> (case existing of Some (Dir _) \<Rightarrow> Inl ''Is a directory (os error 21)'' | _ \<Rightarrow> Inr (File content)))"

definition remove_file :: "(path \<Rightarrow> string option) \<Rightarrow> path \<Rightarrow> string \<Rightarrow> dir \<Rightarrow> dir" where
  "remove_file refuse loc name d =
     (case map_of d name of
        Some (File _) \<Rightarrow> if refuse loc = None then AList.delete name d else d
      | _ \<Rightarrow> d)"

fun copy_entries :: "(path \<Rightarrow> string option) \<Rightarrow> path \<Rightarrow> dir \<Rightarrow> dir \<Rightarrow> string + dir" where
  "copy_entries refuse loc d [] = Inr d"
| "copy_entries refuse loc d ((name, File content) # es) =
     and_then (copy_file refuse (loc @ [name]) content (map_of d name)) (\<lambda>n.
     copy_entries refuse loc (AList.update name n d) es)"
| "copy_entries refuse loc d ((name, Dir sub) # es) =
     and_then (create_dir refuse (loc @ [name]) (map_of d name)) (\<lambda>old.
     and_then (copy_entries refuse (loc @ [name]) old sub) (\<lambda>new.
     copy_entries refuse loc (AList.update name (Dir new) d) es))"

definition copy_dir :: "(path \<Rightarrow> string option) \<Rightarrow> path \<Rightarrow> node option \<Rightarrow> node option \<Rightarrow> string + dir" where
  "copy_dir refuse loc existing source =
     and_then (create_dir refuse loc existing) (\<lambda>d.
     case source of
       Some (Dir es) \<Rightarrow> copy_entries refuse loc d es
     | Some (File _) \<Rightarrow> Inl ''Not a directory (os error 20)''
     | None \<Rightarrow> Inl ''No such file or directory (os error 2)'')"

section \<open>Preparing\<close>

record prepare_world =
  qw_exists :: "string \<Rightarrow> bool"
  qw_create :: "string \<Rightarrow> string + unit"
  qw_canonical :: "string \<Rightarrow> string + string"
  qw_refuse :: "path \<Rightarrow> string option"
  qw_utf8 :: "string \<Rightarrow> bool"
  qw_compile :: "string \<Rightarrow> dir \<Rightarrow> child_end \<times> dir"
  qw_bb :: "string \<Rightarrow> dir \<Rightarrow> child_end \<times> dir"

definition absolute :: "prepare_world \<Rightarrow> string \<Rightarrow> prove_error + string" where
  "absolute w p =
     and_then (if qw_exists w p then Inr () else scratch_step (''creating '' @ p) (qw_create w p)) (\<lambda>_.
     scratch_step (''resolving '' @ p) (qw_canonical w p))"

definition utf8_arg :: "prepare_world \<Rightarrow> string \<Rightarrow> prove_error + string" where
  "utf8_arg w p = (if qw_utf8 w p then Inr p else Inl (ScratchFailed (''path is not valid UTF-8: '' @ p)))"

text \<open>The package of one circuit, in the circuit's artefact directory.\<close>

definition fill_package :: "prepare_world \<Rightarrow> string \<Rightarrow> string \<Rightarrow> dir \<Rightarrow> string \<Rightarrow> dir \<Rightarrow> prove_error + dir" where
  "fill_package w circuits_dir into workspace circuit art =
     (let refuse = qw_refuse w; json = circuit @ ''.json'';
          package = path_join (path_join into circuit) ''package''; target = path_join package ''target'';
          compiled = path_join (path_join circuits_dir ''target'') json in
     and_then (scratch_step (''creating '' @ package) (create_dir refuse [circuit] (map_of art circuit))) (\<lambda>d.
     and_then (scratch_step (''creating '' @ package)
         (create_dir refuse [circuit, ''package''] (map_of d ''package''))) (\<lambda>p.
     and_then (scratch_step (''copying '' @ circuit)
         (copy_dir refuse [circuit, ''package''] (Some (Dir p)) (map_of workspace circuit))) (\<lambda>p1.
     and_then (scratch_step (''creating '' @ target)
         (create_dir refuse [circuit, ''package'', ''target''] (map_of p1 ''target''))) (\<lambda>t.
     and_then (scratch_step (''copying '' @ compiled)
         (case file_at workspace [''target'', json] of
            None \<Rightarrow> Inl ''No such file or directory (os error 2)''
          | Some c \<Rightarrow> copy_file refuse [circuit, ''package'', ''target'', json] c (map_of t json))) (\<lambda>f.
     let p2 = AList.update ''target'' (Dir (AList.update json f t)) p1;
         p3 = remove_file refuse [circuit, ''package'', ''Prover.toml''] ''Prover.toml'' p2 in
     Inr (AList.update ''package'' (Dir p3) d)))))))"

definition prepare_circuit ::
  "prepare_world \<Rightarrow> prover_config \<Rightarrow> string \<Rightarrow> string \<Rightarrow> dir \<Rightarrow> string \<Rightarrow> dir \<Rightarrow> prove_error + dir" where
  "prepare_circuit w cfg circuits_dir into workspace circuit art =
     and_then (fill_package w circuits_dir into workspace circuit art) (\<lambda>d.
     and_then (utf8_arg w (path_join (path_join circuits_dir ''target'') (circuit @ ''.json''))) (\<lambda>compiled.
     and_then (utf8_arg w (path_join into circuit)) (\<lambda>dest.
     let args = [''write_vk'', ''-t'', ''evm'', ''-b'', compiled, ''-o'', dest] in
     and_then (map_err ProvingFailed
         (run_bounded (\<lambda>script. fst (qw_bb w script d)) (pc_bb cfg) args for_preparation)) (\<lambda>_.
     Inr (AList.update circuit (Dir (snd (qw_bb w (run_script for_preparation (pc_bb cfg) args) d))) art)))))"

fun prepare_circuits ::
  "prepare_world \<Rightarrow> prover_config \<Rightarrow> string \<Rightarrow> string \<Rightarrow> dir \<Rightarrow> string list \<Rightarrow> dir \<Rightarrow> prove_error + dir" where
  "prepare_circuits w cfg circuits_dir into workspace [] art = Inr art"
| "prepare_circuits w cfg circuits_dir into workspace (c # cs) art =
     and_then (prepare_circuit w cfg circuits_dir into workspace c art) (\<lambda>art'.
     prepare_circuits w cfg circuits_dir into workspace cs art')"

definition compiled_workspace :: "prepare_world \<Rightarrow> prover_config \<Rightarrow> dir \<Rightarrow> dir" where
  "compiled_workspace w cfg workspace =
     snd (qw_compile w (run_script for_preparation (pc_nargo cfg) [''compile'']) workspace)"

text \<open>\<open>Artifacts\<close>: the absolute path of the artefact directory, here with what it holds.\<close>

definition prepare ::
  "prepare_world \<Rightarrow> prover_config \<Rightarrow> string \<Rightarrow> string list \<Rightarrow> string \<Rightarrow> dir \<Rightarrow> dir \<Rightarrow> prove_error + string \<times> dir" where
  "prepare w cfg circuits_dir circuits into workspace art =
     and_then (absolute w circuits_dir) (\<lambda>from_dir.
     and_then (absolute w into) (\<lambda>to_dir.
     and_then (map_err WitnessFailed
         (run_bounded (\<lambda>script. fst (qw_compile w script workspace)) (pc_nargo cfg) [''compile''] for_preparation)) (\<lambda>_.
     and_then (prepare_circuits w cfg from_dir to_dir (compiled_workspace w cfg workspace) circuits art) (\<lambda>art'.
     Inr (to_dir, art')))))"

definition artifacts_has :: "dir \<Rightarrow> string \<Rightarrow> bool" where
  "artifacts_has art circuit \<longleftrightarrow>
     file_at art [circuit, ''package'', ''Nargo.toml''] \<noteq> None \<and> file_at art [circuit, ''vk''] \<noteq> None"

section \<open>Copying\<close>

lemma wf_dir_absent: "wf_dir ((n, x) # es) \<Longrightarrow> map_of es n = None \<and> wf_dir es"
  by (cases x) (auto simp: map_of_eq_None_iff)

lemma file_at_Cons:
  "file_at ((n, x) # es) (m # p) = (if m = n then
     (case x of File c \<Rightarrow> if p = [] then Some c else None | Dir sub \<Rightarrow> file_at sub p) else file_at es (m # p))"
  by (simp split: node.splits)

lemma file_at_update:
  "file_at (AList.update n x d) (m # p) = (if m = n then
     (case x of File c \<Rightarrow> if p = [] then Some c else None | Dir sub \<Rightarrow> file_at sub p) else file_at d (m # p))"
  by (simp add: update_conv' split: node.splits)

lemma file_at_absent: "map_of d n = None \<Longrightarrow> file_at d (n # p) = None"
  by simp

declare file_at.simps(2) [simp del]

lemma create_dir_Inr: "create_dir refuse loc ex = Inr d \<longleftrightarrow>
    refuse loc = None \<and> (ex = None \<and> d = [] \<or> ex = Some (Dir d))"
  by (auto simp: create_dir_def split: option.splits node.splits)

lemma copy_file_Inr: "copy_file refuse loc c ex = Inr n \<longleftrightarrow>
    refuse loc = None \<and> n = File c \<and> (\<forall>sub. ex \<noteq> Some (Dir sub))"
  by (auto simp: copy_file_def split: option.splits node.splits)

lemma file_at_empty [simp]: "file_at [] p = None"
  by (cases p) (simp_all add: file_at.simps)

lemma created_files: "create_dir refuse loc (map_of d n) = Inr sub \<Longrightarrow> file_at d (n # p) = file_at sub p"
  by (auto simp: create_dir_Inr file_at.simps)

text \<open>A copy that succeeds lays the source over what was there: the source's files win, no other changes.\<close>

lemma copy_overlays:
  "copy_entries refuse loc d es = Inr d' \<Longrightarrow> wf_dir es \<Longrightarrow>
   file_at d' p = (case file_at es p of Some c \<Rightarrow> Some c | None \<Rightarrow> file_at d p)"
proof (induction refuse loc d es arbitrary: d' p rule: copy_entries.induct)
  case (2 refuse loc d name content es)
  from 2(2) obtain n where f: "copy_file refuse (loc @ [name]) content (map_of d name) = Inr n"
    and r: "copy_entries refuse loc (AList.update name n d) es = Inr d'" by (auto simp: and_then_Inr)
  have "file_at d (name # q) = None" if "q \<noteq> []" for q
    using f that by (auto simp: copy_file_Inr file_at.simps split: option.splits node.splits)
  then show ?case
    using 2(1) [OF f r] wf_dir_absent [OF 2(3)] f
    by (cases p) (auto simp: file_at_Cons file_at_update file_at_absent copy_file_Inr split: option.splits)
next
  case (3 refuse loc d name sub es)
  from 3(3) obtain old new where o: "create_dir refuse (loc @ [name]) (map_of d name) = Inr old"
    and n: "copy_entries refuse (loc @ [name]) old sub = Inr new"
    and r: "copy_entries refuse loc (AList.update name (Dir new) d) es = Inr d'" by (auto simp: and_then_Inr)
  show ?case
    using 3(2) [OF o n r] 3(1) [OF o n] wf_dir_absent [OF 3(4)] 3(4) created_files [OF o]
    by (cases p) (auto simp: file_at_Cons file_at_update file_at_absent split: option.splits)
qed simp

lemma copied_not_refused:
  "copy_entries refuse loc d es = Inr d' \<Longrightarrow> file_at es p = Some c \<Longrightarrow> refuse (loc @ p) = None"
proof (induction refuse loc d es arbitrary: d' p rule: copy_entries.induct)
  case (2 refuse loc d name content es)
  then show ?case
    by (cases p) (auto simp: and_then_Inr copy_file_Inr file_at_Cons split: if_splits)
next
  case (3 refuse loc d name sub es)
  from 3(3) obtain old new where o: "create_dir refuse (loc @ [name]) (map_of d name) = Inr old"
    and n: "copy_entries refuse (loc @ [name]) old sub = Inr new"
    and r: "copy_entries refuse loc (AList.update name (Dir new) d) es = Inr d'" by (auto simp: and_then_Inr)
  show ?case
  proof (cases p)
    case (Cons m q)
    then show ?thesis using 3(1) [OF o n, of q] 3(2) [OF o n r] 3(4) by (simp add: file_at_Cons split: if_splits)
  qed (use 3(4) in simp)
qed simp

text \<open>A copy into nothing, with nothing refused, is the source itself.\<close>

lemma copy_onto_fresh:
  "copy_entries (\<lambda>_. None) loc d es = Inr (d @ es)" if "wf_dir es" "fst ` set d \<inter> fst ` set es = {}"
  using that
proof (induction "\<lambda>_ :: path. None :: string option" loc d es rule: copy_entries.induct)
  case (2 loc d name content es)
  have "map_of d name = None" using 2(3) by (force simp: map_of_eq_None_iff)
  moreover from this have "AList.update name (File content) d = d @ [(name, File content)]"
    by (simp add: map_of_eq_None_iff) (induction d, auto)
  ultimately show ?case using 2 by (simp add: copy_file_def)
next
  case (3 loc d name sub es)
  have "map_of d name = None" using 3(4) by (force simp: map_of_eq_None_iff)
  moreover from this have "AList.update name (Dir sub) d = d @ [(name, Dir sub)]"
    by (simp add: map_of_eq_None_iff) (induction d, auto)
  ultimately have u: "create_dir (\<lambda>_. None) (loc @ [name]) (map_of d name) = Inr []"
    and "AList.update name (Dir sub) d = d @ [(name, Dir sub)]" by (simp_all add: create_dir_def)
  then show ?case using 3(1) [OF u] 3(2) [OF u, of sub] 3(3,4) by simp
qed simp

lemma copy_dir_fresh: "wf_dir es \<Longrightarrow> copy_dir (\<lambda>_. None) loc None (Some (Dir es)) = Inr es"
  using copy_onto_fresh [of es "[]" loc] by (simp add: copy_dir_def create_dir_def)

section \<open>What a prepared circuit is\<close>

lemma remove_file_files:
  "file_at (remove_file refuse loc n d) p = (if p = [n] \<and> refuse loc = None then None else file_at d p)"
  by (cases p) (auto simp: remove_file_def file_at.simps delete_conv' split: option.splits node.splits)

lemma wf_dir_child: "wf_dir d \<Longrightarrow> map_of d n = Some (Dir sub) \<Longrightarrow> wf_dir sub"
  by (induction d rule: wf_dir.induct) (auto split: if_splits)

text \<open>
  The file a circuit's package has at a path once it is prepared: the compiled circuit is the workspace's, a
  \<open>Prover.toml\<close> is gone unless the operating system refused its removal, and any other file is the source's;
  where the source has none, a file that the package already had stays, for nothing ever clears a package.
\<close>

definition package_file :: "prepare_world \<Rightarrow> dir \<Rightarrow> dir \<Rightarrow> string \<Rightarrow> path \<Rightarrow> bytes option" where
  "package_file w workspace before c p =
     (if p = [''target'', c @ ''.json''] then file_at workspace p
      else if p = [''Prover.toml''] \<and>
          (file_at workspace (c # p) \<noteq> None \<or> qw_refuse w [c, ''package'', ''Prover.toml''] = None) then None
      else (case file_at workspace (c # p) of
              Some x \<Rightarrow> Some x
            | None \<Rightarrow> file_at before (c # ''package'' # p)))"

lemma package_file_again:
  assumes "\<And>q. file_at art' (c # ''package'' # q) = package_file w ws art c q"
  shows "package_file w ws art' c p = package_file w ws art c p"
proof -
  have one: "(if A then a else if B then b else case x of Some y \<Rightarrow> Some y | None \<Rightarrow>
      (if A then a else if B then b else case x of Some y \<Rightarrow> Some y | None \<Rightarrow> z)) =
    (if A then a else if B then b else case x of Some y \<Rightarrow> Some y | None \<Rightarrow> z)" for A B a b x and z :: "bytes option"
    by (simp split: option.split)
  show ?thesis unfolding package_file_def [of w ws art' c p] assms unfolding package_file_def by (rule one)
qed

lemma package_file_same:
  assumes "\<And>q. file_at art' (c # ''package'' # q) = file_at art (c # ''package'' # q)"
  shows "package_file w ws art' c p = package_file w ws art c p"
  unfolding package_file_def assms ..

text \<open>What is relied on of \<open>bb write_vk\<close>: when it succeeds it has written the key, and left the package alone.\<close>

definition writes_key :: "prepare_world \<Rightarrow> bool" where
  "writes_key w \<longleftrightarrow> (\<forall>script d. (\<exists>out err t peak. fst (qw_bb w script d) = Exited (Some 0) out err t peak) \<longrightarrow>
     file_at (snd (qw_bb w script d)) [''vk''] \<noteq> None \<and>
     map_of (snd (qw_bb w script d)) ''package'' = map_of d ''package'')"

lemma scratch_step_Inr: "scratch_step what r = Inr x \<longleftrightarrow> r = Inr x"
  by (simp add: scratch_step_def map_err_Inr)

lemma copy_dir_Inr:
  "copy_dir refuse loc (Some (Dir d)) source = Inr d' \<longleftrightarrow>
     refuse loc = None \<and> (\<exists>es. source = Some (Dir es) \<and> copy_entries refuse loc d es = Inr d')"
  by (auto simp: copy_dir_def and_then_Inr create_dir_Inr split: option.splits node.splits)

lemma fill_package_steps:
  assumes "fill_package w cd into workspace c art = Inr d'"
  obtains d p p1 t content src where
    "create_dir (qw_refuse w) [c] (map_of art c) = Inr d"
    "create_dir (qw_refuse w) [c, ''package''] (map_of d ''package'') = Inr p"
    "map_of workspace c = Some (Dir src)"
    "copy_entries (qw_refuse w) [c, ''package''] p src = Inr p1"
    "create_dir (qw_refuse w) [c, ''package'', ''target''] (map_of p1 ''target'') = Inr t"
    "file_at workspace [''target'', c @ ''.json''] = Some content" "\<forall>sub. map_of t (c @ ''.json'') \<noteq> Some (Dir sub)"
    "d' = AList.update ''package'' (Dir (remove_file (qw_refuse w) [c, ''package'', ''Prover.toml''] ''Prover.toml''
        (AList.update ''target'' (Dir (AList.update (c @ ''.json'') (File content) t)) p1))) d"
  using assms unfolding fill_package_def Let_def
  by (simp add: and_then_Inr scratch_step_Inr copy_dir_Inr copy_file_Inr split: option.splits) blast

lemma fill_package_files:
  assumes "fill_package w cd into workspace c art = Inr d'" and "wf_dir workspace"
  shows "\<exists>p. map_of d' ''package'' = Some (Dir p) \<and> (\<forall>q. file_at p q = package_file w workspace art c q)"
proof -
  from assms(1) obtain d p p1 t content src where
    d: "create_dir (qw_refuse w) [c] (map_of art c) = Inr d"
    and p: "create_dir (qw_refuse w) [c, ''package''] (map_of d ''package'') = Inr p"
    and src: "map_of workspace c = Some (Dir src)"
    and p1: "copy_entries (qw_refuse w) [c, ''package''] p src = Inr p1"
    and t: "create_dir (qw_refuse w) [c, ''package'', ''target''] (map_of p1 ''target'') = Inr t"
    and content: "file_at workspace [''target'', c @ ''.json''] = Some content"
    and json: "\<forall>sub. map_of t (c @ ''.json'') \<noteq> Some (Dir sub)"
    and d': "d' = AList.update ''package'' (Dir (remove_file (qw_refuse w) [c, ''package'', ''Prover.toml''] ''Prover.toml''
        (AList.update ''target'' (Dir (AList.update (c @ ''.json'') (File content) t)) p1))) d"
    by (rule fill_package_steps)
  define p2 where "p2 = AList.update ''target'' (Dir (AList.update (c @ ''.json'') (File content) t)) p1"
  define p3 where "p3 = remove_file (qw_refuse w) [c, ''package'', ''Prover.toml''] ''Prover.toml'' p2"
  have over: "file_at p1 q = (case file_at src q of Some x \<Rightarrow> Some x | None \<Rightarrow> file_at art (c # ''package'' # q))" for q
    using copy_overlays [OF p1 wf_dir_child [OF assms(2) src]] created_files [OF p] created_files [OF d]
    by (simp split: option.split)
  have f: "file_at workspace (c # q) = file_at src q" for q using src by (simp add: file_at.simps)
  have p2f: "file_at p2 q = (if q = [''target'', c @ ''.json''] then Some content else file_at p1 q)" for q
  proof -
    have "file_at t ((c @ ''.json'') # r) = None" if "r \<noteq> []" for r
      using json that by (auto simp: file_at.simps split: option.split node.split)
    then show ?thesis using created_files [OF t] by (cases q; cases "tl q") (auto simp: p2_def file_at_update)
  qed
  have "file_at p3 q = package_file w workspace art c q" for q
    using content copied_not_refused [OF p1, of "[''Prover.toml'']"]
    by (auto simp: p3_def remove_file_files p2f package_file_def f over split: option.splits)
  then show ?thesis by (simp add: d' p3_def p2_def update_conv')
qed

lemma prepare_circuit_files:
  assumes "prepare_circuit w cfg cd into workspace c art = Inr art'"
    and "wf_dir workspace" and "writes_key w"
  shows "file_at art' (c # ''package'' # q) = package_file w workspace art c q" and "file_at art' [c, ''vk''] \<noteq> None"
    and "m \<noteq> c \<Longrightarrow> file_at art' (m # q) = file_at art (m # q)"
proof -
  from assms(1) obtain d script where d: "fill_package w cd into workspace c art = Inr d"
    and bb: "\<exists>out err t peak. fst (qw_bb w script d) = Exited (Some 0) out err t peak"
    and art': "art' = AList.update c (Dir (snd (qw_bb w script d))) art"
    by (simp add: prepare_circuit_def Let_def and_then_Inr map_err_Inr run_bounded_cases) blast
  obtain p where p: "map_of d ''package'' = Some (Dir p)" "\<And>q. file_at p q = package_file w workspace art c q"
    using fill_package_files [OF d assms(2)] by blast
  have k: "file_at (snd (qw_bb w script d)) [''vk''] \<noteq> None \<and>
      map_of (snd (qw_bb w script d)) ''package'' = map_of d ''package''"
    using assms(3) bb unfolding writes_key_def by blast
  then show "file_at art' [c, ''vk''] \<noteq> None" by (simp add: art' file_at_update)
  show "m \<noteq> c \<Longrightarrow> file_at art' (m # q) = file_at art (m # q)" by (simp add: art' file_at_update)
  have "file_at (snd (qw_bb w script d)) (''package'' # q) = package_file w workspace art c q"
    using k p by (simp add: file_at.simps)
  then show "file_at art' (c # ''package'' # q) = package_file w workspace art c q" by (simp add: art' file_at_update)
qed

text \<open>Over all circuits, repeated names included.\<close>

lemma prepare_circuits_files:
  assumes "prepare_circuits w cfg cd into workspace cs art = Inr art'"
    and "wf_dir workspace" and "writes_key w"
  shows "(\<forall>c \<in> set cs. file_at art' [c, ''vk''] \<noteq> None \<and>
      (\<forall>q. file_at art' (c # ''package'' # q) = package_file w workspace art c q)) \<and>
    (\<forall>m q. m \<notin> set cs \<longrightarrow> file_at art' (m # q) = file_at art (m # q))"
  using assms(1)
proof (induction cs arbitrary: art)
  case (Cons c cs)
  from Cons.prems obtain art1 where 1: "prepare_circuit w cfg cd into workspace c art = Inr art1"
    and r: "prepare_circuits w cfg cd into workspace cs art1 = Inr art'" by (auto simp: and_then_Inr)
  note step = prepare_circuit_files [OF 1 assms(2,3)]
  have "package_file w workspace art1 m q = package_file w workspace art m q" for m q
    using package_file_again [OF step(1)] package_file_same [of art1 m art] step(3) by (cases "m = c") simp_all
  with Cons.IH [OF r] step show ?case by (cases "c \<in> set cs") auto
qed simp

lemma prepared_files:
  assumes "prepare w cfg circuits_dir cs into workspace art = Inr (base, art')"
    and "wf_dir (compiled_workspace w cfg workspace)" and "writes_key w"
  shows "c \<in> set cs \<Longrightarrow>
      file_at art' (c # ''package'' # p) = package_file w (compiled_workspace w cfg workspace) art c p"
    and "c \<in> set cs \<Longrightarrow> file_at (compiled_workspace w cfg workspace) [c, ''Nargo.toml''] \<noteq> None \<Longrightarrow> artifacts_has art' c"
    and "m \<notin> set cs \<Longrightarrow> file_at art' (m # p) = file_at art (m # p)"
proof -
  from assms(1) obtain from_dir where "prepare_circuits w cfg from_dir base (compiled_workspace w cfg workspace) cs art = Inr art'"
    by (auto simp: prepare_def and_then_Inr)
  note files = prepare_circuits_files [OF this assms(2,3)]
  then show "c \<in> set cs \<Longrightarrow>
      file_at art' (c # ''package'' # p) = package_file w (compiled_workspace w cfg workspace) art c p"
    and "m \<notin> set cs \<Longrightarrow> file_at art' (m # p) = file_at art (m # p)" by blast+
  show "c \<in> set cs \<Longrightarrow> file_at (compiled_workspace w cfg workspace) [c, ''Nargo.toml''] \<noteq> None \<Longrightarrow> artifacts_has art' c"
    using files by (auto simp: artifacts_has_def package_file_def)
qed

lemma known_circuit:
  assumes "artifacts_has art c"
  shows "prove (pw\<lparr> pw_has := artifacts_has art \<rparr>) cfg c inputs label \<noteq> Inl (UnknownCircuit c)"
  using assms render_errors [of inputs "UnknownCircuit c"]
  by (auto simp: prove_def Let_def and_then_Inl require_Inl ok_or_Inl map_err_Inl scratch_step_def path_arg_def
      split: if_splits)


text \<open>A workspace of one circuit, with a \<open>Prover.toml\<close> left over in it.\<close>

definition sample_workspace :: dir where
  "sample_workspace =
     [(''c'', Dir [(''Nargo.toml'', File ''n''), (''Prover.toml'', File ''old''),
                   (''src'', Dir [(''main.nr'', File ''m'')])]),
      (''target'', Dir [(''c.json'', File ''j'')])]"

definition sample_prepare :: prepare_world where
  "sample_prepare =
     \<lparr> qw_exists = (\<lambda>_. True), qw_create = (\<lambda>_. Inr ()), qw_canonical = Inr, qw_refuse = (\<lambda>_. None), qw_utf8 = (\<lambda>_. True),
       qw_compile = (\<lambda>_ d. (Exited (Some 0) [] [] 0 0, d)),
       qw_bb = (\<lambda>_ d. (Exited (Some 0) [] [] 0 0, AList.update ''vk'' (File ''k'') d)) \<rparr>"

definition sample_prover :: prover_config where
  "sample_prover = \<lparr> pc_root = ''art'', pc_bounds = for_proving, pc_nargo = ''nargo'', pc_bb = ''bb'' \<rparr>"

text \<open>
  A restart: of what the artefact directory holds, \<open>main.nr\<close> is rewritten, a \<open>Prover.toml\<close> goes, and
  \<open>gone.nr\<close>, which the source no longer has, stays.
\<close>

definition restart_artifacts :: dir where
  "restart_artifacts =
     [(''c'', Dir [(''package'', Dir [(''Prover.toml'', File ''old''),
                                    (''src'', Dir [(''main.nr'', File ''before''), (''gone.nr'', File ''g'')])])])]"

lemma sample_restarted:
  "\<exists>art'. prepare sample_prepare cfg dir [''c''] into sample_workspace restart_artifacts = Inr (into, art')"
  "\<exists>art'. prepare sample_prepare cfg dir [''c'', ''c''] into sample_workspace restart_artifacts = Inr (into, art')"
  by (simp_all add: prepare_def absolute_def prepare_circuit_def fill_package_def compiled_workspace_def
      sample_prepare_def sample_workspace_def run_bounded_def scratch_step_def copy_dir_def create_dir_def copy_file_def
      remove_file_def utf8_arg_def Let_def file_at.simps restart_artifacts_def)

lemma sample_writes_key: "writes_key sample_prepare"
  by (simp add: writes_key_def sample_prepare_def update_conv' file_at.simps)

lemma sample_compiled: "compiled_workspace sample_prepare cfg ws = ws"
  by (simp add: compiled_workspace_def sample_prepare_def)


end
