(* ===== verification/Prover_Files.thy ===== *)
theory Prover_Files
  imports Artifacts
begin

text \<open>
  A job on the file system: what \<open>prove\<close> of \<open>crates/dray-worker/src/prover.rs\<close> is answered when its
  answers are not arbitrary but come from directories. The circuit's prepared package is copied into the
  job's scratch directory, \<open>Prover.toml\<close> is written into the copy, \<open>nargo\<close> runs in it and \<open>bb\<close> in the
  scratch directory; each tool is a function from the directory it runs in to how it ended and what it
  left there.
\<close>

section \<open>The world of a job\<close>

record tools =
  tl_refuse :: "path \<Rightarrow> string option"
  tl_utf8 :: "string \<Rightarrow> bool"
  tl_root :: "string + string"
  tl_nargo :: "string \<Rightarrow> dir \<Rightarrow> child_end \<times> dir"
  tl_bb :: "string \<Rightarrow> dir \<Rightarrow> child_end \<times> dir"

definition tried :: "'e + 'a \<Rightarrow> 'e + unit" where
  "tried r = map_sum id (\<lambda>_. ()) r"

definition or_empty :: "'e + dir \<Rightarrow> dir" where
  "or_empty r = (case r of Inr d \<Rightarrow> d | Inl _ \<Rightarrow> [])"

definition entry_names :: "node option \<Rightarrow> string option list option" where
  "entry_names n = (case n of Some (Dir es) \<Rightarrow> Some (map (\<lambda>e. Some (fst e)) es) | _ \<Rightarrow> None)"

definition package_of :: "dir \<Rightarrow> string \<Rightarrow> node option" where
  "package_of art circuit = (case map_of art circuit of Some (Dir d) \<Rightarrow> map_of d ''package'' | _ \<Rightarrow> None)"

text \<open>The command line of \<open>bb prove\<close>, once the compiled circuit and the witness have been found.\<close>

definition prove_args :: "string \<Rightarrow> string \<Rightarrow> string \<Rightarrow> string \<Rightarrow> string \<Rightarrow> string \<Rightarrow> string list" where
  "prove_args base vks circuit label bytecode witness =
     (let scratch = path_join base label; target = path_join (path_join scratch ''package'') ''target'' in
      [''prove'', ''-t'', ''evm'', ''-b'', path_join target bytecode, ''-w'', path_join target witness,
       ''-k'', path_join (path_join vks circuit) ''vk'', ''-o'', path_join scratch ''out''])"

definition job_world ::
  "tools \<Rightarrow> prover_config \<Rightarrow> dir \<Rightarrow> dir \<Rightarrow> string \<Rightarrow> json \<Rightarrow> string \<Rightarrow> prover_world" where
  "job_world tls cfg art scratches circuit inputs name =
     (let refuse = tl_refuse tls; toml = (case render_prover_toml inputs of Inr t \<Rightarrow> t | Inl _ \<Rightarrow> []);
          made = create_dir refuse [name] (map_of scratches name); d0 = or_empty made;
          copied = copy_dir refuse [name, ''package''] (map_of d0 ''package'') (package_of art circuit);
          pkg = or_empty copied;
          written = copy_file refuse [name, ''package'', ''Prover.toml''] toml (map_of pkg ''Prover.toml'');
          left_pkg = snd (tl_nargo tls (run_script (pc_bounds cfg) (pc_nargo cfg) [''execute''])
            (AList.update ''Prover.toml'' (File toml) pkg));
          names = entry_names (map_of left_pkg ''target'');
          d1 = AList.update ''package'' (Dir left_pkg) d0;
          made_out = create_dir refuse [name, ''out''] (map_of d1 ''out'');
          d2 = AList.update ''out'' (Dir (or_empty made_out)) d1;
          script = run_script (pc_bounds cfg) (pc_bb cfg)
            (case (tl_root tls, find_one names ''json'', find_one names ''gz'') of
               (Inr base, Some b, Some g) \<Rightarrow> prove_args base (pc_root cfg) circuit name b g
             | _ \<Rightarrow> []);
          left = snd (tl_bb tls script d2) in
      \<lparr> pw_has = artifacts_has art, pw_scratch_root = tl_root tls, pw_scratch = tried made, pw_copy = tried copied,
        pw_write = tried written,
        pw_nargo = (\<lambda>s t. fst (tl_nargo tls s (AList.update ''Prover.toml'' (File t) pkg))),
        pw_target = names, pw_create_out = tried made_out, pw_utf8 = tl_utf8 tls,
        pw_bb = (\<lambda>s. fst (tl_bb tls s d2)), pw_proof = file_at left [''out'', ''proof''],
        pw_public_inputs = file_at left [''out'', ''public_inputs''] \<rparr>)"

section \<open>Whose proof it is\<close>

lemma tried_Inr: "tried r = Inr u \<longleftrightarrow> (\<exists>x. r = Inr x)"
  by (cases r) (simp_all add: tried_def)

text \<open>A proof names every step that led to it.\<close>

lemma prove_success_steps:
  assumes "prove w cfg circuit inputs name = Inr pv"
  obtains toml base b g script where
    "render_prover_toml inputs = Inr toml" "pw_scratch_root w = Inr base" "pw_scratch w = Inr ()" "pw_copy w = Inr ()"
    "pw_write w = Inr ()" "find_one (pw_target w) ''json'' = Some b" "find_one (pw_target w) ''gz'' = Some g"
    "\<exists>out err t peak. pw_nargo w (run_script (pc_bounds cfg) (pc_nargo cfg) [''execute'']) toml = Exited (Some 0) out err t peak"
    "pw_create_out w = Inr ()"
    "script = run_script (pc_bounds cfg) (pc_bb cfg) (prove_args base (pc_root cfg) circuit name b g)"
    "\<exists>out err peak. pw_bb w script = Exited (Some 0) out err (pv_duration pv) peak"
    "pw_proof w = Some (pv_proof pv)" "pw_public_inputs w = Some (pv_public_inputs pv)"
  using assms unfolding prove_def Let_def scratch_step_def path_arg_def prove_args_def
  by (auto simp: and_then_Inr ok_or_Inr require_Inr map_err_Inr run_bounded_cases split: if_splits)

text \<open>The package a job is proved in: the circuit's, with the job's inputs.\<close>

definition job_package :: "dir \<Rightarrow> string \<Rightarrow> string \<Rightarrow> dir \<Rightarrow> bool" where
  "job_package art circuit toml pkg \<longleftrightarrow> (\<forall>q. file_at pkg q =
     (if q = [''Prover.toml''] then Some toml else file_at art (circuit # ''package'' # q)))"

lemma package_files: "package_of art circuit = Some (Dir d) \<Longrightarrow> file_at art (circuit # ''package'' # q) = file_at d q"
  by (auto simp: package_of_def file_at.simps split: option.splits node.splits)

lemma wf_package: "wf_dir art \<Longrightarrow> package_of art circuit = Some (Dir d) \<Longrightarrow> wf_dir d"
  by (auto simp: package_of_def split: option.splits node.splits dest: wf_dir_child)

lemma written_package:
  assumes "copy_dir refuse loc None (package_of art circuit) = Inr pkg" and "wf_dir art"
    and "copy_file refuse loc' toml (map_of pkg ''Prover.toml'') = Inr n"
  shows "job_package art circuit toml (AList.update ''Prover.toml'' (File toml) pkg)"
proof -
  from assms(1) obtain src where src: "package_of art circuit = Some (Dir src)"
    and c: "copy_entries refuse loc [] src = Inr pkg"
    by (auto simp: copy_dir_def and_then_Inr create_dir_Inr split: option.splits node.splits)
  have f: "file_at pkg q = file_at art (circuit # ''package'' # q)" for q
    using copy_overlays [OF c wf_package [OF assms(2) src]] package_files [OF src] by (simp split: option.split)
  have "file_at pkg (''Prover.toml'' # r) = None" if "r \<noteq> []" for r
    using assms(3) that by (auto simp: copy_file_Inr file_at.simps split: option.split node.split)
  then have "file_at (AList.update ''Prover.toml'' (File toml) pkg) q
      = (if q = [''Prover.toml''] then Some toml else file_at pkg q)" for q
    by (cases q) (simp_all add: file_at_update)
  then show ?thesis by (simp add: job_package_def f)
qed

text \<open>That a proof was made by the tools from this job and nothing else.\<close>

definition made_from :: "tools \<Rightarrow> prover_config \<Rightarrow> dir \<Rightarrow> string \<Rightarrow> json \<Rightarrow> string \<Rightarrow> proven \<Rightarrow> bool" where
  "made_from tls cfg art circuit inputs name pv \<longleftrightarrow> (
    \<exists>toml pkg pkg' base b g left out1 err1 t1 peak1 out2 err2 peak2.
    render_prover_toml inputs = Inr toml \<and> job_package art circuit toml pkg \<and>
    tl_nargo tls (run_script (pc_bounds cfg) (pc_nargo cfg) [''execute'']) pkg = (Exited (Some 0) out1 err1 t1 peak1, pkg') \<and>
    find_one (entry_names (map_of pkg' ''target'')) ''json'' = Some b \<and>
    find_one (entry_names (map_of pkg' ''target'')) ''gz'' = Some g \<and>
    tl_bb tls (run_script (pc_bounds cfg) (pc_bb cfg) (prove_args base (pc_root cfg) circuit name b g))
      [(''package'', Dir pkg'), (''out'', Dir [])] = (Exited (Some 0) out2 err2 (pv_duration pv) peak2, left) \<and>
    file_at left [''out'', ''proof''] = Some (pv_proof pv) \<and>
    file_at left [''out'', ''public_inputs''] = Some (pv_public_inputs pv))"

lemma proof_made_from:
  assumes "prove (job_world tls cfg art scratches circuit inputs name) cfg circuit inputs name = Inr pv"
    and "map_of scratches name = None" and "wf_dir art"
  shows "made_from tls cfg art circuit inputs name pv"
proof -
  let ?w = "job_world tls cfg art scratches circuit inputs name"
  from assms(1) obtain toml base b g script where
    toml: "render_prover_toml inputs = Inr toml" and ok: "pw_scratch_root ?w = Inr base" "pw_scratch ?w = Inr ()"
      "pw_copy ?w = Inr ()" "pw_write ?w = Inr ()"
    and found: "find_one (pw_target ?w) ''json'' = Some b" "find_one (pw_target ?w) ''gz'' = Some g"
    and nargo: "\<exists>out err t peak. pw_nargo ?w (run_script (pc_bounds cfg) (pc_nargo cfg) [''execute'']) toml
        = Exited (Some 0) out err t peak"
    and out: "pw_create_out ?w = Inr ()"
    and script: "script = run_script (pc_bounds cfg) (pc_bb cfg) (prove_args base (pc_root cfg) circuit name b g)"
    and bb: "\<exists>out err peak. pw_bb ?w script = Exited (Some 0) out err (pv_duration pv) peak"
    and read: "pw_proof ?w = Some (pv_proof pv)" "pw_public_inputs ?w = Some (pv_public_inputs pv)"
    by (rule prove_success_steps)
  have made: "create_dir (tl_refuse tls) [name] None = Inr []"
    using ok(2) assms(2) by (auto simp: job_world_def Let_def tried_Inr create_dir_Inr)
  obtain pkg0 where copied: "copy_dir (tl_refuse tls) [name, ''package''] None (package_of art circuit) = Inr pkg0"
    using ok(3) assms(2) made by (auto simp: job_world_def Let_def tried_Inr or_empty_def)
  define pkg where "pkg = AList.update ''Prover.toml'' (File toml) pkg0"
  obtain n where "copy_file (tl_refuse tls) [name, ''package'', ''Prover.toml''] toml (map_of pkg0 ''Prover.toml'') = Inr n"
    using ok(4) assms(2) made copied toml by (auto simp: job_world_def Let_def tried_Inr or_empty_def)
  then have pkg: "job_package art circuit toml pkg"
    unfolding pkg_def by (rule written_package [OF copied assms(3)])
  obtain st1 pkg' where run: "tl_nargo tls (run_script (pc_bounds cfg) (pc_nargo cfg) [''execute'']) pkg = (st1, pkg')"
    by fastforce
  have names: "pw_target ?w = entry_names (map_of pkg' ''target'')"
    using assms(2) made copied toml run by (simp add: job_world_def Let_def or_empty_def pkg_def)
  have "create_dir (tl_refuse tls) [name, ''out''] None = Inr []"
    using out assms(2) made copied toml by (auto simp: job_world_def Let_def tried_Inr or_empty_def create_dir_Inr update_conv')
  then have d2: "pw_bb ?w = (\<lambda>s. fst (tl_bb tls s [(''package'', Dir pkg'), (''out'', Dir [])]))"
      "pw_proof ?w = file_at (snd (tl_bb tls script [(''package'', Dir pkg'), (''out'', Dir [])])) [''out'', ''proof'']"
      "pw_public_inputs ?w = file_at (snd (tl_bb tls script [(''package'', Dir pkg'), (''out'', Dir [])])) [''out'', ''public_inputs'']"
    using assms(2) made copied toml run ok(1) found names unfolding script
    by (simp_all add: job_world_def Let_def or_empty_def pkg_def)
  have "pw_nargo ?w s toml = fst (tl_nargo tls s pkg)" for s
    using assms(2) made copied by (simp add: job_world_def Let_def or_empty_def pkg_def)
  then obtain out1 err1 t1 peak1 where n: "st1 = Exited (Some 0) out1 err1 t1 peak1" using nargo run by auto
  obtain st2 left where l: "tl_bb tls script [(''package'', Dir pkg'), (''out'', Dir [])] = (st2, left)" by fastforce
  then obtain out2 err2 peak2 where "st2 = Exited (Some 0) out2 err2 (pv_duration pv) peak2" using bb d2(1) by auto
  with l read d2(2,3) have "tl_bb tls script [(''package'', Dir pkg'), (''out'', Dir [])]
      = (Exited (Some 0) out2 err2 (pv_duration pv) peak2, left)"
    "file_at left [''out'', ''proof''] = Some (pv_proof pv)"
    "file_at left [''out'', ''public_inputs''] = Some (pv_public_inputs pv)" by auto
  then show ?thesis using toml pkg run n found names unfolding script made_from_def by metis
qed

text \<open>
  Claim C20. A proof that is reported belongs to the job: \<open>nargo\<close> executed exactly the circuit's prepared
  package with a \<open>Prover.toml\<close> that is exactly the rendering of this job's inputs, and succeeded; \<open>bb\<close> ran
  in a scratch directory that held only what \<open>nargo\<close> left of that package and an empty output directory,
  was given the one compiled circuit and the one witness in it and the circuit's key, and succeeded; and
  the proof and the public inputs are the files it left there. Nothing of another job or an earlier attempt
  can take part, provided the scratch directory is new, which its label is for.
\<close>
theorem proof_is_of_this_job:
  assumes "prove (job_world tls cfg art scratches circuit inputs name) cfg circuit inputs name = Inr pv"
    and "map_of scratches name = None" and "wf_dir art"
  shows "\<exists>toml pkg pkg' base b g left out1 err1 t1 peak1 out2 err2 peak2.
    render_prover_toml inputs = Inr toml \<and> job_package art circuit toml pkg \<and>
    tl_nargo tls (run_script (pc_bounds cfg) (pc_nargo cfg) [''execute'']) pkg = (Exited (Some 0) out1 err1 t1 peak1, pkg') \<and>
    find_one (entry_names (map_of pkg' ''target'')) ''json'' = Some b \<and>
    find_one (entry_names (map_of pkg' ''target'')) ''gz'' = Some g \<and>
    tl_bb tls (run_script (pc_bounds cfg) (pc_bb cfg) (prove_args base (pc_root cfg) circuit name b g))
      [(''package'', Dir pkg'), (''out'', Dir [])] = (Exited (Some 0) out2 err2 (pv_duration pv) peak2, left) \<and>
    file_at left [''out'', ''proof''] = Some (pv_proof pv) \<and>
    file_at left [''out'', ''public_inputs''] = Some (pv_public_inputs pv)"
  by (rule proof_made_from [OF assms, unfolded made_from_def])

text \<open>A worker proves one job of the circuit it prepared.\<close>

definition sample_tools :: tools where
  "sample_tools =
     \<lparr> tl_refuse = (\<lambda>_. None), tl_utf8 = (\<lambda>_. True), tl_root = Inr ''scratch'',
       tl_nargo = (\<lambda>_ d. (Exited (Some 0) [] [] 1 0, AList.update ''target'' (Dir [(''c.json'', File ''j''), (''c.gz'', File ''w'')]) d)),
       tl_bb = (\<lambda>_ d. (Exited (Some 0) [] [] 2 0,
          AList.update ''out'' (Dir [(''proof'', File ''p''), (''public_inputs'', File ''i'')]) d)) \<rparr>"

definition sample_artifacts :: dir where
  "sample_artifacts =
     [(''c'', Dir [(''package'', Dir [(''Nargo.toml'', File ''n''), (''target'', Dir [(''c.json'', File ''j'')])]),
                   (''vk'', File ''k'')])]"

lemma sample_artifacts_wf: "wf_dir sample_artifacts"
  by (simp add: sample_artifacts_def)

lemma sample_proved:
  "\<exists>pv. prove (job_world sample_tools sample_prover sample_artifacts [] ''c'' (JObject [(''a'', JBool True)]) name)
     sample_prover ''c'' (JObject [(''a'', JBool True)]) name = Inr pv"
proof -
  have r: "render_prover_toml (JObject [(''a'', JBool True)]) = Inr (''a = true'' @ [CHR 0x0A])"
    by (simp add: render_prover_toml_def toml_line_def)
  show ?thesis
    by (simp add: prove_def r job_world_def Let_def sample_tools_def sample_artifacts_def sample_prover_def
        artifacts_has_def file_at.simps tried_def create_dir_def copy_dir_def package_of_def copy_file_def or_empty_def
        entry_names_def scratch_step_def run_bounded_def find_one_def extension_def path_arg_def)
qed

theorem proof_is_of_this_job_witness:
  "\<exists>pv pkg. prove (job_world sample_tools sample_prover sample_artifacts [] ''c'' (JObject [(''a'', JBool True)]) ''7-1'')
      sample_prover ''c'' (JObject [(''a'', JBool True)]) ''7-1'' = Inr pv \<and> pv_duration pv = 2 \<and> pv_proof pv = ''p'' \<and>
    job_package sample_artifacts ''c'' (''a = true'' @ [CHR 0x0A]) pkg \<and>
    fst (tl_nargo sample_tools (run_script for_proving ''nargo'' [''execute'']) pkg) = Exited (Some 0) [] [] 1 0"
proof -
  let ?inputs = "JObject [(''a'', JBool True)]"
  have r: "render_prover_toml ?inputs = Inr (''a = true'' @ [CHR 0x0A])"
    by (simp add: render_prover_toml_def toml_line_def)
  note sample_proved [of "''7-1''"]
  then obtain pv where pv: "prove (job_world sample_tools sample_prover sample_artifacts [] ''c'' ?inputs ''7-1'')
      sample_prover ''c'' ?inputs ''7-1'' = Inr pv" by blast
  from proof_is_of_this_job [OF pv] r obtain pkg pkg' base b g left out1 err1 t1 peak1 out2 err2 peak2 where
    "job_package sample_artifacts ''c'' (''a = true'' @ [CHR 0x0A]) pkg"
    "tl_nargo sample_tools (run_script for_proving ''nargo'' [''execute'']) pkg = (Exited (Some 0) out1 err1 t1 peak1, pkg')"
    "tl_bb sample_tools (run_script for_proving ''bb'' (prove_args base ''art'' ''c'' ''7-1'' b g))
      [(''package'', Dir pkg'), (''out'', Dir [])] = (Exited (Some 0) out2 err2 (pv_duration pv) peak2, left)"
    "file_at left [''out'', ''proof''] = Some (pv_proof pv)"
    by (fastforce simp: sample_artifacts_def sample_prover_def)
  then show ?thesis using pv by (auto simp: sample_tools_def file_at.simps)
qed

end
