(* ===== verification/Processes.thy ===== *)
theory Processes
  imports Services Config Chain_Client Prover_Files
begin

text \<open>
  The three processes from their start: \<open>main.rs\<close> of \<open>dray-worker\<close>, \<open>dray-relayer\<close> and \<open>dray-api\<close>. Each
  reads its configuration, connects, checks or prepares what it needs and only then serves; the first
  failure ends it with its error and the exit code of a failure. Log set-up, signal handlers and the
  listening sockets are I/O.
\<close>

datatype start_error =
    BadConfig config_error
  | NoDatabase string
  | NoDirectory string
  | NotPrepared prove_error
  | NoChain chain_error
  | NotReady string

datatype exit_code = ExitSuccess | ExitFailure

definition exit_of :: "start_error + 'a \<Rightarrow> exit_code" where
  "exit_of r = (case r of Inr _ \<Rightarrow> ExitSuccess | Inl _ \<Rightarrow> ExitFailure)"

section \<open>The worker\<close>

text \<open>
  What the start of a worker is answered: whether the database could be reached and the two directories
  created, what Redis said, whether the tables could be read to rebuild the mirror and when, and the world
  of \<open>prepare\<close> with the workspace and the artefact directory.
\<close>

record 'r worker_start =
  st_database :: "string + unit"
  st_directories :: "string + unit"
  st_prepare :: prepare_world
  st_workspace :: dir
  st_artifacts :: dir
  st_redis :: "string \<Rightarrow> string + 'r redis"
  st_read_up :: bool
  st_now :: time

definition connected_mirror :: "'r worker_start \<Rightarrow> worker_settings \<Rightarrow> 'r redis option" where
  "connected_mirror st c =
     (case wz_redis_url c of
        None \<Rightarrow> None
      | Some url \<Rightarrow> (case st_redis st url of Inr R \<Rightarrow> Some R | Inl _ \<Rightarrow> None))"

definition start_worker ::
  "environment \<Rightarrow> string \<Rightarrow> nat \<Rightarrow> 'r worker_start \<Rightarrow> 'r worker_state \<Rightarrow>
   start_error + 'r worker \<times> dir \<times> 'r worker_state" where
  "start_worker env tmp pid st s =
     and_then (map_err BadConfig (worker_from_env env tmp pid)) (\<lambda>c.
     and_then (map_err NoDatabase (st_database st)) (\<lambda>_.
     let cfg = \<lparr> pc_root = wz_artifacts_dir c, pc_bounds = wz_bounds c, pc_nargo = ''nargo'', pc_bb = ''bb'' \<rparr> in
     and_then (map_err NoDirectory (st_directories st)) (\<lambda>_.
     and_then (map_err NotPrepared (prepare (st_prepare st) cfg (wz_circuits_dir c) (wz_circuits c)
         (wz_artifacts_dir c) (st_workspace st) (st_artifacts st))) (\<lambda>(base, art).
     let mirror = connected_mirror st c;
         w = \<lparr> w_config = wz_worker c, w_prover = cfg\<lparr> pc_root := base \<rparr>, w_leases = mirror \<rparr>;
         s' = s\<lparr> ws_metrics := new_metrics (wc_worker_id (wz_worker c)),
                ws_mirror := (case mirror of
                    Some R \<Rightarrow> if st_read_up st then snd (rebuild R (st_now st) (ws_db s) (ws_mirror s)) else ws_mirror s
                  | None \<Rightarrow> ws_mirror s) \<rparr> in
     Inr (w, art, s')))))"

text \<open>
  The process, over the tables, the mirror and the metrics. A start that fails leaves these three alone; the
  directories it may have created and the artefacts it may have half prepared are on disk, which is not
  part of this state (\<open>prepare\<close> has the directory as its argument and result).
\<close>

definition worker_process ::
  "environment \<Rightarrow> string \<Rightarrow> nat \<Rightarrow> 'r worker_start \<Rightarrow> 'r turn_obs list \<Rightarrow> 'r worker_state \<Rightarrow>
   (start_error + outcome list) \<times> 'r worker_state" where
  "worker_process env tmp pid st obs s =
     (case start_worker env tmp pid st s of
        Inl e \<Rightarrow> (Inl e, s)
      | Inr (w, _, s') \<Rightarrow> (case run_worker w obs s' of (outs, s'') \<Rightarrow> (Inr outs, s'')))"

section \<open>The relayer\<close>

record relayer_start =
  rt_database :: "string + unit"
  rt_parse_key :: "string \<Rightarrow> string + address"
  rt_connected :: "string + unit"
  rt_chain_id :: "string + u64"
  rt_is_relayer :: "address \<Rightarrow> address \<Rightarrow> string + bool"
  rt_balance :: "address \<Rightarrow> string + nat"
  rt_show_address :: "address \<Rightarrow> string"

definition start_relayer ::
  "environment \<Rightarrow> (string \<Rightarrow> bytes option) \<Rightarrow> nat \<Rightarrow> relayer_start \<Rightarrow> start_error + relayer_config \<times> chain" where
  "start_relayer env parse_address pid rt =
     and_then (map_err BadConfig (relayer_from_env env parse_address pid)) (\<lambda>c.
     and_then (map_err NoDatabase (rt_database rt)) (\<lambda>_.
     and_then (map_err NoChain (connect (rt_parse_key rt) (rt_connected rt) (rt_chain_id rt) (rz_rpc_url c)
         (rz_private_key c) (rz_settlement c))) (\<lambda>ch.
     and_then (map_err NotReady (preflight (rt_is_relayer rt (ch_settlement ch) (ch_address ch))
         (rt_balance rt (ch_address ch)) (rt_show_address rt (ch_address ch)) (rt_show_address rt (ch_settlement ch))
         (ch_chain_id ch))) (\<lambda>_.
     Inr (rz_relayer c, ch)))))"

section \<open>The API\<close>

definition start_api :: "environment \<Rightarrow> string + unit \<Rightarrow> string + unit \<Rightarrow> start_error + app_state" where
  "start_api env database migrated =
     and_then (map_err BadConfig (api_from_env env)) (\<lambda>c.
     and_then (map_err NoDatabase database) (\<lambda>_.
     and_then (if az_migrate_on_start c then map_err NoDatabase migrated else Inr ()) (\<lambda>_.
     Inr \<lparr> as_limits = az_limits c, as_max_queue_depth = az_max_queue_depth c,
           as_default_max_attempts = az_default_max_attempts c \<rparr>)))"

section \<open>What a started process can rely on\<close>

lemma start_worker_steps:
  assumes "start_worker env tmp pid st s = Inr (w, art, s')" and "worker_from_env env tmp pid = Inr c"
    and "cfg = \<lparr> pc_root = wz_artifacts_dir c, pc_bounds = wz_bounds c, pc_nargo = ''nargo'', pc_bb = ''bb'' \<rparr>"
  shows "\<exists>base. prepare (st_prepare st) cfg (wz_circuits_dir c) (wz_circuits c) (wz_artifacts_dir c)
      (st_workspace st) (st_artifacts st) = Inr (base, art) \<and>
    w = \<lparr> w_config = wz_worker c, w_prover = cfg\<lparr> pc_root := base \<rparr>, w_leases = connected_mirror st c \<rparr>"
    and "ws_db s' = ws_db s" and "ws_metrics s' = new_metrics (wc_worker_id (wz_worker c))"
    and "ws_mirror s' = (case connected_mirror st c of
      Some R \<Rightarrow> if st_read_up st then snd (rebuild R (st_now st) (ws_db s) (ws_mirror s)) else ws_mirror s
    | None \<Rightarrow> ws_mirror s)"
  using assms(1) unfolding start_worker_def Let_def assms(2)
  by (auto simp: assms(3) and_then_Inr map_err_Inr)


text \<open>
  A relayer that runs is authorised by the contract it was configured with, has funds, and waits for at
  least one confirmation.
\<close>

lemma relayer_starts_authorised:
  assumes "start_relayer env parse_address pid rt = Inr (cfg, ch)"
  shows "\<exists>c b. relayer_from_env env parse_address pid = Inr c \<and> ch_settlement ch = rz_settlement c \<and>
    rt_is_relayer rt (ch_settlement ch) (ch_address ch) = Inr True \<and>
    rt_balance rt (ch_address ch) = Inr b \<and> b \<noteq> 0 \<and> rt_chain_id rt = Inr (ch_chain_id ch)"
  using assms
  by (auto simp: start_relayer_def connect_def preflight_def and_then_Inr map_err_Inr require_Inr)

lemma api_positive_pos: "api_parse_positive name raw d = Inr n \<Longrightarrow> 0 < d \<Longrightarrow> 0 < n"
  by (auto simp: api_parse_positive_def res_iff split: option.splits if_splits)

text \<open>
  An API that started accepts valid work when nothing is queued: the settings cannot make it refuse every
  request, or create a job that may not be attempted once.
\<close>

lemma started_api_accepts:
  assumes "start_api env database migrated = Inr st"
    and "find_circuit (sq_circuit_id body) db = Some c" and "c_enabled c"
    and "validate_submission validator (sq_circuit_id body) (sq_inputs body) (sq_idempotency_key body)
      (c_input_schema c) (as_limits st) = Inr ()"
    and "queue_depth db = 0" and "\<And>b. length (sha b) = 32" and "find_job jid db = None"
  shows "\<exists>resp db'. submit validator sha st (quiet_submission jid now) body db = (Inr (202, resp), db')"
proof -
  have "0 < as_max_queue_depth st \<and> 0 < as_default_max_attempts st"
    using assms(1)
    by (auto simp: start_api_def api_from_env_def Let_def and_then_Inr map_err_Inr dest!: api_positive_pos)
  then show ?thesis using valid_is_accepted assms(2-7) by simp
qed

text \<open>A worker with a circuit and a mirror, from an empty artefact directory and a table with one leased job.\<close>

definition one_circuit_env :: environment where
  "one_circuit_env = [''DRAY_CIRCUITS'' \<mapsto> ''c'', ''REDIS_URL'' \<mapsto> ''r'']"

definition sample_start :: "(string \<Rightarrow> string option) worker_start" where
  "sample_start =
     \<lparr> st_database = Inr (), st_directories = Inr (), st_prepare = sample_prepare, st_workspace = sample_workspace,
       st_artifacts = restart_artifacts, st_redis = (\<lambda>_. Inr sample_redis), st_read_up = True, st_now = 5 \<rparr>"

lemma one_circuit_settings:
  "\<exists>c. worker_from_env one_circuit_env ''/tmp'' 1 = Inr c \<and> wz_circuits c = [''c''] \<and> wz_redis_url c = Some ''r''"
  by (simp add: worker_from_env_def Let_def one_circuit_env_def positive_def parse_positive_def parse_list_def
      trim_def ascii_space_def)


end
