(* ===== verification/Cli.thy ===== *)
theory Cli
  imports Api
begin

text \<open>
  The operator's command line, \<open>crates/dray-cli/src/main.rs\<close>: what each command line asks for, the
  statements of \<open>reset\<close>, and what \<open>job\<close>, \<open>settlement\<close> and \<open>queue\<close> print. Connecting, migrating and
  running a file are I/O, so those commands are effects named by what they are given.
\<close>

section \<open>Commands\<close>

datatype cli_effect =
    PrintUsage
  | ApplyMigrations
  | RunStatements "string list"
  | RunFile string
  | PrintJson json

definition int_json :: "int \<Rightarrow> json" where
  "int_json n = JNumber (if 0 \<le> n then PosInt (of_int n) else NegInt (of_int n))"

definition opt_json :: "('a \<Rightarrow> json) \<Rightarrow> 'a option \<Rightarrow> json" where
  "opt_json f x = (case x of None \<Rightarrow> JNull | Some v \<Rightarrow> f v)"

definition cli_hex :: "bytes \<Rightarrow> string" where
  "cli_hex bs = ''0x'' @ hex_encode bs"

definition parse_id :: "(string \<Rightarrow> string + uuid) \<Rightarrow> string option \<Rightarrow> string + uuid" where
  "parse_id parse_uuid raw =
     (case raw of None \<Rightarrow> Inl ''this command needs a job id'' | Some text \<Rightarrow> parse_uuid text)"

text \<open>\<open>json!\<close> builds a sorted map; \<open>rfc3339\<close> is the date library's formatting.\<close>

definition job_json :: "(time \<Rightarrow> string) \<Rightarrow> job \<Rightarrow> json" where
  "job_json rfc3339 j = JObject
     [(''attempts'', int_json (j_attempts j)), (''circuit_id'', JString (j_circuit_id j)),
      (''id'', JString (uuid_text (j_id j))), (''last_error'', opt_json JString (j_last_error j)),
      (''leased_by'', opt_json JString (j_leased_by j)), (''max_attempts'', int_json (j_max_attempts j)),
      (''proof_size_bytes'', opt_json (\<lambda>p. int_json (int (length p))) (j_proof j)),
      (''retry_after'', opt_json (\<lambda>t. JString (rfc3339 t)) (j_retry_after j)),
      (''state'', JString (state_as_str (j_state j))),
      (''submission_attempts'', int_json (j_submission_attempts j))]"

definition settlement_json :: "(time \<Rightarrow> string) \<Rightarrow> settlement \<Rightarrow> json" where
  "settlement_json rfc3339 s = JObject
     [(''block_number'', opt_json int_json (s_block_number s)), (''confirmations'', int_json (s_confirmations s)),
      (''effective_gas_price'', opt_json JString (s_effective_gas_price s)),
      (''gas_used'', opt_json int_json (s_gas_used s)), (''job_id'', JString (uuid_text (s_job_id s))),
      (''nullifier'', JString (cli_hex (s_nullifier s))),
      (''reorged_at'', opt_json (\<lambda>t. JString (rfc3339 t)) (s_reorged_at s)),
      (''tx_hash'', JString (cli_hex (s_tx_hash s)))]"

definition queue_states :: "db \<Rightarrow> (string \<times> json) list" where
  "queue_states db =
     foldl (\<lambda>m (st, n). fst (btree_insert (state_as_str st) (int_json (int n)) m)) [] (state_counts db)"

definition queue_json :: "db \<Rightarrow> json" where
  "queue_json db =
     JObject [(''queue_depth'', int_json (int (queue_depth db))), (''states'', JObject (queue_states db))]"

text \<open>Identifiers cannot be bound as parameters, so the name is checked.\<close>

definition name_char :: "char \<Rightarrow> bool" where
  "name_char c \<longleftrightarrow> is_digit c \<or> (65 \<le> (of_char c :: nat) \<and> (of_char c :: nat) \<le> 90) \<or>
     (97 \<le> (of_char c :: nat) \<and> (of_char c :: nat) \<le> 122) \<or> c = CHR ''_'' \<or> c = CHR ''-''"

definition reset_statements :: "string \<Rightarrow> string + string list" where
  "reset_statements name =
     (if name = [] \<or> \<not> list_all name_char name
      then Inl (debug_str name @ '' is not a usable database name: letters, digits, underscore and hyphen only'')
      else Inr [''DROP DATABASE IF EXISTS '' @ [CHR 0x22] @ name @ [CHR 0x22] @ '' WITH (FORCE)'',
                ''CREATE DATABASE '' @ [CHR 0x22] @ name @ [CHR 0x22]])"

text \<open>\<open>args\<close> are the arguments after the program's name; \<open>conn\<close> is the database, if it can be reached.\<close>

definition cli ::
  "(string \<Rightarrow> string + uuid) \<Rightarrow> (time \<Rightarrow> string) \<Rightarrow> string + db \<Rightarrow> string list \<Rightarrow> string + cli_effect" where
  "cli parse_uuid rfc3339 conn args =
     (case args of
        [] \<Rightarrow> Inr PrintUsage
      | command # rest \<Rightarrow>
          let arg = (case rest of [] \<Rightarrow> None | a # _ \<Rightarrow> Some a) in
          if command \<in> {''-h'', ''--help'', ''help''} then Inr PrintUsage
          else if command = ''migrate'' then map_sum id (\<lambda>_. ApplyMigrations) conn
          else if command = ''reset'' then
            and_then (ok_or arg ''reset needs a database name'') (\<lambda>name.
            and_then (reset_statements name) (\<lambda>ss. map_sum id (\<lambda>_. RunStatements ss) conn))
          else if command = ''exec'' then
            and_then (ok_or arg ''exec needs a path to a .sql file'') (\<lambda>file. map_sum id (\<lambda>_. RunFile file) conn)
          else if command = ''job'' then
            and_then (parse_id parse_uuid arg) (\<lambda>jid.
            and_then conn (\<lambda>db.
            and_then (ok_or (job_by_id jid db) ''no such job'') (\<lambda>j. Inr (PrintJson (job_json rfc3339 j)))))
          else if command = ''settlement'' then
            and_then (parse_id parse_uuid arg) (\<lambda>jid.
            and_then conn (\<lambda>db.
            and_then (ok_or (latest_settlement jid db) ''no settlement recorded for that job'') (\<lambda>s.
            Inr (PrintJson (settlement_json rfc3339 s)))))
          else if command = ''queue'' then and_then conn (\<lambda>db. Inr (PrintJson (queue_json db)))
          else Inl ''unknown command'')"

section \<open>What a statement means\<close>

text \<open>
  The specification: the tokens of an SQL statement. A quoted identifier ends at the next quote that is
  not doubled; words are letters, digits and underscores; every other character but the space is a token.
\<close>

datatype sql_token = Word string | Ident string | Sym char

definition word_char :: "char \<Rightarrow> bool" where
  "word_char c \<longleftrightarrow> name_char c \<and> c \<noteq> CHR ''-''"

function sql_tokens :: "string \<Rightarrow> sql_token list option" where
  "sql_tokens s =
     (case s of
        [] \<Rightarrow> Some []
      | c # r \<Rightarrow>
          if c = CHR '' '' then sql_tokens r
          else if c = CHR 0x22 then
            (case dropWhile (\<lambda>x. x \<noteq> CHR 0x22) r of
               [] \<Rightarrow> None
             | q # r' \<Rightarrow>
                 if r' \<noteq> [] \<and> hd r' = CHR 0x22 then None
                 else map_option (Cons (Ident (takeWhile (\<lambda>x. x \<noteq> CHR 0x22) r))) (sql_tokens r'))
          else if word_char c then
            map_option (Cons (Word (takeWhile word_char s))) (sql_tokens (dropWhile word_char r))
          else map_option (Cons (Sym c)) (sql_tokens r))"
  by pat_completeness auto
termination
proof (relation "measure length", goal_cases)
  case (3 s c r q r')
  then have "length (q # r') \<le> length r" by (metis length_dropWhile_le)
  then show ?case using 3 by simp
qed (auto simp: le_imp_less_Suc length_dropWhile_le)

declare sql_tokens.simps [simp del]

lemma tokens_space: "sql_tokens (CHR '' '' # r) = sql_tokens r"
  by (subst sql_tokens.simps) simp

lemma tokens_ident:
  assumes "CHR 0x22 \<notin> set v" and "r = [] \<or> hd r \<noteq> CHR 0x22"
  shows "sql_tokens (CHR 0x22 # v @ CHR 0x22 # r) = map_option (Cons (Ident v)) (sql_tokens r)"
proof -
  have "dropWhile (\<lambda>x. x \<noteq> CHR 0x22) (v @ CHR 0x22 # r) = CHR 0x22 # r"
    and "takeWhile (\<lambda>x. x \<noteq> CHR 0x22) (v @ CHR 0x22 # r) = v"
    using assms(1) by (auto simp: dropWhile_append3 takeWhile_tail)
  then show ?thesis using assms(2) by (subst sql_tokens.simps) auto
qed

lemma tokens_word:
  assumes "w \<noteq> []" and "list_all word_char w" and "r = [] \<or> \<not> word_char (hd r)"
  shows "sql_tokens (w @ r) = map_option (Cons (Word w)) (sql_tokens r)"
proof -
  obtain c w' where w: "w = c # w'" using assms(1) by (cases w) auto
  have "dropWhile word_char (w' @ r) = r" "takeWhile word_char (w' @ r) = w'"
    using assms(2,3) w by (cases r; auto simp: list_all_iff dropWhile_append takeWhile_append)+
  moreover have "c \<noteq> CHR '' ''" "c \<noteq> CHR 0x22" using assms(2) w by (auto simp: word_char_def name_char_def is_digit_def)
  ultimately show ?thesis using assms(2) w by (subst sql_tokens.simps) simp
qed

text \<open>
  \<open>reset\<close> drops and creates the database it was given and nothing else: whatever its argument, it is either
  refused, or both statements read back as the fixed words around that one identifier.
\<close>
theorem reset_touches_only_the_named_database:
  "case reset_statements name of
     Inl _ \<Rightarrow> name = [] \<or> \<not> list_all name_char name
   | Inr ss \<Rightarrow> map sql_tokens ss =
       [Some [Word ''DROP'', Word ''DATABASE'', Word ''IF'', Word ''EXISTS'', Ident name, Word ''WITH'', Sym (CHR ''(''),
              Word ''FORCE'', Sym (CHR '')'')],
        Some [Word ''CREATE'', Word ''DATABASE'', Ident name]]"
proof (cases "name = [] \<or> \<not> list_all name_char name")
  case False
  have q: "CHR 0x22 \<notin> set name"
  proof
    assume "CHR 0x22 \<in> set name"
    then have "name_char (CHR 0x22)" using False by (auto simp: list_all_iff)
    then show False by (simp add: name_char_def is_digit_def)
  qed
  have w: "list_all word_char ''DROP''" "list_all word_char ''DATABASE''" "list_all word_char ''IF''"
      "list_all word_char ''EXISTS''" "list_all word_char ''WITH''" "list_all word_char ''FORCE''"
      "list_all word_char ''CREATE''" "\<not> word_char (CHR '' '')" "\<not> word_char (CHR '')'')"
    by code_simp+
  have e: "sql_tokens [] = Some []" by (subst sql_tokens.simps) simp
  have close: "sql_tokens '')'' = Some [Sym (CHR '')'')]"
    using w(9) by (subst sql_tokens.simps) (simp add: e)
  have paren: "sql_tokens ''(FORCE)'' = Some [Sym (CHR ''(''), Word ''FORCE'', Sym (CHR '')'')]"
    using tokens_word [OF _ w(6), of "'')''"] w(9) close
    by (subst sql_tokens.simps) (simp add: word_char_def name_char_def is_digit_def)
  note word = tokens_word [OF _ w(1)] tokens_word [OF _ w(2)] tokens_word [OF _ w(3)] tokens_word [OF _ w(4)]
    tokens_word [OF _ w(5)] tokens_word [OF _ w(7)]
  show ?thesis
    using False
      word(1) [of "'' DATABASE IF EXISTS '' @ [CHR 0x22] @ name @ [CHR 0x22] @ '' WITH (FORCE)''"]
      word(2) [of "'' IF EXISTS '' @ [CHR 0x22] @ name @ [CHR 0x22] @ '' WITH (FORCE)''"]
      word(3) [of "'' EXISTS '' @ [CHR 0x22] @ name @ [CHR 0x22] @ '' WITH (FORCE)''"]
      word(4) [of "'' '' @ [CHR 0x22] @ name @ [CHR 0x22] @ '' WITH (FORCE)''"]
      word(5) [of "'' (FORCE)''"]
      word(6) [of "'' DATABASE '' @ [CHR 0x22] @ name @ [CHR 0x22]"]
      word(2) [of "'' '' @ [CHR 0x22] @ name @ [CHR 0x22]"]
      tokens_ident [OF q, of "'' WITH (FORCE)''"] tokens_ident [OF q, of "[]"]
    by (simp add: reset_statements_def w(8) tokens_space paren e)
qed (auto simp: reset_statements_def)

section \<open>The queue\<close>

text \<open>The states \<open>queue\<close> prints are those that occur, each once with its number of jobs.\<close>

lemma state_as_str_inject [simp]: "state_as_str s = state_as_str t \<longleftrightarrow> s = t"
  by (cases s; cases t) simp_all

lemma insert_states:
  "distinct (map fst cs) \<Longrightarrow> fst ` set m \<inter> state_as_str ` fst ` set cs = {} \<Longrightarrow> sorted (map fst m) \<Longrightarrow>
   mset (foldl (\<lambda>m (st, n). fst (btree_insert (state_as_str st) (f n) m)) m cs)
     = mset m + mset (map (\<lambda>(st, n). (state_as_str st, f n)) cs)"
proof (induction cs arbitrary: m)
  case (Cons x cs)
  obtain st n where x: "x = (st, n)" by (cases x)
  have new: "state_as_str st \<notin> fst ` set m" using Cons.prems(2) x by auto
  let ?m = "fst (btree_insert (state_as_str st) (f n) m)"
  have ms: "mset ?m = add_mset (state_as_str st, f n) (mset m)" by (rule btree_insert_new [OF new])
  then have "set ?m = insert (state_as_str st, f n) (set m)" by (metis set_mset_add_mset_insert set_mset_mset)
  then have "fst ` set ?m \<inter> state_as_str ` fst ` set cs = {}"
    using Cons.prems(1,2) x by (auto simp: image_iff)
  from Cons.IH [OF _ this btree_insert_sorted [OF Cons.prems(3) new]] Cons.prems(1) ms show ?case
    by (simp add: x)
qed simp

theorem queue_prints_every_state:
  "mset (queue_states db) = mset (map (\<lambda>st. (state_as_str st, int_json (int (length (filter (\<lambda>r. j_state r = st) (jobs_tbl db))))))
     (filter (\<lambda>st. st \<in> j_state ` set (jobs_tbl db)) all_states))"
proof -
  have d: "distinct (map fst (state_counts db))"
    unfolding state_counts_def all_states_def by (auto simp: distinct_map_filter)
  have "state_counts db = map (\<lambda>st. (st, length (filter (\<lambda>r. j_state r = st) (jobs_tbl db))))
      (filter (\<lambda>st. st \<in> j_state ` set (jobs_tbl db)) all_states)"
    unfolding state_counts_def filter_map o_def by (auto simp: filter_empty_conv image_iff intro!: arg_cong2 [of _ _ _ _ map] filter_cong)
  then show ?thesis
    using insert_states [OF d, of "[]" "\<lambda>n. int_json (int n)"] by (simp add: queue_states_def o_def)
qed

end
