(* ===== verification/Tasks.thy ===== *)
theory Tasks
  imports Dray_Prelude
begin

text \<open>
  What the worker and the relayer build their concurrency from: the shutdown signal, a watch channel with
  its handle, in \<open>crates/dray-worker/src/worker.rs\<close> and \<open>crates/dray-relayer/src/relayer.rs\<close>, the guard of
  a spawned task in \<open>crates/dray-worker/src/task.rs\<close>, and the task of \<open>main.rs\<close> that turns the signals of
  the operating system into a request to stop.
\<close>

section \<open>The shutdown signal\<close>

text \<open>The channel holds the last value sent and counts the handles (senders) that are left.\<close>

record channel =
  ch_value :: bool
  ch_senders :: nat

definition shutdown :: channel where
  "shutdown = \<lparr> ch_value = False, ch_senders = 1 \<rparr>"

definition trigger :: "channel \<Rightarrow> channel" where
  "trigger ch = ch\<lparr> ch_value := True \<rparr>"

definition clone_handle :: "channel \<Rightarrow> channel" where
  "clone_handle ch = ch\<lparr> ch_senders := Suc (ch_senders ch) \<rparr>"

definition drop_handle :: "channel \<Rightarrow> channel" where
  "drop_handle ch = ch\<lparr> ch_senders := ch_senders ch - 1 \<rparr>"

definition is_requested :: "channel \<Rightarrow> bool" where
  "is_requested ch \<longleftrightarrow> ch_value ch"

text \<open>
  The loop of \<open>requested\<close>, over the channel as it is each time the loop looks at it: whether it has
  returned. It looks again only when the channel changed.
\<close>

fun requested :: "channel list \<Rightarrow> bool" where
  "requested [] = False"
| "requested (ch # chs) =
     (if ch_value ch then True
      else if ch_senders ch = 0 then True
      else requested chs)"

abbreviation stop_seen :: "channel \<Rightarrow> bool" where
  "stop_seen ch \<equiv> requested [ch]"

text \<open>What the holders of a handle can do to the channel.\<close>

inductive channel_step :: "channel \<Rightarrow> channel \<Rightarrow> bool" where
  triggered: "0 < ch_senders ch \<Longrightarrow> channel_step ch (trigger ch)"
| cloned: "0 < ch_senders ch \<Longrightarrow> channel_step ch (clone_handle ch)"
| dropped: "0 < ch_senders ch \<Longrightarrow> channel_step ch (drop_handle ch)"

lemmas channel_defs = trigger_def clone_handle_def drop_handle_def is_requested_def

lemma channel_step_keeps:
  assumes "channel_step ch ch'"
  shows "is_requested ch \<Longrightarrow> is_requested ch'" and "0 < ch_senders ch"
  using assms by (auto elim!: channel_step.cases simp: channel_defs)

text \<open>A channel whose last handle was dropped stays as it is; both questions are then fixed.\<close>

definition abandoned :: "channel \<Rightarrow> bool" where
  "abandoned ch \<longleftrightarrow> \<not> ch_value ch \<and> ch_senders ch = 0"

lemma abandoned_fixed: "abandoned ch \<Longrightarrow> \<not> channel_step ch ch'"
  by (auto simp: abandoned_def elim: channel_step.cases)

lemma abandoned_answers: "abandoned ch \<Longrightarrow> stop_seen ch \<and> \<not> is_requested ch"
  by (simp add: abandoned_def is_requested_def)

section \<open>Signals of the operating system\<close>

text \<open>How the wait of \<open>await_signals\<close> ends on Unix.\<close>

datatype signal_end = NoTermListener | TermReceived | Interrupted | NoInterruptListener

text \<open>The function owns the handle, so its return drops it.\<close>

fun await_signals :: "signal_end \<Rightarrow> channel \<Rightarrow> channel" where
  "await_signals NoTermListener ch = drop_handle ch"
| "await_signals TermReceived ch = drop_handle (trigger ch)"
| "await_signals Interrupted ch = drop_handle (trigger ch)"
| "await_signals NoInterruptListener ch = drop_handle (trigger ch)"

lemma await_signals_shutdown:
  shows "stop_seen (await_signals e shutdown)"
    and "is_requested (await_signals e shutdown) \<longleftrightarrow> e \<noteq> NoTermListener"
    and "abandoned (await_signals e shutdown) \<longleftrightarrow> e = NoTermListener"
proof -
  show "stop_seen (await_signals e shutdown)" by (cases e) (simp_all add: shutdown_def channel_defs)
  show "is_requested (await_signals e shutdown) \<longleftrightarrow> e \<noteq> NoTermListener"
    by (cases e) (simp_all add: shutdown_def channel_defs)
  show "abandoned (await_signals e shutdown) \<longleftrightarrow> e = NoTermListener"
    by (cases e) (simp_all add: shutdown_def channel_defs abandoned_def)
qed

section \<open>Guarded tasks\<close>

text \<open>
  A task behind its guard: running, with what it is about to do, finished by itself, or gone with its
  guard. There is no way to run without a guard.
\<close>

datatype 'p task = Live 'p | TaskEnded | Dropped

definition spawn_task :: "'p \<Rightarrow> 'p task" where
  "spawn_task p = Live p"

definition drop_guard :: "'p task \<Rightarrow> 'p task" where
  "drop_guard t = Dropped"

text \<open>Awaiting \<open>handle\<close> returns once the task finished.\<close>

fun handle_ready :: "'p task \<Rightarrow> bool" where
  "handle_ready TaskEnded = True"
| "handle_ready _ = False"

end
