(* ===== verification/Worker_Process.thy ===== *)
theory Worker_Process
  imports Lease_Safety Tasks
begin

text \<open>
  A worker process in small steps: \<open>run\<close> and \<open>attempt\<close> of \<open>crates/dray-worker/src/worker.rs\<close> cut at every
  point where they wait, beside the tasks they spawn, the shutdown signal and everything other processes
  do. The functions of \<open>Worker\<close> are the same code without the interleaving; here they are shown to be runs
  of this process, and what every interleaving keeps is proved.
\<close>

section \<open>The state of a process\<close>

text \<open>Where the main task stands: each point is a wait, or a look at the channel.\<close>

datatype worker_pc =
    P_Top
  | P_Leasing
  | P_Leased job
  | P_HandBack job
  | P_Sleeping
  | P_Begin job
  | P_Mirror job
  | P_Proving job
  | P_Grace job
  | P_Record job "prove_error + proven"
  | P_Release job
  | P_Forget job outcome
  | P_Return job outcome
  | P_Done

text \<open>Between two ticks the heartbeat waits, or has renewed the lease and is about to mirror it.\<close>

datatype beat = Ticking | Renewed

record 'r process =
  pr_pc :: worker_pc
  pr_channel :: channel
  pr_heartbeat :: "(uuid \<times> beat) task"
  pr_reaper :: "unit task"
  pr_sampler :: "unit task"
  pr_outcomes :: "outcome list"
  pr_world :: "'r worker_state"

definition start_run :: "channel \<Rightarrow> 'r worker_state \<Rightarrow> 'r process" where
  "start_run ch s =
     \<lparr> pr_pc = P_Top, pr_channel = ch, pr_heartbeat = Dropped, pr_reaper = spawn_task (),
       pr_sampler = spawn_task (), pr_outcomes = [], pr_world = s \<rparr>"

text \<open>The job an attempt is under way for.\<close>

fun attempting :: "worker_pc \<Rightarrow> uuid option" where
  "attempting (P_Begin j) = Some (j_id j)"
| "attempting (P_Mirror j) = Some (j_id j)"
| "attempting (P_Proving j) = Some (j_id j)"
| "attempting (P_Grace j) = Some (j_id j)"
| "attempting (P_Record j _) = Some (j_id j)"
| "attempting (P_Release j) = Some (j_id j)"
| "attempting (P_Forget j _) = Some (j_id j)"
| "attempting (P_Return j _) = Some (j_id j)"
| "attempting _ = None"

section \<open>The steps\<close>

text \<open>
  What one step of the main task learns: the answer of the database, the rows others have locked, whether
  the proof is done and with which world, and whether the timer it waits for has elapsed.
\<close>

record main_obs =
  mo_call :: store_obs
  mo_locked :: "uuid list"
  mo_done :: bool
  mo_elapsed :: bool
  mo_prover :: prover_world

definition goto :: "worker_pc \<Rightarrow> 'r process \<Rightarrow> 'r process" where
  "goto pc p = p\<lparr> pr_pc := pc \<rparr>"

text \<open>\<open>run\<close> returns, and drops the guards of its two tasks.\<close>

definition leave_run :: "'r process \<Rightarrow> 'r process" where
  "leave_run p = p\<lparr> pr_pc := P_Done, pr_reaper := drop_guard (pr_reaper p), pr_sampler := drop_guard (pr_sampler p) \<rparr>"

text \<open>\<open>attempt\<close> returns, drops the guard of the heartbeat, and its outcome is counted and kept.\<close>

definition leave_attempt :: "outcome \<Rightarrow> 'r process \<Rightarrow> 'r process" where
  "leave_attempt out p =
     (let s = pr_world p in
      p\<lparr> pr_pc := P_Top, pr_heartbeat := drop_guard (pr_heartbeat p), pr_outcomes := pr_outcomes p @ [out],
         pr_world := s\<lparr> ws_metrics := record_outcome_metric (outcome_label out) (ws_metrics s) \<rparr> \<rparr>)"

text \<open>A call to the store from the main task.\<close>

definition main_call ::
  "main_obs \<Rightarrow> (db \<Rightarrow> store_error + 'a \<times> db) \<Rightarrow> 'r process \<Rightarrow> ('a option \<Rightarrow> worker_pc) \<Rightarrow> 'r process" where
  "main_call ob f p k =
     (case on_store (o_up (mo_call ob)) f (pr_world p) of (x, s) \<Rightarrow> p\<lparr> pr_world := s, pr_pc := k x \<rparr>)"

definition hand_back :: "'r worker \<Rightarrow> main_obs \<Rightarrow> job \<Rightarrow> db \<Rightarrow> store_error + job \<times> db" where
  "hand_back w ob j = release_lease (j_id j) (wc_worker_id (w_config w)) (o_now (mo_call ob))"

text \<open>\<open>None\<close> while the main task waits.\<close>

fun main_step :: "'r worker \<Rightarrow> main_obs \<Rightarrow> worker_pc \<Rightarrow> 'r process \<Rightarrow> 'r process option" where
  "main_step w ob P_Top p =
     Some (if is_requested (pr_channel p) then leave_run p else goto P_Leasing p)"
| "main_step w ob P_Leasing p =
     Some (main_call ob (lease_next (mo_locked ob) (wc_worker_id (w_config w))
         (interval_of (wc_lease_ttl (w_config w))) (o_now (mo_call ob))) p
       (\<lambda>x. case x of Some (Some j) \<Rightarrow> P_Leased j | _ \<Rightarrow> P_Sleeping))"
| "main_step w ob (P_Leased j) p =
     Some (goto (if is_requested (pr_channel p) then P_HandBack j else P_Begin j) p)"
| "main_step w ob (P_HandBack j) p =
     Some (leave_run (main_call ob (hand_back w ob j) p (\<lambda>_. P_Done)))"
| "main_step w ob P_Sleeping p =
     (if stop_seen (pr_channel p) then Some (leave_run p)
      else if mo_elapsed ob then Some (goto P_Top p)
      else None)"
| "main_step w ob (P_Begin j) p =
     Some (main_call ob (begin_proving (j_id j) (wc_worker_id (w_config w)) (o_now (mo_call ob))) p
       (\<lambda>x. case x of Some _ \<Rightarrow> P_Mirror j | None \<Rightarrow> P_Return j (LeaseLost (j_id j))))"
| "main_step w ob (P_Mirror j) p =
     Some (p\<lparr> pr_world := on_mirror w (\<lambda>R. record_lease R (j_id j) (wc_worker_id (w_config w))
                             (wc_lease_ttl (w_config w))) (pr_world p),
              pr_heartbeat := spawn_task (j_id j, Ticking), pr_pc := P_Proving j \<rparr>)"
| "main_step w ob (P_Proving j) p =
     (if handle_ready (pr_heartbeat p) then Some (goto (P_Forget j (LeaseLost (j_id j))) p)
      else if mo_done ob then Some (goto (P_Record j (prove (mo_prover ob) (w_prover w) (j_circuit_id j)
                                                       (j_inputs j) (scratch_label j))) p)
      else if stop_seen (pr_channel p) then Some (goto (P_Grace j) p)
      else None)"
| "main_step w ob (P_Grace j) p =
     (if mo_done ob then Some (goto (P_Record j (prove (mo_prover ob) (w_prover w) (j_circuit_id j)
                                                  (j_inputs j) (scratch_label j))) p)
      else if mo_elapsed ob then Some (goto (P_Release j) p)
      else None)"
| "main_step w ob (P_Record j result) p =
     (case record_result w (mo_call ob) j result (pr_world p) of
        (out, s) \<Rightarrow> Some (p\<lparr> pr_world := s, pr_pc := P_Forget j out \<rparr>))"
| "main_step w ob (P_Release j) p =
     Some (main_call ob (hand_back w ob j) p (\<lambda>_. P_Forget j (Abandoned (j_id j))))"
| "main_step w ob (P_Forget j out) p =
     Some (p\<lparr> pr_world := on_mirror w (\<lambda>R. forget R (j_id j)) (pr_world p), pr_pc := P_Return j out \<rparr>)"
| "main_step w ob (P_Return j out) p = Some (leave_attempt out p)"
| "main_step w ob P_Done p = None"

text \<open>The heartbeat, cut between the renewal in the tables and the one in the mirror.\<close>

definition renew_step :: "'r worker \<Rightarrow> store_obs \<Rightarrow> uuid \<Rightarrow> 'r process \<Rightarrow> 'r process" where
  "renew_step w ob jid p =
     (case on_store (o_up ob) (renew_lease jid (wc_worker_id (w_config w))
             (interval_of (wc_lease_ttl (w_config w))) (o_now ob)) (pr_world p) of
        (x, s) \<Rightarrow> p\<lparr> pr_world := s,
                      pr_heartbeat := (case x of Some True \<Rightarrow> Live (jid, Renewed) | Some False \<Rightarrow> TaskEnded
                                        | None \<Rightarrow> Live (jid, Ticking)) \<rparr>)"

definition mirror_step :: "'r worker \<Rightarrow> uuid \<Rightarrow> 'r process \<Rightarrow> 'r process" where
  "mirror_step w jid p =
     p\<lparr> pr_world := on_mirror w (\<lambda>R. record_lease R jid (wc_worker_id (w_config w)) (wc_lease_ttl (w_config w)))
                      (pr_world p),
        pr_heartbeat := Live (jid, Ticking) \<rparr>"

datatype 'r label =
    L_Main main_obs
  | L_Renew store_obs
  | L_Mirror
  | L_Reap store_obs "uuid list"
  | L_Sample store_obs
  | L_Channel
  | L_Others "db \<Rightarrow> db" "'r \<Rightarrow> 'r"

inductive process_step :: "'r worker \<Rightarrow> 'r process \<Rightarrow> 'r label \<Rightarrow> 'r process \<Rightarrow> bool"
  for w :: "'r worker" where
  main: "main_step w ob (pr_pc p) p = Some p' \<Longrightarrow> process_step w p (L_Main ob) p'"
| renew: "pr_heartbeat p = Live (jid, Ticking) \<Longrightarrow> process_step w p (L_Renew ob) (renew_step w ob jid p)"
| mirror: "pr_heartbeat p = Live (jid, Renewed) \<Longrightarrow> process_step w p L_Mirror (mirror_step w jid p)"
| reap: "pr_reaper p = Live () \<Longrightarrow>
    process_step w p (L_Reap ob locked) (p\<lparr> pr_world := worker_reap_tick w ob locked (pr_world p) \<rparr>)"
| sample: "pr_sampler p = Live () \<Longrightarrow>
    process_step w p (L_Sample ob) (p\<lparr> pr_world := sample_tick ob (pr_world p) \<rparr>)"
| signal: "channel_step (pr_channel p) ch \<Longrightarrow> process_step w p L_Channel (p\<lparr> pr_channel := ch \<rparr>)"
| others: "process_step w p (L_Others f g)
    (p\<lparr> pr_world := (pr_world p)\<lparr> ws_db := f (ws_db (pr_world p)), ws_mirror := g (ws_mirror (pr_world p)) \<rparr> \<rparr>)"

inductive_cases process_stepE: "process_step w p l p'"
inductive_cases main_stepE: "process_step w p (L_Main ob) p'"

inductive process_run :: "'r worker \<Rightarrow> 'r process \<Rightarrow> 'r label list \<Rightarrow> 'r process \<Rightarrow> bool"
  for w :: "'r worker" where
  run_nil: "process_run w p [] p"
| run_cons: "process_step w p l p1 \<Longrightarrow> process_run w p1 ls p' \<Longrightarrow> process_run w p (l # ls) p'"

text \<open>The two halves of a tick of the heartbeat are the tick of \<open>Worker\<close>.\<close>

lemma heartbeat_tick_halves:
  "worker_heartbeat_tick w ob jid (pr_world p) =
     (let q = renew_step w ob jid p in
      case pr_heartbeat q of
        Live (i, Renewed) \<Rightarrow> (True, pr_world (mirror_step w jid q))
      | Live (i, Ticking) \<Rightarrow> (True, pr_world q)
      | _ \<Rightarrow> (False, pr_world q))"
  by (auto simp: worker_heartbeat_tick_def renew_step_def mirror_step_def Let_def
      split: prod.split option.split bool.split)

lemma process_run_append:
  "process_run w p ls q \<Longrightarrow> process_run w q ls' r \<Longrightarrow> process_run w p (ls @ ls') r"
  by (induction rule: process_run.induct) (auto intro: process_run.intros)

text \<open>A run of the main task alone, over what it observes.\<close>

fun main_run :: "'r worker \<Rightarrow> main_obs list \<Rightarrow> 'r process \<Rightarrow> 'r process option" where
  "main_run w [] p = Some p"
| "main_run w (ob # obs) p = (case main_step w ob (pr_pc p) p of None \<Rightarrow> None | Some q \<Rightarrow> main_run w obs q)"

lemma main_run_is_run: "main_run w obs p = Some q \<Longrightarrow> process_run w p (map L_Main obs) q"
  by (induction obs arbitrary: p) (auto split: option.splits intro: process_run.intros process_step.main)

lemma run_one: "process_step w p l q \<Longrightarrow> process_run w p [l] q"
  by (auto intro: process_run.intros)

text \<open>An observation, with every timer elapsed.\<close>

definition obs_of :: "store_obs \<Rightarrow> uuid list \<Rightarrow> bool \<Rightarrow> prover_world \<Rightarrow> main_obs" where
  "obs_of ob locked finished pw =
     \<lparr> mo_call = ob, mo_locked = locked, mo_done = finished, mo_elapsed = True, mo_prover = pw \<rparr>"

section \<open>A worker with one job in the queue\<close>

definition idle_state :: "db \<Rightarrow> (string \<Rightarrow> string option) worker_state" where
  "idle_state db = \<lparr> ws_db = db, ws_mirror = Map.empty, ws_metrics = new_metrics ''w'' \<rparr>"

lemma default_ttl [simp]:
  "interval_of (wc_lease_ttl (w_config stalled_worker)) = 180000000" "wc_worker_id (w_config stalled_worker) = ''w''"
  by (simp_all add: stalled_worker_def new_worker_config_def interval_of_def)

definition slow_proof :: "main_obs" where
  "slow_proof = obs_of \<lparr> o_now = 5, o_read_up = True, o_up = True, o_jitter = None \<rparr> [] False idle_world"

lemma proving_reached:
  assumes "pr_pc p = P_Top" and "\<not> is_requested (pr_channel p)"
    and "lease_next [] ''w'' 180000000 5 (ws_db (pr_world p)) = Inr (Some j, db1)"
    and "begin_proving (j_id j) ''w'' 5 db1 = Inr (x, db2)"
  shows "\<exists>q. main_run stalled_worker (replicate 5 slow_proof) p = Some q \<and> pr_pc q = P_Proving j \<and>
    pr_heartbeat q = Live (j_id j, Ticking) \<and> pr_channel q = pr_channel p \<and> ws_db (pr_world q) = db2 \<and>
    pr_outcomes q = pr_outcomes p"
  using assms
  by (simp add: is_requested_def numeral_eq_Suc slow_proof_def obs_of_def main_call_def goto_def on_store_def
      store_call_def spawn_task_def)

lemma first_job_proving:
  "\<exists>p. process_run stalled_worker (start_run shutdown (idle_state queued_db)) (map L_Main (replicate 5 slow_proof)) p \<and>
     (\<exists>j. pr_pc p = P_Proving j \<and> j_id j = 7) \<and> pr_heartbeat p = Live (7, Ticking) \<and>
     pr_channel p = shutdown \<and> pr_outcomes p = []"
proof -
  have "case lease_next [] ''w'' 180000000 5 queued_db of
      Inr (Some j, db) \<Rightarrow> j_id j = 7 \<and> (\<not> isl (begin_proving 7 ''w'' 5 db))
    | _ \<Rightarrow> False"
    by code_simp
  then obtain j db1 x db2 where l: "lease_next [] ''w'' 180000000 5 queued_db = Inr (Some j, db1)" "j_id j = 7"
      "begin_proving (j_id j) ''w'' 5 db1 = Inr (x, db2)"
    by (auto simp: isl_def split: sum.splits option.splits prod.splits) (metis sum.exhaust surj_pair)
  let ?p = "start_run shutdown (idle_state queued_db)"
  have "pr_pc ?p = P_Top" "\<not> is_requested (pr_channel ?p)" "ws_db (pr_world ?p) = queued_db"
    by (simp_all add: start_run_def idle_state_def is_requested_def shutdown_def)
  from proving_reached [OF this(1,2), unfolded this(3), OF l(1,3)] l(2) main_run_is_run show ?thesis
    by (fastforce simp: start_run_def)
qed

section \<open>No task outlives its owner\<close>

text \<open>
  The invariant: the tasks of \<open>run\<close> live while it does, and a heartbeat exists only within the attempt
  it was spawned for, from the moment proving may start.
\<close>

definition tasks_owned :: "'r process \<Rightarrow> bool" where
  "tasks_owned p \<longleftrightarrow>
     (case pr_heartbeat p of
        Live (jid, _) \<Rightarrow> attempting (pr_pc p) = Some jid
      | TaskEnded \<Rightarrow> attempting (pr_pc p) \<noteq> None
      | Dropped \<Rightarrow> True) \<and>
     (case pr_pc p of
        P_Done \<Rightarrow> pr_reaper p = Dropped \<and> pr_sampler p = Dropped
      | P_Begin j \<Rightarrow> pr_heartbeat p = Dropped
      | P_Mirror j \<Rightarrow> pr_heartbeat p = Dropped
      | P_Forget j out \<Rightarrow> outcome_job out = j_id j
      | P_Return j out \<Rightarrow> outcome_job out = j_id j
      | _ \<Rightarrow> True)"

lemma tasks_owned_start: "tasks_owned (start_run ch s)"
  by (simp add: tasks_owned_def start_run_def)

lemma main_call_parts [simp]:
  "pr_channel (main_call ob f p k) = pr_channel p" "pr_heartbeat (main_call ob f p k) = pr_heartbeat p"
  "pr_reaper (main_call ob f p k) = pr_reaper p" "pr_sampler (main_call ob f p k) = pr_sampler p"
  "pr_outcomes (main_call ob f p k) = pr_outcomes p"
  by (simp_all add: main_call_def split: prod.split)

lemma main_call_pc: "pr_pc (main_call ob f p k) = k (fst (on_store (o_up (mo_call ob)) f (pr_world p)))"
  by (simp add: main_call_def split: prod.split)

lemmas main_defs = goto_def leave_run_def leave_attempt_def Let_def spawn_task_def drop_guard_def main_call_pc

lemma record_result_job: "record_result w ob j result s = (out, s') \<Longrightarrow> outcome_job out = j_id j"
  using record_result_recorded by blast

lemma main_step_owned:
  assumes "main_step w ob (pr_pc p) p = Some p'" and "tasks_owned p"
  shows "tasks_owned p'"
proof (cases "pr_pc p")
  case (P_Record j result)
  with assms show ?thesis
    by (auto simp: tasks_owned_def split: prod.splits task.splits dest!: record_result_job)
qed (use assms in \<open>auto simp: tasks_owned_def main_defs split: if_splits option.splits task.splits\<close>)

lemma tasks_owned_step: "process_step w p l p' \<Longrightarrow> tasks_owned p \<Longrightarrow> tasks_owned p'"
proof (induction rule: process_step.induct)
  case (main ob p p')
  then show ?case by (rule main_step_owned)
next
  case (renew p jid ob)
  then show ?case by (auto simp: tasks_owned_def renew_step_def split: prod.splits option.splits bool.splits worker_pc.splits)
next
  case (mirror p jid)
  then show ?case by (auto simp: tasks_owned_def mirror_step_def split: worker_pc.splits)
qed (simp_all add: tasks_owned_def cong: task.case_cong worker_pc.case_cong)

lemma tasks_owned_run: "process_run w p ls p' \<Longrightarrow> tasks_owned p \<Longrightarrow> tasks_owned p'"
  by (induction rule: process_run.induct) (auto dest: tasks_owned_step)

lemma renew_step_other: "jid \<noteq> i \<Longrightarrow> find_job i (ws_db (pr_world (renew_step w ob jid p))) = find_job i (ws_db (pr_world p))"
  by (auto simp: renew_step_def split: prod.splits dest!: on_store_cases renew_other [where jid = i])

text \<open>
  Claim C7. No task outlives its owner. In every reachable state, whatever the order of the steps of the
  main task, the heartbeat, the reaper, the sampler, the signals and other processes, a heartbeat that runs
  is that of the attempt under way, a renewal touches no other job, and once \<open>run\<close> has returned the process
  makes no step that could change the tables, the mirror or the metrics.
\<close>
theorem no_task_outlives_its_owner:
  assumes "process_run w (start_run ch s) ls p"
  shows "(\<forall>jid b. pr_heartbeat p = Live (jid, b) \<longrightarrow> attempting (pr_pc p) = Some jid) \<and>
    (\<forall>ob p' i. process_step w p (L_Renew ob) p' \<longrightarrow> attempting (pr_pc p) \<noteq> Some i \<longrightarrow>
       find_job i (ws_db (pr_world p')) = find_job i (ws_db (pr_world p))) \<and>
    (pr_pc p = P_Done \<longrightarrow> (\<forall>l p'. process_step w p l p' \<longrightarrow>
       (\<exists>f g. l = L_Others f g) \<or> pr_world p' = pr_world p))"
proof -
  have owned: "tasks_owned p" using tasks_owned_run [OF assms tasks_owned_start] .
  then have live: "pr_heartbeat p = Live (jid, b) \<Longrightarrow> attempting (pr_pc p) = Some jid" for jid b
    by (simp add: tasks_owned_def)
  have "find_job i (ws_db (pr_world p')) = find_job i (ws_db (pr_world p))"
    if "process_step w p (L_Renew ob) p'" "attempting (pr_pc p) \<noteq> Some i" for ob p' i
    using that live by (auto elim!: process_stepE intro: renew_step_other)
  moreover have "(\<exists>f g. l = L_Others f g) \<or> pr_world p' = pr_world p"
    if "pr_pc p = P_Done" "process_step w p l p'" for l p'
    using that(2) owned that(1) by (auto simp: tasks_owned_def elim!: process_stepE)
  ultimately show ?thesis using live by blast
qed

text \<open>The job of the queue is being proved, under its heartbeat.\<close>

theorem no_task_outlives_its_owner_witness:
  "\<exists>ls p. process_run stalled_worker (start_run shutdown (idle_state queued_db)) ls p \<and>
     pr_heartbeat p = Live (7, Ticking) \<and> attempting (pr_pc p) = Some 7 \<and>
     (\<forall>ob p'. process_step stalled_worker p (L_Renew ob) p' \<longrightarrow>
        find_job 8 (ws_db (pr_world p')) = find_job 8 (ws_db (pr_world p)))"
proof -
  obtain ls p where p: "process_run stalled_worker (start_run shutdown (idle_state queued_db)) ls p"
    "pr_heartbeat p = Live (7, Ticking)" using first_job_proving by blast
  from no_task_outlives_its_owner [OF p(1)] p(2) have "attempting (pr_pc p) = Some 7" by blast
  then have "attempting (pr_pc p) \<noteq> Some 8" by simp
  with no_task_outlives_its_owner [OF p(1)] \<open>attempting (pr_pc p) = Some 7\<close> p show ?thesis by blast
qed

section \<open>Stopping\<close>

text \<open>How many steps of its own the main task is from the end, once shutdown was requested.\<close>

fun steps_left :: "worker_pc \<Rightarrow> nat" where
  "steps_left P_Done = 0"
| "steps_left P_Top = 1"
| "steps_left P_Sleeping = 1"
| "steps_left (P_HandBack _) = 1"
| "steps_left (P_Leased _) = 2"
| "steps_left P_Leasing = 3"
| "steps_left (P_Return _ _) = 2"
| "steps_left (P_Forget _ _) = 3"
| "steps_left (P_Record _ _) = 4"
| "steps_left (P_Release _) = 4"
| "steps_left (P_Grace _) = 5"
| "steps_left (P_Proving _) = 6"
| "steps_left (P_Mirror _) = 7"
| "steps_left (P_Begin _) = 8"

fun is_main :: "'r label \<Rightarrow> bool" where
  "is_main (L_Main _) = True"
| "is_main _ = False"

text \<open>Outcomes so far, with the one of the attempt under way.\<close>

definition outcomes_due :: "'r process \<Rightarrow> nat" where
  "outcomes_due p = length (pr_outcomes p) + (case attempting (pr_pc p) of None \<Rightarrow> 0 | Some _ \<Rightarrow> 1)"

lemma main_step_stopping:
  assumes "main_step w ob (pr_pc p) p = Some p'" and "is_requested (pr_channel p)"
  shows "steps_left (pr_pc p') < steps_left (pr_pc p) \<and> pr_channel p' = pr_channel p \<and>
    outcomes_due p' = outcomes_due p"
proof (cases "pr_pc p")
  case (P_Record j result)
  with assms show ?thesis by (auto simp: outcomes_due_def split: prod.splits)
qed (use assms in \<open>auto simp: main_defs outcomes_due_def is_requested_def split: if_splits option.splits\<close>)

lemma other_step_stopping:
  assumes "process_step w p l p'" and "\<not> is_main l"
  shows "pr_pc p' = pr_pc p \<and> pr_outcomes p' = pr_outcomes p \<and>
    (is_requested (pr_channel p) \<longrightarrow> is_requested (pr_channel p'))"
  using assms
  by (auto elim!: process_stepE simp: renew_step_def mirror_step_def channel_step_keeps split: prod.splits)

lemma stopping_run:
  "process_run w p ls p' \<Longrightarrow> is_requested (pr_channel p) \<Longrightarrow>
   length (filter is_main ls) + steps_left (pr_pc p') \<le> steps_left (pr_pc p) \<and>
   is_requested (pr_channel p') \<and> outcomes_due p' = outcomes_due p"
proof (induction rule: process_run.induct)
  case (run_cons p l p1 ls p')
  show ?case
  proof (cases "is_main l")
    case True
    then obtain ob where "main_step w ob (pr_pc p) p = Some p1"
      using run_cons.hyps(1) by (auto elim!: main_stepE is_main.elims)
    from main_step_stopping [OF this run_cons.prems] run_cons.IH run_cons.prems True show ?thesis by auto
  next
    case False
    from other_step_stopping [OF run_cons.hyps(1) this] run_cons.IH run_cons.prems False show ?thesis
      by (auto simp: outcomes_due_def)
  qed
qed simp

lemma main_never_stuck: "pr_pc p \<noteq> P_Done \<Longrightarrow> \<exists>ob p'. main_step w ob (pr_pc p) p = Some p'"
proof -
  let ?ob = "\<lparr> mo_call = \<lparr> o_now = 0, o_read_up = True, o_up = True, o_jitter = None \<rparr>, mo_locked = [],
    mo_done = True, mo_elapsed = True, mo_prover = idle_world \<rparr>"
  assume "pr_pc p \<noteq> P_Done"
  then have "\<exists>p'. main_step w ?ob (pr_pc p) p = Some p'"
    by (cases "pr_pc p") (auto split: prod.split)
  then show ?thesis by blast
qed

text \<open>
  Claim C9. A worker told to stop stops. From wherever it is, it takes at most eight more steps of its own,
  whatever its tasks and other processes do in between; it never gets stuck before it has returned, since
  each of its waits ends with the proof or a timer; and it begins no attempt any more: the outcomes it
  reports are those it had and the one of an attempt that was under way.
\<close>
theorem requested_worker_stops:
  assumes "is_requested (pr_channel p)" and "process_run w p ls p'"
  shows "length (filter is_main ls) \<le> 8 \<and> outcomes_due p' = outcomes_due p \<and>
    (pr_pc p' \<noteq> P_Done \<longrightarrow> (\<exists>ob p''. main_step w ob (pr_pc p') p' = Some p'')) \<and>
    (length (filter is_main ls) = 8 \<longrightarrow> pr_pc p' = P_Done)"
proof -
  have le: "length (filter is_main ls) + steps_left (pr_pc p') \<le> steps_left (pr_pc p)"
    and due: "outcomes_due p' = outcomes_due p"
    using stopping_run [OF assms(2,1)] by blast+
  have "steps_left (pr_pc p) \<le> 8" by (cases "pr_pc p") simp_all
  with le have "length (filter is_main ls) + steps_left (pr_pc p') \<le> 8" by (rule le_trans)
  moreover have "steps_left (pr_pc p') = 0 \<Longrightarrow> pr_pc p' = P_Done" by (cases "pr_pc p'") simp_all
  ultimately show ?thesis using due main_never_stuck by force
qed

text \<open>Told to stop while it proves its first job, the worker hands the job back and returns.\<close>

theorem requested_worker_stops_witness:
  "\<exists>p ls q. process_run stalled_worker p ls q \<and> is_requested (pr_channel p) \<and> attempting (pr_pc p) = Some 7 \<and>
     pr_pc q = P_Done \<and> length (filter is_main ls) \<le> 8 \<and> length (pr_outcomes q) = 1"
proof -
  obtain p :: "(string \<Rightarrow> string option) process" and j where p: "pr_pc p = P_Proving j" "j_id j = 7" "pr_heartbeat p = Live (7, Ticking)"
    "pr_channel p = shutdown" "pr_outcomes p = []" using first_job_proving by blast
  let ?p = "p\<lparr> pr_channel := trigger shutdown \<rparr>"
  have "\<exists>q. main_run stalled_worker (replicate 6 slow_proof) ?p = Some q \<and> pr_pc q = P_Done"
    using p by (simp add: numeral_eq_Suc slow_proof_def obs_of_def main_defs trigger_def is_requested_def)
  then obtain q where q: "process_run stalled_worker ?p (map L_Main (replicate 6 slow_proof)) q" "pr_pc q = P_Done"
    using main_run_is_run by blast
  have "is_requested (pr_channel ?p)" by (simp add: trigger_def is_requested_def)
  note requested_worker_stops [OF this q(1)]
  moreover have "outcomes_due ?p = 1" using p by (simp add: outcomes_due_def)
  moreover have "outcomes_due q = length (pr_outcomes q)" using q(2) by (simp add: outcomes_due_def)
  ultimately show ?thesis using q p by (intro exI conjI) (assumption, simp_all add: trigger_def is_requested_def)
qed

end
