(* ===== verification/Worker_Runs.thy ===== *)
theory Worker_Runs
  imports Worker_Process
begin

text \<open>
  Runs of a worker process: the turns of \<open>Worker\<close> are runs of it, every attempt is counted in all of them,
  what a dropped shutdown handle does, and the race between the last heartbeat and the end of an attempt.
\<close>

section \<open>A turn of the loop is a run\<close>

abbreviation resting :: "'r process \<Rightarrow> bool" where
  "resting p \<equiv> pr_pc p = P_Top \<and> pr_heartbeat p = Dropped \<and> 0 < ch_senders (pr_channel p) \<and> \<not> ch_value (pr_channel p)"

text \<open>The observations of a turn, handed to the steps one by one.\<close>

definition lease_obs :: "'r turn_obs \<Rightarrow> main_obs" where
  "lease_obs ob = obs_of \<lparr> o_now = to_now ob, o_read_up = True, o_up = to_up ob, o_jitter = None \<rparr>
     (to_locked ob) False (ao_prover (to_attempt ob))"

abbreviation begin_obs :: "'r attempt_obs \<Rightarrow> main_obs" where
  "begin_obs ob \<equiv> obs_of (ao_begin ob) [] False (ao_prover ob)"

abbreviation end_obs :: "'r attempt_obs \<Rightarrow> bool \<Rightarrow> main_obs" where
  "end_obs ob finished \<equiv> obs_of (ao_end ob) [] finished (ao_prover ob)"

lemmas obs_simps [simp] = obs_of_def lease_obs_def

lemma trigger_run:
  "0 < ch_senders (pr_channel p) \<Longrightarrow> process_run w p [L_Channel] (p\<lparr> pr_channel := trigger (pr_channel p) \<rparr>)"
  by (intro run_one process_step.signal channel_step.triggered)

text \<open>From the point where it proves to the return, in each of the four ways an attempt can end.\<close>

lemma finish_is_run:
  assumes p: "pr_pc p = P_Proving j" "pr_heartbeat p = Live (j_id j, Ticking)"
      "0 < ch_senders (pr_channel p)" "\<not> ch_value (pr_channel p)"
    and lost: "ao_how ob = HeartbeatEnded \<Longrightarrow> \<exists>r. renew_lease (j_id j) (wc_worker_id (w_config w))
      (interval_of (wc_lease_ttl (w_config w))) (o_now (ao_end ob)) (ws_db (pr_world p)) = Inr (False, ws_db (pr_world p))"
    and f: "finish_attempt w ob j (pr_world p) = (out, s)"
  shows "\<exists>ls q. process_run w p ls q \<and> pr_pc q = P_Forget j out \<and> pr_world q = s \<and> pr_outcomes q = pr_outcomes p \<and>
    (ch_value (pr_channel q) \<longrightarrow> ao_how ob = EndedInGrace \<or> ao_how ob = GraceOver) \<and> 0 < ch_senders (pr_channel q)"
proof (cases "ao_how ob")
  case HeartbeatEnded
  let ?ob = "\<lparr> o_now = o_now (ao_end ob), o_read_up = True, o_up = True, o_jitter = None \<rparr>"
  let ?q = "p\<lparr> pr_heartbeat := TaskEnded \<rparr>"
  have "renew_step w ?ob (j_id j) p = ?q"
    using lost [OF HeartbeatEnded] by (simp add: renew_step_def on_store_def store_call_def)
  then have 1: "process_run w p [L_Renew ?ob] ?q" using run_one [OF process_step.renew [OF p(2), of w ?ob]] by simp
  have 2: "process_run w ?q [L_Main (end_obs ob False)] (goto (P_Forget j (LeaseLost (j_id j))) ?q)"
    using p(1) by (intro run_one process_step.main) simp
  have "out = LeaseLost (j_id j)" "s = pr_world p" using f HeartbeatEnded by (simp_all add: finish_attempt_def)
  with process_run_append [OF 1 2] p show ?thesis by (intro exI conjI) (assumption, simp_all add: goto_def)
next
  case ProvingEnded
  then have r: "record_result w (ao_end ob) j (proving w ob j) (pr_world p) = (out, s)"
    using f by (simp add: finish_attempt_def)
  then have "main_run w [end_obs ob True, end_obs ob True] p = Some (p\<lparr> pr_world := s, pr_pc := P_Forget j out \<rparr>)"
    using p by (simp add: goto_def proving_def)
  from main_run_is_run [OF this] p show ?thesis by (intro exI conjI) (assumption, simp_all)
next
  case EndedInGrace
  then have r: "record_result w (ao_end ob) j (proving w ob j) (pr_world p) = (out, s)"
    using f by (simp add: finish_attempt_def)
  let ?t = "p\<lparr> pr_channel := trigger (pr_channel p) \<rparr>"
  have "main_run w [end_obs ob False, end_obs ob True, end_obs ob True] ?t
      = Some (?t\<lparr> pr_world := s, pr_pc := P_Forget j out \<rparr>)"
    using p r by (simp add: goto_def proving_def trigger_def)
  from process_run_append [OF trigger_run [OF p(3)] main_run_is_run [OF this]] p EndedInGrace show ?thesis
    by (intro exI conjI) (assumption, simp_all add: trigger_def)
next
  case GraceOver
  let ?t = "p\<lparr> pr_channel := trigger (pr_channel p) \<rparr>"
  have "main_run w [end_obs ob False, end_obs ob False, end_obs ob False] ?t
      = Some (?t\<lparr> pr_world := s, pr_pc := P_Forget j out \<rparr>)"
    using p f GraceOver
    by (auto simp: goto_def trigger_def finish_attempt_def main_call_def hand_back_def Let_def split: prod.split)
  from process_run_append [OF trigger_run [OF p(3)] main_run_is_run [OF this]] p GraceOver show ?thesis
    by (intro exI conjI) (assumption, simp_all add: trigger_def)
qed

text \<open>The lease of an attempt that is to end with its heartbeat was really taken away.\<close>

definition loss_is_real :: "'r worker \<Rightarrow> 'r attempt_obs \<Rightarrow> job \<Rightarrow> 'r worker_state \<Rightarrow> bool" where
  "loss_is_real w ob j s \<longleftrightarrow>
     (case attempt_begun w ob j s of
        Some s1 \<Rightarrow> ao_how ob = HeartbeatEnded \<longrightarrow>
          renew_lease (j_id j) (wc_worker_id (w_config w)) (interval_of (wc_lease_ttl (w_config w)))
            (o_now (ao_end ob)) (ws_db s1) = Inr (False, ws_db s1)
      | None \<Rightarrow> True)"

definition stops_in :: "'r attempt_obs \<Rightarrow> bool" where
  "stops_in ob \<longleftrightarrow> ao_how ob = EndedInGrace \<or> ao_how ob = GraceOver"

lemma attempt_is_run:
  assumes p: "pr_pc p = P_Begin j" "pr_heartbeat p = Dropped"
      "0 < ch_senders (pr_channel p)" "\<not> ch_value (pr_channel p)"
    and lost: "loss_is_real w ob j (pr_world p)" and a: "attempt w ob j (pr_world p) = (out, s)"
  shows "\<exists>ls q. process_run w p ls q \<and> pr_pc q = P_Top \<and> pr_heartbeat q = Dropped \<and>
    pr_outcomes q = pr_outcomes p @ [out] \<and>
    pr_world q = s\<lparr> ws_metrics := record_outcome_metric (outcome_label out) (ws_metrics s) \<rparr> \<and>
    (ch_value (pr_channel q) \<longrightarrow> stops_in ob) \<and> 0 < ch_senders (pr_channel q)"
proof -
  let ?cfg = "w_config w"
  obtain x s1 where b: "on_store (o_up (ao_begin ob))
      (begin_proving (j_id j) (wc_worker_id ?cfg) (o_now (ao_begin ob))) (pr_world p) = (x, s1)" by fastforce
  show ?thesis
  proof (cases x)
    case None
    have "s1 = pr_world p" using on_store_cases [OF b] None by simp
    then have "main_run w [begin_obs ob, begin_obs ob] p = Some (leave_attempt out (p\<lparr> pr_world := s, pr_pc := P_Return j out \<rparr>))"
      and "s = pr_world p"
      using p a b None by (simp_all add: main_call_def attempt_def attempt_begun_def)
    from main_run_is_run [OF this(1)] this(2) p show ?thesis
      by (intro exI conjI) (assumption, simp_all add: leave_attempt_def drop_guard_def Let_def)
  next
    case (Some y)
    let ?s2 = "on_mirror w (\<lambda>R. record_lease R (j_id j) (wc_worker_id ?cfg) (wc_lease_ttl ?cfg)) s1"
    let ?s3 = "?s2\<lparr> ws_db := ao_others ob (ws_db ?s2), ws_mirror := ao_mirror ob (ws_mirror ?s2) \<rparr>"
    let ?q = "p\<lparr> pr_world := ?s2, pr_heartbeat := Live (j_id j, Ticking), pr_pc := P_Proving j \<rparr>"
    let ?r = "?q\<lparr> pr_world := ?s3 \<rparr>"
    have begun: "attempt_begun w ob j (pr_world p) = Some ?s3"
      using b Some by (simp add: attempt_begun_def Let_def)
    have "main_run w [begin_obs ob, begin_obs ob] p = Some ?q"
      using p b Some by (simp add: main_call_def spawn_task_def)
    note 1 = main_run_is_run [OF this]
    have 2: "process_run w ?q [L_Others (ao_others ob) (ao_mirror ob)] ?r"
      using run_one [OF process_step.others [of w ?q "ao_others ob" "ao_mirror ob"]] by simp
    obtain s4 where f: "finish_attempt w ob j ?s3 = (out, s4)"
      and s: "s = on_mirror w (\<lambda>R. forget R (j_id j)) s4"
      using a begun by (auto simp: attempt_def split: prod.splits)
    have "\<exists>ls q. process_run w ?r ls q \<and> pr_pc q = P_Forget j out \<and> pr_world q = s4 \<and> pr_outcomes q = pr_outcomes ?r \<and>
        (ch_value (pr_channel q) \<longrightarrow> ao_how ob = EndedInGrace \<or> ao_how ob = GraceOver) \<and> 0 < ch_senders (pr_channel q)"
      by (rule finish_is_run) (use p f lost begun in \<open>simp_all add: loss_is_real_def\<close>)
    then obtain ls u where 3: "process_run w ?r ls u" and u: "pr_pc u = P_Forget j out" "pr_world u = s4"
        "pr_outcomes u = pr_outcomes p" "ch_value (pr_channel u) \<longrightarrow> stops_in ob" "0 < ch_senders (pr_channel u)"
      unfolding stops_in_def by auto
    have "main_run w [end_obs ob False, end_obs ob False] u
        = Some (leave_attempt out (u\<lparr> pr_world := s, pr_pc := P_Return j out \<rparr>))"
      using u s by simp
    note 4 = main_run_is_run [OF this]
    from process_run_append [OF 1 process_run_append [OF 2 process_run_append [OF 3 4]]] u
    show ?thesis by (intro exI conjI) (assumption, simp_all add: leave_attempt_def drop_guard_def Let_def)
  qed
qed

definition turn_loss_is_real :: "'r worker \<Rightarrow> 'r turn_obs \<Rightarrow> 'r worker_state \<Rightarrow> bool" where
  "turn_loss_is_real w ob s \<longleftrightarrow>
     (case on_store (to_up ob) (lease_next (to_locked ob) (wc_worker_id (w_config w))
              (interval_of (wc_lease_ttl (w_config w))) (to_now ob)) s of
        (Some (Some j), s1) \<Rightarrow> loss_is_real w (to_attempt ob) j s1
      | _ \<Rightarrow> True)"

text \<open>
  The loop as \<open>Worker\<close> has it, one function per turn, is an execution of the process: for every
  turn it describes there is a run of the process from the head of the loop that ends in the same tables,
  mirror and metrics, with the same outcome reported, back at the head of the loop or returned, provided a
  lease that is said to be lost was refused to the heartbeat. What all runs of the process keep therefore
  holds of the loop.
\<close>
theorem turn_is_a_run:
  assumes "resting p" and "turn_loss_is_real w ob (pr_world p)" and "worker_turn_of w ob (pr_world p) = (t, s)"
  shows "\<exists>ls q. process_run w p ls q \<and> pr_world q = s \<and>
    (case t of
       Stopped \<Rightarrow> pr_pc q = P_Done \<and> pr_outcomes q = pr_outcomes p
     | Slept \<Rightarrow> resting q \<and> pr_outcomes q = pr_outcomes p
     | Attempted out \<Rightarrow> pr_outcomes q = pr_outcomes p @ [out] \<and>
         (if ch_value (pr_channel q) then pr_pc q = P_Top \<and> stops_in (to_attempt ob) else resting q))"
proof (cases "to_shutdown_before ob")
  case True
  let ?t = "p\<lparr> pr_channel := trigger (pr_channel p) \<rparr>"
  have "main_run w [lease_obs ob] ?t = Some (leave_run ?t)"
    using assms(1) by (simp add: trigger_def is_requested_def)
  note 2 = main_run_is_run [OF this]
  have "process_run w p [L_Channel] ?t" using assms(1) by (intro trigger_run) simp
  from process_run_append [OF this 2] show ?thesis
    using assms(3) True by (intro exI conjI) (assumption, auto simp: worker_turn_of_def leave_run_def)
next
  case False
  note p = assms(1)
  let ?cfg = "w_config w"
  obtain x s1 where l: "on_store (to_up ob) (lease_next (to_locked ob) (wc_worker_id ?cfg)
      (interval_of (wc_lease_ttl ?cfg)) (to_now ob)) (pr_world p) = (x, s1)" by fastforce
  show ?thesis
  proof (cases "\<exists>j. x = Some (Some j)")
    case False
    let ?q = "p\<lparr> pr_world := s1, pr_pc := P_Top \<rparr>"
    have "main_run w [lease_obs ob, lease_obs ob, lease_obs ob] p = Some ?q"
      using p l False by (auto simp: main_call_def goto_def is_requested_def split: option.splits)
    from main_run_is_run [OF this] show ?thesis
      using p l False assms(3) \<open>\<not> to_shutdown_before ob\<close>
      by (intro exI [of _ "map L_Main [lease_obs ob, lease_obs ob, lease_obs ob]"] exI [of _ ?q])
        (auto simp: worker_turn_of_def Let_def split: option.splits)
  next
    case True
    then obtain j where x: "x = Some (Some j)" by blast
    let ?q = "p\<lparr> pr_world := s1, pr_pc := P_Leased j \<rparr>"
    have "main_run w [lease_obs ob, lease_obs ob] p = Some ?q"
      using p l x by (simp add: main_call_def goto_def is_requested_def)
    note 1 = main_run_is_run [OF this]
    show ?thesis
    proof (cases "to_shutdown_after ob")
      case True
      let ?t = "?q\<lparr> pr_channel := trigger (pr_channel p) \<rparr>"
      let ?ob = "obs_of (to_release ob) [] False (ao_prover (to_attempt ob))"
      have "main_run w [?ob, ?ob] ?t = Some (leave_run (?t\<lparr> pr_world := s \<rparr>))"
        using p l x True assms(3) \<open>\<not> to_shutdown_before ob\<close>
        by (auto simp: worker_turn_of_def Let_def main_call_def hand_back_def goto_def is_requested_def
            trigger_def leave_run_def split: prod.splits)
      note 2 = main_run_is_run [OF this]
      have "process_run w ?q [L_Channel] ?t" using trigger_run [of ?q w] p by simp
      from process_run_append [OF 1 process_run_append [OF this 2]] show ?thesis
        using l x True assms(3) \<open>\<not> to_shutdown_before ob\<close>
        by (intro exI conjI) (assumption, auto simp: worker_turn_of_def Let_def leave_run_def)
    next
      case False
      let ?b = "?q\<lparr> pr_pc := P_Begin j \<rparr>"
      have "main_run w [lease_obs ob] ?q = Some ?b" using p by (simp add: goto_def is_requested_def)
      note 2 = main_run_is_run [OF this]
      obtain out s2 where a: "attempt w (to_attempt ob) j s1 = (out, s2)"
        and ts: "t = Attempted out" "s = s2\<lparr> ws_metrics := record_outcome_metric (outcome_label out) (ws_metrics s2) \<rparr>"
        using assms(3) l x False \<open>\<not> to_shutdown_before ob\<close>
        by (auto simp: worker_turn_of_def Let_def split: prod.splits)
      have "\<exists>ls q. process_run w ?b ls q \<and> pr_pc q = P_Top \<and> pr_heartbeat q = Dropped \<and>
          pr_outcomes q = pr_outcomes ?b @ [out] \<and>
          pr_world q = s2\<lparr> ws_metrics := record_outcome_metric (outcome_label out) (ws_metrics s2) \<rparr> \<and>
          (ch_value (pr_channel q) \<longrightarrow> stops_in (to_attempt ob)) \<and> 0 < ch_senders (pr_channel q)"
        by (rule attempt_is_run [where j = j])
          (use p a assms(2) l x in \<open>simp_all add: turn_loss_is_real_def\<close>)
      then obtain ls q where 3: "process_run w ?b ls q" and q: "pr_pc q = P_Top" "pr_heartbeat q = Dropped"
          "pr_outcomes q = pr_outcomes p @ [out]" "pr_world q = s"
          "ch_value (pr_channel q) \<longrightarrow> stops_in (to_attempt ob)" "0 < ch_senders (pr_channel q)"
        using ts by auto
      from process_run_append [OF 1 process_run_append [OF 2 3]] q ts show ?thesis
        by (intro exI conjI) (assumption, simp_all)
    qed
  qed
qed

text \<open>A turn in which the job is leased and the database is gone when the attempt begins.\<close>

definition lost_turn :: "(string \<Rightarrow> string option) turn_obs" where
  "lost_turn =
     \<lparr> to_now = 2, to_up = True, to_locked = [], to_shutdown_before = False, to_shutdown_after = False,
       to_release = ao_end stalled_obs,
       to_attempt = stalled_obs\<lparr> ao_begin := (ao_begin stalled_obs)\<lparr> o_up := False \<rparr> \<rparr> \<rparr>"

theorem turn_is_a_run_witness:
  "\<exists>ls q. process_run stalled_worker (start_run shutdown (idle_state queued_db)) ls q \<and>
     pr_world q = snd (worker_turn_of stalled_worker lost_turn (idle_state queued_db)) \<and>
     pr_outcomes q = [LeaseLost 7]"
proof -
  have "case lease_next [] ''w'' 180000000 2 queued_db of Inr (Some j, db) \<Rightarrow> j_id j = 7 | _ \<Rightarrow> False"
    by code_simp
  then obtain j db where l: "lease_next [] ''w'' 180000000 2 queued_db = Inr (Some j, db)" "j_id j = 7"
    by (auto split: sum.splits option.splits)
  have real: "turn_loss_is_real stalled_worker lost_turn (idle_state queued_db)"
    using l by (simp add: turn_loss_is_real_def lost_turn_def loss_is_real_def attempt_begun_def on_store_def
        store_call_def idle_state_def)
  have "fst (worker_turn_of stalled_worker lost_turn (idle_state queued_db)) = Attempted (LeaseLost 7)"
    using l by (simp add: worker_turn_of_def lost_turn_def attempt_def attempt_begun_def on_store_def
        store_call_def idle_state_def Let_def)
  then obtain s where t: "worker_turn_of stalled_worker lost_turn (idle_state queued_db) = (Attempted (LeaseLost 7), s)"
    by (metis prod.collapse)
  have "resting (start_run shutdown (idle_state queued_db))"
    "pr_world (start_run shutdown (idle_state queued_db)) = idle_state queued_db"
    by (simp_all add: start_run_def shutdown_def)
  from turn_is_a_run [OF this(1), unfolded this(2), OF real t] t show ?thesis
    by (auto simp: start_run_def)
qed

section \<open>What the handle that was dropped means\<close>

lemma abandoned_kept: "process_step w p l p' \<Longrightarrow> abandoned (pr_channel p) \<Longrightarrow> pr_channel p' = pr_channel p"
proof (induction rule: process_step.induct)
  case (main ob p p')
  then show ?case
    by (cases "pr_pc p") (auto simp: main_defs split: if_splits prod.splits)
qed (auto simp: renew_step_def mirror_step_def dest: abandoned_fixed split: prod.splits)

lemma no_hand_back:
  "process_run w p ls q \<Longrightarrow> abandoned (pr_channel p) \<Longrightarrow> (\<nexists>j. pr_pc p = P_HandBack j) \<Longrightarrow>
   abandoned (pr_channel q) \<and> (\<nexists>j. pr_pc q = P_HandBack j)"
proof (induction rule: process_run.induct)
  case (run_cons p l p1 ls p')
  have "\<nexists>j. pr_pc p1 = P_HandBack j"
  proof (cases "is_main l")
    case True
    then obtain ob where m: "main_step w ob (pr_pc p) p = Some p1"
      using run_cons.hyps(1) by (auto elim!: main_stepE is_main.elims)
    then show ?thesis
      using run_cons.prems abandoned_answers [OF run_cons.prems(1)]
      by (cases "pr_pc p") (auto simp: main_defs split: if_splits prod.splits option.splits)
  next
    case False
    with other_step_stopping [OF run_cons.hyps(1)] run_cons.prems(2) show ?thesis by simp
  qed
  with run_cons abandoned_kept [OF run_cons.hyps(1)] show ?case by simp
qed simp

lemma nothing_leased:
  assumes "lease_next locked v ttl now db = Inr (None, db')"
  shows "candidate S_Queued locked now db = None"
  using assms by (auto simp: lease_next_def and_then_Inr Let_def split: option.splits)

text \<open>
  Claim C10. A dropped handle is not a shutdown request for the loop. When the task that listens for
  signals gives up without sending anything, the wait for a shutdown ends at once but the question whether
  one was requested is answered no: the worker goes on leasing and starting jobs, and every proof that is
  not done at once is given only the grace of a shutdown. The worker stops nowhere but in the sleep after a
  poll that gave it no job, which is one where the database was away or refused, or nothing was queued that
  it may take: due, and not locked by another.
\<close>
theorem dropped_handle_stops_only_an_idle_worker:
  assumes "process_run w (start_run (await_signals NoTermListener shutdown) s) ls p"
  shows "(\<forall>ob q. main_step w ob (pr_pc p) p = Some q \<and> pr_pc q = P_Done \<longrightarrow> pr_pc p = P_Sleeping) \<and>
    (\<forall>ob q. main_step w ob (pr_pc p) p = Some q \<and> pr_pc q = P_Sleeping \<longrightarrow> pr_pc p = P_Leasing \<and>
       (\<not> o_up (mo_call ob) \<or>
        (\<exists>e. lease_next (mo_locked ob) (wc_worker_id (w_config w)) (interval_of (wc_lease_ttl (w_config w)))
               (o_now (mo_call ob)) (ws_db (pr_world p)) = Inl e) \<or>
        candidate S_Queued (mo_locked ob) (o_now (mo_call ob)) (ws_db (pr_world p)) = None)) \<and>
    (pr_pc p = P_Top \<longrightarrow> (\<forall>ob. main_step w ob (pr_pc p) p = Some (goto P_Leasing p))) \<and>
    (\<forall>j. pr_pc p = P_Leased j \<longrightarrow> (\<forall>ob. main_step w ob (pr_pc p) p = Some (goto (P_Begin j) p))) \<and>
    (\<forall>j ob. pr_pc p = P_Proving j \<and> \<not> handle_ready (pr_heartbeat p) \<and> \<not> mo_done ob \<longrightarrow>
       main_step w ob (pr_pc p) p = Some (goto (P_Grace j) p))"
proof -
  have "abandoned (pr_channel p) \<and> (\<nexists>j. pr_pc p = P_HandBack j)"
    using no_hand_back [OF assms] by (simp add: start_run_def await_signals_shutdown del: await_signals.simps)
  then have ch: "stop_seen (pr_channel p)" "\<not> is_requested (pr_channel p)" "\<nexists>j. pr_pc p = P_HandBack j"
    using abandoned_answers by blast+
  have 1: "pr_pc p = P_Sleeping" if "main_step w ob (pr_pc p) p = Some q" "pr_pc q = P_Done" for ob q
    using that ch by (cases "pr_pc p") (auto simp: main_defs split: if_splits prod.splits option.splits)
  have 2: "pr_pc p = P_Leasing" if "main_step w ob (pr_pc p) p = Some q" "pr_pc q = P_Sleeping" for ob q
    using that by (cases "pr_pc p") (auto simp: main_defs split: if_splits prod.splits option.splits)
  have "\<not> o_up (mo_call ob) \<or>
        (\<exists>e. lease_next (mo_locked ob) (wc_worker_id (w_config w)) (interval_of (wc_lease_ttl (w_config w)))
               (o_now (mo_call ob)) (ws_db (pr_world p)) = Inl e) \<or>
        candidate S_Queued (mo_locked ob) (o_now (mo_call ob)) (ws_db (pr_world p)) = None"
    if "main_step w ob (pr_pc p) p = Some q" "pr_pc q = P_Sleeping" for ob q
    using that(1) [unfolded 2 [OF that]] that(2)
    by (auto simp: main_call_def on_store_def store_call_def dest: nothing_leased
        split: prod.splits option.splits sum.splits if_splits)
  with 1 2 ch show ?thesis by auto
qed

text \<open>
  What follows for a job whose proof takes longer than the grace: it is leased, begun, abandoned and
  handed back, and leased again.
\<close>

fun hand_backs :: "nat \<Rightarrow> db \<Rightarrow> (uuid list \<times> db) option" where
  "hand_backs 0 db = Some ([], db)"
| "hand_backs (Suc n) db =
     (case lease_next [] ''w'' 180000000 5 db of
        Inr (Some j, db1) \<Rightarrow>
          (case begin_proving (j_id j) ''w'' 5 db1 of
             Inr (_, db2) \<Rightarrow>
               (case release_lease (j_id j) ''w'' 5 db2 of
                  Inr (_, db3) \<Rightarrow> map_option (apfst ((#) (j_id j))) (hand_backs n db3)
                | Inl _ \<Rightarrow> None)
           | Inl _ \<Rightarrow> None)
      | _ \<Rightarrow> None)"

lemma hand_back_cycle:
  assumes "pr_pc p = P_Top" and "abandoned (pr_channel p)"
    and "lease_next [] ''w'' 180000000 5 (ws_db (pr_world p)) = Inr (Some j, db1)"
    and "begin_proving (j_id j) ''w'' 5 db1 = Inr (x, db2)" and "release_lease (j_id j) ''w'' 5 db2 = Inr (y, db3)"
  shows "\<exists>q. main_run stalled_worker (replicate 10 slow_proof) p = Some q \<and> pr_pc q = P_Top \<and>
    pr_channel q = pr_channel p \<and> pr_outcomes q = pr_outcomes p @ [Abandoned (j_id j)] \<and> ws_db (pr_world q) = db3"
  using assms
  by (simp add: abandoned_def is_requested_def numeral_eq_Suc slow_proof_def main_call_def goto_def hand_back_def on_store_def store_call_def
      spawn_task_def leave_attempt_def Let_def)

lemma hand_back_cycles:
  assumes "hand_backs n (ws_db (pr_world p)) = Some (ids, db)" and "pr_pc p = P_Top" and "abandoned (pr_channel p)"
  shows "\<exists>ls q. process_run stalled_worker p ls q \<and> pr_pc q = P_Top \<and>
    pr_outcomes q = pr_outcomes p @ map Abandoned ids \<and> ws_db (pr_world q) = db"
  using assms
proof (induction n arbitrary: p ids)
  case 0
  then show ?case by (intro exI conjI) (rule run_nil, auto)
next
  case (Suc n)
  then obtain j db1 x db2 y db3 ids' where
      l: "lease_next [] ''w'' 180000000 5 (ws_db (pr_world p)) = Inr (Some j, db1)"
        "begin_proving (j_id j) ''w'' 5 db1 = Inr (x, db2)" "release_lease (j_id j) ''w'' 5 db2 = Inr (y, db3)"
    and rest: "hand_backs n db3 = Some (ids', db)" "ids = j_id j # ids'"
    by (auto split: sum.splits option.splits prod.splits)
  from hand_back_cycle [OF Suc.prems(2,3) l] obtain q where
    q: "main_run stalled_worker (replicate 10 slow_proof) p = Some q" "pr_pc q = P_Top"
      "pr_channel q = pr_channel p" "pr_outcomes q = pr_outcomes p @ [Abandoned (j_id j)]" "ws_db (pr_world q) = db3"
    by blast
  from Suc.IH [of q ids'] rest(1) q Suc.prems(3) obtain ls r where
    r: "process_run stalled_worker q ls r" "pr_pc r = P_Top" "pr_outcomes r = pr_outcomes q @ map Abandoned ids'"
      "ws_db (pr_world r) = db" by auto
  show ?case
    using process_run_append [OF main_run_is_run [OF q(1)] r(1)] r q(4) rest(2)
    by (intro exI conjI) (assumption, simp_all)
qed

text \<open>With a budget of three attempts, the same job is taken and abandoned four times, and is queued again.\<close>

theorem dropped_handle_stops_only_an_idle_worker_witness:
  "\<exists>ls p. process_run stalled_worker (start_run (await_signals NoTermListener shutdown) (idle_state queued_db)) ls p \<and>
     pr_outcomes p = [Abandoned 7, Abandoned 7, Abandoned 7, Abandoned 7] \<and>
     job_row_is (\<lambda>r. j_state r = S_Queued \<and> j_attempts r = 4 \<and> j_max_attempts r = 3) 7 (ws_db (pr_world p)) \<and>
     main_step stalled_worker slow_proof (pr_pc p) p = Some (goto P_Leasing p)"
proof -
  let ?p = "start_run (await_signals NoTermListener shutdown) (idle_state queued_db)"
  have "case hand_backs 4 queued_db of
      Some (ids, db) \<Rightarrow> ids = [7, 7, 7, 7] \<and>
        job_row_is (\<lambda>r. j_state r = S_Queued \<and> j_attempts r = 4 \<and> j_max_attempts r = 3) 7 db
    | None \<Rightarrow> False"
    by code_simp
  then obtain db where h: "hand_backs 4 queued_db = Some ([7, 7, 7, 7], db)"
    and db: "job_row_is (\<lambda>r. j_state r = S_Queued \<and> j_attempts r = 4 \<and> j_max_attempts r = 3) 7 db"
    by (auto split: option.splits)
  have "hand_backs 4 (ws_db (pr_world ?p)) = Some ([7, 7, 7, 7], db)" "pr_pc ?p = P_Top" "abandoned (pr_channel ?p)"
    using h by (simp_all add: start_run_def idle_state_def await_signals_shutdown del: await_signals.simps hand_backs.simps)
  from hand_back_cycles [OF this] obtain ls p where
    p: "process_run stalled_worker ?p ls p" "pr_pc p = P_Top" "ws_db (pr_world p) = db"
      "pr_outcomes p = [Abandoned 7, Abandoned 7, Abandoned 7, Abandoned 7]"
    by (auto simp: start_run_def)
  with dropped_handle_stops_only_an_idle_worker [OF p(1)] db show ?thesis by blast
qed

section \<open>The last heartbeat and the end of an attempt\<close>

text \<open>
  The mirror can be left claiming a job its worker has given up. The guard of the heartbeat is
  dropped after the entry was deleted: a heartbeat that had renewed the lease just before the attempt ended
  writes the entry again after it, and the mirror then says that this worker holds the job, whatever the
  tables say.
\<close>
theorem heartbeat_reclaims_after_forget:
  assumes "pr_pc p = P_Forget j out" and "pr_heartbeat p = Live (j_id j, Renewed)"
    and "w_leases w = Some R" and "redis_up R" and "is_uuid (j_id j)"
  shows "\<exists>q. process_run w p [L_Main ob, L_Mirror] q \<and> pr_pc q = P_Return j out \<and>
    ws_db (pr_world q) = ws_db (pr_world p) \<and>
    liveness_of R (j_id j) (ws_mirror (pr_world q)) = Held (wc_worker_id (w_config w))"
proof -
  let ?q = "p\<lparr> pr_world := on_mirror w (\<lambda>R. forget R (j_id j)) (pr_world p), pr_pc := P_Return j out \<rparr>"
  have "process_step w p (L_Main ob) ?q" using assms(1) by (intro process_step.main) simp
  moreover have "process_step w ?q L_Mirror (mirror_step w (j_id j) ?q)"
    using assms(2) by (intro process_step.mirror) simp
  ultimately have "process_run w p [L_Main ob, L_Mirror] (mirror_step w (j_id j) ?q)"
    by (blast intro: process_run.intros)
  then show ?thesis
    using liveness_record [OF assms(4,5,5)] assms(3)
    by (intro exI conjI) (assumption, simp_all add: mirror_step_def, simp add: on_mirror_def)
qed

text \<open>The job is back in the queue, and the mirror says that the worker \<open>w\<close> holds it.\<close>

definition beat_obs :: store_obs where
  "beat_obs = \<lparr> o_now = 5, o_read_up = True, o_up = True, o_jitter = None \<rparr>"

lemma renewed_then_abandoned:
  assumes "pr_pc p = P_Top" and "abandoned (pr_channel p)"
    and "lease_next [] ''w'' 180000000 5 (ws_db (pr_world p)) = Inr (Some j, db1)"
    and "begin_proving (j_id j) ''w'' 5 db1 = Inr (x, db2)"
    and "renew_lease (j_id j) ''w'' 180000000 5 db2 = Inr (True, db3)"
    and "release_lease (j_id j) ''w'' 5 db3 = Inr (y, db4)"
  shows "\<exists>ls q. process_run stalled_worker p ls q \<and> pr_pc q = P_Forget j (Abandoned (j_id j)) \<and>
    pr_heartbeat q = Live (j_id j, Renewed) \<and> ws_db (pr_world q) = db4"
proof -
  let ?s = "(on_mirror stalled_worker (\<lambda>R. record_lease R (j_id j) ''w'' (wc_lease_ttl (w_config stalled_worker)))
      ((pr_world p)\<lparr> ws_db := db2 \<rparr>))"
  let ?q = "p\<lparr> pr_world := ?s, pr_heartbeat := Live (j_id j, Ticking), pr_pc := P_Proving j \<rparr>"
  let ?r = "?q\<lparr> pr_world := ?s\<lparr> ws_db := db3 \<rparr>, pr_heartbeat := Live (j_id j, Renewed) \<rparr>"
  have "main_run stalled_worker (replicate 5 slow_proof) p = Some ?q"
    using assms
    by (simp add: abandoned_def is_requested_def numeral_eq_Suc slow_proof_def main_call_def goto_def
        on_store_def store_call_def spawn_task_def)
  note 1 = main_run_is_run [OF this]
  have "renew_step stalled_worker beat_obs (j_id j) ?q = ?r"
    using assms(5) by (simp add: renew_step_def beat_obs_def on_store_def store_call_def)
  then have 2: "process_run stalled_worker ?q [L_Renew beat_obs] ?r"
    using run_one [OF process_step.renew [of ?q "j_id j" stalled_worker beat_obs]] by simp
  have "main_run stalled_worker (replicate 3 slow_proof) ?r
      = Some (?r\<lparr> pr_world := ?s\<lparr> ws_db := db4 \<rparr>, pr_pc := P_Forget j (Abandoned (j_id j)) \<rparr>)"
    using assms
    by (simp add: abandoned_def is_requested_def numeral_eq_Suc slow_proof_def main_call_def goto_def
        on_store_def store_call_def hand_back_def)
  from process_run_append [OF 1 process_run_append [OF 2 main_run_is_run [OF this]]]
  show ?thesis by (intro exI conjI) (assumption, simp_all)
qed

theorem heartbeat_reclaims_after_forget_witness:
  "\<exists>ls q. process_run stalled_worker (start_run (await_signals NoTermListener shutdown) (idle_state queued_db)) ls q \<and>
     liveness_of sample_redis 7 (ws_mirror (pr_world q)) = Held ''w'' \<and>
     job_row_is (\<lambda>r. j_state r = S_Queued \<and> j_leased_by r = None) 7 (ws_db (pr_world q))"
proof -
  let ?p = "start_run (await_signals NoTermListener shutdown) (idle_state queued_db)"
  let ?ok = "\<lambda>res P. case res of Inr (x, db) \<Rightarrow> P x db | Inl _ \<Rightarrow> False"
  have ok: "?ok res P \<Longrightarrow> \<exists>x db. res = Inr (x, db) \<and> P x db"
    for res :: "store_error + 'a \<times> db" and P by (auto split: sum.splits)
  have "?ok (lease_next [] ''w'' 180000000 5 queued_db) (\<lambda>m db1. map_option j_id m = Some 7 \<and>
      ?ok (begin_proving 7 ''w'' 5 db1) (\<lambda>_ db2. ?ok (renew_lease 7 ''w'' 180000000 5 db2) (\<lambda>b db3. b \<and>
        ?ok (release_lease 7 ''w'' 5 db3) (\<lambda>_ db4. job_row_is (\<lambda>r. j_state r = S_Queued \<and> j_leased_by r = None) 7 db4))))"
    by code_simp
  then obtain m db1 x db2 b db3 y db4 where ops:
      "lease_next [] ''w'' 180000000 5 queued_db = Inr (m, db1)" "map_option j_id m = Some 7"
      "begin_proving 7 ''w'' 5 db1 = Inr (x, db2)" "renew_lease 7 ''w'' 180000000 5 db2 = Inr (b, db3)" "b"
      "release_lease 7 ''w'' 5 db3 = Inr (y, db4)"
    and queued: "job_row_is (\<lambda>r. j_state r = S_Queued \<and> j_leased_by r = None) 7 db4"
    by (blast dest!: ok)
  then obtain j where j: "m = Some j" "j_id j = 7" by auto
  have "ws_db (pr_world ?p) = queued_db" by (simp add: start_run_def idle_state_def)
  note start = this
  have ops': "lease_next [] ''w'' 180000000 5 (ws_db (pr_world ?p)) = Inr (Some j, db1)"
      "begin_proving (j_id j) ''w'' 5 db1 = Inr (x, db2)" "renew_lease (j_id j) ''w'' 180000000 5 db2 = Inr (True, db3)"
      "release_lease (j_id j) ''w'' 5 db3 = Inr (y, db4)"
    using ops j unfolding start by simp_all
  have "pr_pc ?p = P_Top" "abandoned (pr_channel ?p)"
    by (simp_all add: start_run_def await_signals_shutdown del: await_signals.simps)
  from renewed_then_abandoned [OF this ops'] obtain ls q where
    q: "process_run stalled_worker ?p ls q" "pr_pc q = P_Forget j (Abandoned (j_id j))"
      "pr_heartbeat q = Live (j_id j, Renewed)" "ws_db (pr_world q) = db4" by blast
  have "w_leases stalled_worker = Some sample_redis" "is_uuid (j_id j)"
    by (simp_all add: stalled_worker_def j is_uuid_def)
  from heartbeat_reclaims_after_forget [OF q(2,3) this(1) sample_redis_up this(2), of slow_proof] obtain r where
    "process_run stalled_worker q [L_Main slow_proof, L_Mirror] r" "ws_db (pr_world r) = db4"
    "liveness_of sample_redis 7 (ws_mirror (pr_world r)) = Held ''w''"
    using q(4) j(2) by auto
  with process_run_append [OF q(1)] queued show ?thesis by blast
qed

section \<open>Every attempt is counted\<close>

lemma main_step_counts:
  assumes "main_step w ob (pr_pc p) p = Some q"
  shows "\<exists>outs. pr_outcomes q = pr_outcomes p @ outs \<and>
    mt_outcomes (ws_metrics (pr_world q))
      = foldr (\<lambda>out. increment_named (outcome_label out)) outs (mt_outcomes (ws_metrics (pr_world p)))"
proof (cases "pr_pc p")
  case (P_Record j result)
  with assms show ?thesis by (auto split: prod.splits dest!: record_result_outcomes)
next
  case (P_Return j out)
  with assms show ?thesis by (auto simp: main_defs record_outcome_metric_def)
next
qed (use assms in \<open>auto simp: main_defs main_call_def on_store_def split: if_splits prod.splits option.splits\<close>)

lemma step_counts:
  assumes "process_step w p l q"
  shows "\<exists>outs. pr_outcomes q = pr_outcomes p @ outs \<and>
    mt_outcomes (ws_metrics (pr_world q))
      = foldr (\<lambda>out. increment_named (outcome_label out)) outs (mt_outcomes (ws_metrics (pr_world p)))"
  using assms
proof cases
  case (main ob)
  then show ?thesis by (blast dest: main_step_counts)
qed (auto simp: renew_step_def mirror_step_def on_store_def worker_reap_tick_def sample_tick_def Let_def
    split: prod.splits option.splits)

lemma run_counts:
  assumes "process_run w p ls q"
  shows "\<exists>outs. pr_outcomes q = pr_outcomes p @ outs \<and>
    (\<forall>l. map_of (mt_outcomes (ws_metrics (pr_world q))) l
       = map_option (\<lambda>c. c + of_nat (length (filter (\<lambda>out. outcome_label out = l) outs)))
           (map_of (mt_outcomes (ws_metrics (pr_world p))) l))"
  using assms
proof (induction rule: process_run.induct)
  case (run_nil p)
  then show ?case by (intro exI [of _ "[]"]) simp
next
  case (run_cons p l p1 ls p')
  have count: "map_of (foldr (\<lambda>out. increment_named (outcome_label out)) outs cs) k
      = map_option (\<lambda>c. c + of_nat (length (filter (\<lambda>out. outcome_label out = k) outs))) (map_of cs k)" for outs cs k
    by (induction outs) (auto simp: map_of_increment_named option.map_comp o_def add_ac)
  obtain outs where 1: "pr_outcomes p1 = pr_outcomes p @ outs"
      "mt_outcomes (ws_metrics (pr_world p1))
        = foldr (\<lambda>out. increment_named (outcome_label out)) outs (mt_outcomes (ws_metrics (pr_world p)))"
    using step_counts [OF run_cons.hyps(1)] by blast
  obtain outs' where 2: "pr_outcomes p' = pr_outcomes p1 @ outs'"
      "\<And>k. map_of (mt_outcomes (ws_metrics (pr_world p'))) k
         = map_option (\<lambda>c. c + of_nat (length (filter (\<lambda>out. outcome_label out = k) outs')))
             (map_of (mt_outcomes (ws_metrics (pr_world p1))) k)"
    using run_cons.IH by blast
  show ?case
    using 1 2 by (intro exI [of _ "outs @ outs'"]) (simp add: count option.map_comp o_def add_ac)
qed

text \<open>
  Claim C40. Every attempt is counted, once and under its own outcome, in every interleaving: at any moment
  of a run each counter of the worker's outcomes has grown by the number of reported attempts that ended
  so, and the label of every outcome and the reason of every failure are registered ones, so that no
  recording is dropped.
\<close>
theorem attempts_are_counted_in_every_run:
  assumes "process_run w (start_run ch s) ls p"
  shows "map_of (mt_outcomes (ws_metrics (pr_world p))) l
      = map_option (\<lambda>c. c + of_nat (length (filter (\<lambda>out. outcome_label out = l) (pr_outcomes p))))
          (map_of (mt_outcomes (ws_metrics s)) l) \<and>
    outcome_label ` set (pr_outcomes p) \<subseteq> set OUTCOMES \<and> prove_error_label e \<in> set FAILURE_REASONS"
proof -
  have "outcome_label out \<in> set OUTCOMES" for out by (cases out) (simp_all add: OUTCOMES_def)
  then show ?thesis using run_counts [OF assms] failure_reason_registered by (auto simp: start_run_def)
qed

theorem attempts_are_counted_in_every_run_witness:
  "\<exists>ls p. process_run stalled_worker (start_run (await_signals NoTermListener shutdown) (idle_state queued_db)) ls p \<and>
     map_of (mt_outcomes (ws_metrics (pr_world p))) ''abandoned'' = Some 4"
proof -
  have "case hand_backs 4 queued_db of Some (ids, db) \<Rightarrow> ids = [7, 7, 7, 7] | None \<Rightarrow> False" by code_simp
  then obtain db where h: "hand_backs 4 queued_db = Some ([7, 7, 7, 7], db)" by (auto split: option.splits)
  let ?p = "start_run (await_signals NoTermListener shutdown) (idle_state queued_db)"
  have "hand_backs 4 (ws_db (pr_world ?p)) = Some ([7, 7, 7, 7], db)" "pr_pc ?p = P_Top" "abandoned (pr_channel ?p)"
    using h by (simp_all add: start_run_def idle_state_def await_signals_shutdown del: await_signals.simps hand_backs.simps)
  from hand_back_cycles [OF this] obtain ls p where
    p: "process_run stalled_worker ?p ls p" "pr_outcomes p = [Abandoned 7, Abandoned 7, Abandoned 7, Abandoned 7]"
    by (auto simp: start_run_def)
  have "map_of (mt_outcomes (ws_metrics (idle_state queued_db))) ''abandoned'' = Some 0"
    by (simp add: idle_state_def new_metrics_def OUTCOMES_def)
  with attempts_are_counted_in_every_run [OF p(1), of "''abandoned''"] p show ?thesis by auto
qed

end
