(* ===== verification/Relayer_Process.thy ===== *)
theory Relayer_Process
  imports Relayer_Properties Tasks
begin

text \<open>
  A relayer process in small steps: \<open>run\<close>, \<open>attempt\<close> and \<open>settle\<close> of \<open>crates/dray-relayer/src/relayer.rs\<close>
  cut where they wait, beside the heartbeat, the reaper, the reorg watch and the shutdown signal. A
  settlement is a future that the \<open>select!\<close> of \<open>attempt\<close> drops when the lease is lost or the grace is over,
  so every one of its waits is a place where it can end for good.
\<close>

section \<open>A settlement in steps\<close>

text \<open>What \<open>settle\<close> decides before it sends anything.\<close>

datatype plan = Ends "settle_outcome \<times> db" | Resumes track_state b256 | Sends replaceable fees b256

definition plan_fresh ::
  "relayer_config \<Rightarrow> (bytes \<Rightarrow> b256) \<Rightarrow> settle_obs \<Rightarrow> job \<Rightarrow> bytes \<Rightarrow> b256 list \<Rightarrow> b256 \<Rightarrow> db \<Rightarrow> plan" where
  "plan_fresh cfg keccak256 ob j proof_bytes public_inputs nullifier db =
     (let jid = j_id j in
      case so_nullifier ob nullifier of
        Inr True \<Rightarrow> Ends (mark_settled_outcome cfg ob jid db)
      | Inl e \<Rightarrow> Ends (record_failure_outcome cfg ob jid (classify (chain_error_text (ChainRpc e))) db)
      | Inr False \<Rightarrow>
          (case so_estimate ob of
             Inl e \<Rightarrow> Ends (record_chain_failure cfg ob jid (classify (chain_error_text (ChainRpc e))) db)
           | Inr estimate \<Rightarrow>
               (case fee_inputs (so_fees ob) of
                  Inl e \<Rightarrow> Ends (record_failure_outcome cfg ob jid (classify (chain_error_text e)) db)
                | Inr (base, tip) \<Rightarrow>
                    Sends \<lparr> rp_nonce = 0, rp_circuit = circuit_id keccak256 (j_circuit_id j),
                            rp_proof = proof_bytes, rp_public_inputs = public_inputs,
                            rp_gas_limit = gas_limit estimate \<rparr>
                      (initial_fees (rl_gas cfg) base tip) nullifier)))"

definition settle_plan ::
  "relayer_config \<Rightarrow> (bytes \<Rightarrow> b256) \<Rightarrow> settle_obs \<Rightarrow> job \<Rightarrow> db \<Rightarrow> plan" where
  "settle_plan cfg keccak256 ob j db =
     (let permanent = (\<lambda>text. Ends (record_failure_outcome cfg ob (j_id j) (PermanentFailure text) db)) in
      case (j_proof j, j_public_inputs j) of
        (Some proof_bytes, Some input_bytes) \<Rightarrow>
          (case public_inputs_from_bytes input_bytes of
             None \<Rightarrow> permanent (''public inputs are '' @ dec (length input_bytes)
                       @ '' bytes, not a whole number of field elements'')
           | Some public_inputs \<Rightarrow>
               if public_inputs = [] then permanent ''no public inputs to settle''
               else
                 (case resume keccak256 ob j proof_bytes public_inputs db of
                    Some st \<Rightarrow> Resumes st (last public_inputs)
                  | None \<Rightarrow> plan_fresh cfg keccak256 ob j proof_bytes public_inputs (last public_inputs) db))
      | _ \<Rightarrow> permanent ''job is proved but carries no proof or public inputs'')"

text \<open>The points a settlement waits at, with what it holds there.\<close>

datatype work =
    W_Start
  | W_Lock replaceable fees b256
  | W_Submit u64 replaceable fees b256
  | W_Answer u64 b256 replaceable fees b256
  | W_Write u64 b256 replaceable fees b256
  | W_Track track_state b256
  | W_Over settle_outcome

text \<open>What a settlement works on: the nonce, what the node took from this account, and the tables.\<close>

record wire =
  wi_nonce :: nonce_state
  wi_sent :: "(u64 \<times> b256) list"
  wi_db :: db

definition over :: "settle_outcome \<times> db \<Rightarrow> wire \<Rightarrow> work \<times> wire" where
  "over r x = (W_Over (fst r), x\<lparr> wi_db := snd r \<rparr>)"

fun work_step ::
  "relayer_config \<Rightarrow> (bytes \<Rightarrow> b256) \<Rightarrow> settle_obs \<Rightarrow> track_obs \<Rightarrow> job \<Rightarrow> work \<Rightarrow> wire \<Rightarrow> work \<times> wire" where
  "work_step cfg keccak256 ob tob j W_Start x =
     (case settle_plan cfg keccak256 ob j (wi_db x) of
        Ends r \<Rightarrow> over r x
      | Resumes st nullifier \<Rightarrow> (W_Track st nullifier, x)
      | Sends call fees nullifier \<Rightarrow> (W_Lock call fees nullifier, x))"
| "work_step cfg keccak256 ob tob j (W_Lock call fees nullifier) x =
     (case next_nonce (wi_nonce x) of
        Some n \<Rightarrow> (W_Submit n call fees nullifier, x)
      | None \<Rightarrow>
          (case so_pending ob of
             Inl e \<Rightarrow> over (record_chain_failure cfg ob (j_id j) (classify (chain_error_text e)) (wi_db x)) x
           | Inr n \<Rightarrow> (W_Submit n call fees nullifier, x\<lparr> wi_nonce := synchronise n (wi_nonce x) \<rparr>)))"
| "work_step cfg keccak256 ob tob j (W_Submit n call fees nullifier) x =
     (case so_submit ob call n fees of
        Inr tx_hash \<Rightarrow> (W_Answer n tx_hash call fees nullifier, x\<lparr> wi_sent := wi_sent x @ [(n, tx_hash)] \<rparr>)
      | Inl e \<Rightarrow>
          (let classified = classify (chain_error_text e) in
           over (record_chain_failure cfg ob (j_id j) classified (wi_db x))
             (if needs_nonce_resync classified then x\<lparr> wi_nonce := invalidate (wi_nonce x) \<rparr> else x)))"
| "work_step cfg keccak256 ob tob j (W_Answer n tx_hash call fees nullifier) x =
     (W_Write n tx_hash call fees nullifier, x\<lparr> wi_nonce := consumed (wi_nonce x) \<rparr>)"
| "work_step cfg keccak256 ob tob j (W_Write n tx_hash call fees nullifier) x =
     (W_Track \<lparr> tk_tx = tx_hash, tk_fees = Some fees, tk_call = Some (call\<lparr> rp_nonce := n \<rparr>),
                tk_since = so_clock ob \<rparr> nullifier,
      x\<lparr> wi_db := snd (store_call (so_record_up ob) (wi_db x)
           (record_submission (j_id j) tx_hash nullifier (o_now ob) (wi_db x))) \<rparr>)"
| "work_step cfg keccak256 ob tob j (W_Track st nullifier) x =
     (case track_step cfg (j_id j) nullifier tob st (wi_nonce x) (wi_db x) of
        (res, st', ns, db) \<Rightarrow>
          (case res of Some out \<Rightarrow> W_Over out | None \<Rightarrow> W_Track st' nullifier,
           x\<lparr> wi_nonce := ns, wi_db := db \<rparr>))"
| "work_step cfg keccak256 ob tob j (W_Over out) x = (W_Over out, x)"

fun work_steps ::
  "relayer_config \<Rightarrow> (bytes \<Rightarrow> b256) \<Rightarrow> job \<Rightarrow> (settle_obs \<times> track_obs) list \<Rightarrow> work \<times> wire \<Rightarrow> work \<times> wire" where
  "work_steps cfg keccak256 j [] r = r"
| "work_steps cfg keccak256 j ((ob, tob) # obs) r =
     work_steps cfg keccak256 j obs (work_step cfg keccak256 ob tob j (fst r) (snd r))"

section \<open>Uninterrupted, it is \<open>settle\<close>\<close>

lemma settle_by_plan:
  "settle cfg keccak256 ob j ns db =
     (case settle_plan cfg keccak256 ob j db of
        Ends r \<Rightarrow> finish r ns
      | Resumes st nullifier \<Rightarrow> (Tracking st nullifier, ns, db)
      | Sends call fees nullifier \<Rightarrow>
          (case broadcast (so_pending ob) (\<lambda>n. so_submit ob call n fees) ns of
             (ns', Inl classified) \<Rightarrow> finish (record_chain_failure cfg ob (j_id j) classified db) ns'
           | (ns', Inr (tx_hash, n)) \<Rightarrow>
               (Tracking \<lparr> tk_tx = tx_hash, tk_fees = Some fees, tk_call = Some (call\<lparr> rp_nonce := n \<rparr>),
                           tk_since = so_clock ob \<rparr> nullifier,
                ns', snd (store_call (so_record_up ob) db (record_submission (j_id j) tx_hash nullifier (o_now ob) db)))))"
  by (simp add: settle_def settle_plan_def settle_fresh_def plan_fresh_def Let_def
      split: option.split sum.split prod.split bool.split)

fun work_of :: "settle_next \<Rightarrow> work" where
  "work_of (Finished out) = W_Over out"
| "work_of (Tracking st nullifier) = W_Track st nullifier"

text \<open>
  A settlement nobody interrupts is the settlement of \<open>Relayer\<close>: in at most five steps it is
  where \<open>settle\<close> says, with the outcome or the transaction to track, the nonce and the tables it says.
\<close>
theorem uninterrupted_settlement_is_settle:
  assumes "settle cfg keccak256 ob j (wi_nonce x) (wi_db x) = (nxt, ns, db)"
  shows "\<exists>n \<le> 5. case work_steps cfg keccak256 j (replicate n (ob, tob)) (W_Start, x) of
    (wk, y) \<Rightarrow> wk = work_of nxt \<and> wi_nonce y = ns \<and> wi_db y = db"
proof (cases "settle_plan cfg keccak256 ob j (wi_db x)")
  case (Ends r)
  then show ?thesis
    using assms by (intro exI [of _ "1 :: nat"]) (auto simp: settle_by_plan finish_def over_def)
next
  case (Resumes st n)
  then show ?thesis
    using assms by (intro exI [of _ "1 :: nat"]) (auto simp: settle_by_plan)
next
  case (Sends call fees n)
  note plan = Sends
  show ?thesis
  proof (cases "next_nonce (wi_nonce x) = None \<and> (\<exists>e. so_pending ob = Inl e)")
    case True
    then show ?thesis
      using assms plan
      by (intro exI [of _ "2 :: nat"]) (auto simp: settle_by_plan broadcast_def numeral_2_eq_2 finish_def over_def)
  next
    case False
    have "\<exists>k y. work_step cfg keccak256 ob tob j (W_Lock call fees n) x = (W_Submit k call fees n, y) \<and>
        wi_db y = wi_db x \<and> broadcast (so_pending ob) (\<lambda>n. so_submit ob call n fees) (wi_nonce x) =
        (case so_submit ob call k fees of
           Inr tx_hash \<Rightarrow> (consumed (wi_nonce y), Inr (tx_hash, k))
         | Inl e \<Rightarrow> (let classified = classify (chain_error_text e) in
             (if needs_nonce_resync classified then invalidate (wi_nonce y) else wi_nonce y, Inl classified)))"
    proof (cases "next_nonce (wi_nonce x)")
      case None
      then obtain m where "so_pending ob = Inr m" using False by (cases "so_pending ob") auto
      with None show ?thesis by (simp add: broadcast_def Let_def split: sum.split)
    next
      case (Some m)
      then show ?thesis by (simp add: broadcast_def split: sum.split)
    qed
    then obtain k y where k: "work_step cfg keccak256 ob tob j (W_Lock call fees n) x = (W_Submit k call fees n, y)"
        "wi_db y = wi_db x"
      and b: "broadcast (so_pending ob) (\<lambda>n. so_submit ob call n fees) (wi_nonce x) =
        (case so_submit ob call k fees of
           Inr tx_hash \<Rightarrow> (consumed (wi_nonce y), Inr (tx_hash, k))
         | Inl e \<Rightarrow> (let classified = classify (chain_error_text e) in
             (if needs_nonce_resync classified then invalidate (wi_nonce y) else wi_nonce y, Inl classified)))"
      by blast
    show ?thesis
    proof (cases "so_submit ob call k fees")
      case (Inl e)
      then show ?thesis
        using assms plan k b
        by (intro exI [of _ "3 :: nat"])
          (auto simp: settle_by_plan numeral_3_eq_3 finish_def over_def Let_def simp del: work_step.simps(2))
    next
      case (Inr h)
      then show ?thesis
        using assms plan k b
        by (intro exI [of _ "5 :: nat"])
          (auto simp: settle_by_plan numeral_eq_Suc simp del: work_step.simps(2))
    qed
  qed
qed

section \<open>What an interrupted settlement leaves\<close>

text \<open>The state a settlement that started at \<open>x\<close> has reached at each of its waits before it tracks.\<close>

fun left_at :: "wire \<Rightarrow> work \<Rightarrow> wire \<Rightarrow> bool" where
  "left_at x W_Start y \<longleftrightarrow> y = x"
| "left_at x (W_Lock _ _ _) y \<longleftrightarrow> y = x"
| "left_at x (W_Submit n _ _ _) y \<longleftrightarrow>
     wi_sent y = wi_sent x \<and> wi_db y = wi_db x \<and> next_nonce (wi_nonce y) = Some n"
| "left_at x (W_Answer n tx_hash _ _ _) y \<longleftrightarrow>
     wi_sent y = wi_sent x @ [(n, tx_hash)] \<and> wi_db y = wi_db x \<and> next_nonce (wi_nonce y) = Some n"
| "left_at x (W_Write n tx_hash _ _ _) y \<longleftrightarrow>
     wi_sent y = wi_sent x @ [(n, tx_hash)] \<and> wi_db y = wi_db x \<and>
     next_nonce (wi_nonce y) = Some (saturating_add n 1)"
| "left_at x (W_Track _ _) y \<longleftrightarrow> True"
| "left_at x (W_Over _) y \<longleftrightarrow> True"

lemma left_at_step: "left_at x wk y \<Longrightarrow> work_step cfg keccak256 ob tob j wk y = (wk', y') \<Longrightarrow> left_at x wk' y'"
  by (cases wk)
    (auto simp: over_def synchronise_def consumed_def Let_def split: plan.splits option.splits sum.splits prod.splits)

lemma left_at_steps: "left_at x (fst r) (snd r) \<Longrightarrow> left_at x (fst (work_steps cfg keccak256 j obs r)) (snd (work_steps cfg keccak256 j obs r))"
proof (induction cfg keccak256 j obs r rule: work_steps.induct)
  case (2 cfg keccak256 j ob tob obs r)
  then show ?case using left_at_step [OF 2(2)] by (metis prod.collapse work_steps.simps(2))
qed simp

text \<open>
  Claim C8. A settlement can be cut off between the node taking its transaction and the relayer hearing of
  it: the transaction is then out, nothing about it is in the tables, and the nonce counter still stands
  at the nonce it used, so that the next settlement of this process, of whatever job, is sent with the
  same nonce. Cut off one wait later, the counter has moved on, but the tables still know nothing of the
  transaction.
\<close>
theorem cut_settlement_is_forgotten:
  assumes "work_steps cfg keccak256 j obs (W_Start, x) = (wk, y)"
  shows "case wk of
      W_Answer n tx_hash _ _ _ \<Rightarrow> wi_sent y = wi_sent x @ [(n, tx_hash)] \<and> wi_db y = wi_db x \<and>
        (\<forall>ob tob j' call fees nullifier. work_step cfg keccak256 ob tob j' (W_Lock call fees nullifier) y
           = (W_Submit n call fees nullifier, y))
    | W_Write n tx_hash _ _ _ \<Rightarrow> wi_sent y = wi_sent x @ [(n, tx_hash)] \<and> wi_db y = wi_db x \<and>
        (\<forall>ob tob j' call fees nullifier. work_step cfg keccak256 ob tob j' (W_Lock call fees nullifier) y
           = (W_Submit (saturating_add n 1) call fees nullifier, y))
    | W_Submit _ _ _ _ \<Rightarrow> wi_sent y = wi_sent x \<and> wi_db y = wi_db x
    | W_Lock _ _ _ \<Rightarrow> y = x
    | _ \<Rightarrow> True"
proof -
  have "left_at x wk y" using left_at_steps [of x "(W_Start, x)" cfg keccak256 j obs] assms by simp
  then show ?thesis by (cases wk) auto
qed

section \<open>The process\<close>

datatype relayer_pc =
    R_Top
  | R_Leasing
  | R_Leased job
  | R_HandBack job
  | R_Sleeping
  | R_Attempt job
  | R_Work bool job work
  | R_Release job
  | R_Return settle_outcome
  | R_Done

text \<open>\<open>R_Work\<close> says whether shutdown was seen and the work is in its grace.\<close>

record relayer_process =
  rq_pc :: relayer_pc
  rq_channel :: channel
  rq_heartbeat :: "uuid task"
  rq_reaper :: "unit task"
  rq_watch :: "unit task"
  rq_outcomes :: "settle_outcome list"
  rq_wire :: wire

definition start_relayer_run :: "channel \<Rightarrow> wire \<Rightarrow> relayer_process" where
  "start_relayer_run ch x =
     \<lparr> rq_pc = R_Top, rq_channel = ch, rq_heartbeat = Dropped, rq_reaper = spawn_task (), rq_watch = spawn_task (),
       rq_outcomes = [], rq_wire = x \<rparr>"

fun settling :: "relayer_pc \<Rightarrow> uuid option" where
  "settling (R_Attempt j) = Some (j_id j)"
| "settling (R_Work _ j _) = Some (j_id j)"
| "settling (R_Release j) = Some (j_id j)"
| "settling (R_Return out) = Some (outcome_job_id out)"
| "settling _ = None"

definition call_tables ::
  "bool \<Rightarrow> (db \<Rightarrow> store_error + 'a \<times> db) \<Rightarrow> relayer_process \<Rightarrow> ('a option \<Rightarrow> relayer_pc) \<Rightarrow> relayer_process" where
  "call_tables up f p k =
     (case store_call up (wi_db (rq_wire p)) (f (wi_db (rq_wire p))) of
        (x, db) \<Rightarrow> p\<lparr> rq_wire := (rq_wire p)\<lparr> wi_db := db \<rparr>, rq_pc := k x \<rparr>)"

definition leave_relayer :: "relayer_process \<Rightarrow> relayer_process" where
  "leave_relayer p = p\<lparr> rq_pc := R_Done, rq_reaper := drop_guard (rq_reaper p), rq_watch := drop_guard (rq_watch p) \<rparr>"

fun is_over :: "work \<Rightarrow> bool" where
  "is_over (W_Over _) = True"
| "is_over _ = False"

text \<open>
  A step of the main task other than the progress of a settlement; \<open>elapsed\<close> is whether the timer it waits
  for has fired. \<open>None\<close> while it waits.
\<close>

fun relayer_main ::
  "relayer_config \<Rightarrow> store_obs \<Rightarrow> uuid list \<Rightarrow> bool \<Rightarrow> relayer_pc \<Rightarrow> relayer_process \<Rightarrow> relayer_process option"
where
  "relayer_main cfg ob locked elapsed R_Top p =
     Some (if is_requested (rq_channel p) then leave_relayer p else p\<lparr> rq_pc := R_Leasing \<rparr>)"
| "relayer_main cfg ob locked elapsed R_Leasing p =
     Some (call_tables (o_read_up ob) (lease_next_proved locked (rl_id cfg) (interval_of (rl_lease_ttl cfg)) (o_now ob)) p
       (\<lambda>x. case x of Some (Some j) \<Rightarrow> R_Leased j | _ \<Rightarrow> R_Sleeping))"
| "relayer_main cfg ob locked elapsed (R_Leased j) p =
     Some (p\<lparr> rq_pc := if is_requested (rq_channel p) then R_HandBack j else R_Attempt j \<rparr>)"
| "relayer_main cfg ob locked elapsed (R_HandBack j) p =
     Some (leave_relayer (call_tables (o_up ob) (release_lease (j_id j) (rl_id cfg) (o_now ob)) p (\<lambda>_. R_Done)))"
| "relayer_main cfg ob locked elapsed R_Sleeping p =
     (if stop_seen (rq_channel p) then Some (leave_relayer p)
      else if elapsed then Some (p\<lparr> rq_pc := R_Top \<rparr>)
      else None)"
| "relayer_main cfg ob locked elapsed (R_Attempt j) p =
     Some (p\<lparr> rq_heartbeat := spawn_task (j_id j), rq_pc := R_Work False j W_Start \<rparr>)"
| "relayer_main cfg ob locked elapsed (R_Work grace j wk) p =
     (if \<not> grace \<and> handle_ready (rq_heartbeat p) then Some (p\<lparr> rq_pc := R_Return (LeaseLost (j_id j)) \<rparr>)
      else (case wk of
              W_Over out \<Rightarrow> Some (p\<lparr> rq_pc := R_Return out \<rparr>)
            | _ \<Rightarrow>
                if grace then (if elapsed then Some (p\<lparr> rq_pc := R_Release j \<rparr>) else None)
                else (if stop_seen (rq_channel p) then Some (p\<lparr> rq_pc := R_Work True j wk \<rparr>) else None)))"
| "relayer_main cfg ob locked elapsed (R_Release j) p =
     Some (call_tables (o_up ob) (release_lease (j_id j) (rl_id cfg) (o_now ob)) p
       (\<lambda>_. R_Return (Abandoned (j_id j))))"
| "relayer_main cfg ob locked elapsed (R_Return out) p =
     Some (p\<lparr> rq_pc := R_Top, rq_heartbeat := drop_guard (rq_heartbeat p), rq_outcomes := rq_outcomes p @ [out] \<rparr>)"
| "relayer_main cfg ob locked elapsed R_Done p = None"

definition relayer_beat :: "relayer_config \<Rightarrow> store_obs \<Rightarrow> uuid \<Rightarrow> relayer_process \<Rightarrow> relayer_process" where
  "relayer_beat cfg ob jid p =
     (case heartbeat_tick (rl_id cfg) (rl_lease_ttl cfg) ob jid (wi_db (rq_wire p)) of
        (goes_on, db) \<Rightarrow> p\<lparr> rq_wire := (rq_wire p)\<lparr> wi_db := db \<rparr>,
                            rq_heartbeat := if goes_on then Live jid else TaskEnded \<rparr>)"

datatype relayer_label = N_Main | N_Work | N_Beat | N_Task | N_Channel | N_Others

inductive relayer_step ::
  "relayer_config \<Rightarrow> (bytes \<Rightarrow> b256) \<Rightarrow> relayer_process \<Rightarrow> relayer_label \<Rightarrow> relayer_process \<Rightarrow> bool"
  for cfg :: relayer_config and keccak256 :: "bytes \<Rightarrow> b256" where
  r_main: "relayer_main cfg ob locked elapsed (rq_pc p) p = Some q \<Longrightarrow> relayer_step cfg keccak256 p N_Main q"
| r_work: "rq_pc p = R_Work grace j wk \<Longrightarrow> \<not> is_over wk \<Longrightarrow> grace \<or> \<not> handle_ready (rq_heartbeat p) \<Longrightarrow>
    work_step cfg keccak256 ob tob j wk (rq_wire p) = (wk', x) \<Longrightarrow>
    relayer_step cfg keccak256 p N_Work (p\<lparr> rq_pc := R_Work grace j wk', rq_wire := x \<rparr>)"
| r_beat: "rq_heartbeat p = Live jid \<Longrightarrow> relayer_step cfg keccak256 p N_Beat (relayer_beat cfg ob jid p)"
| r_reap: "rq_reaper p = Live () \<Longrightarrow> relayer_step cfg keccak256 p N_Task
    (p\<lparr> rq_wire := (rq_wire p)\<lparr> wi_db := reap_tick (rl_id cfg) (ob :: store_obs) locked (wi_db (rq_wire p)) \<rparr> \<rparr>)"
| r_watch: "rq_watch p = Live () \<Longrightarrow> relayer_step cfg keccak256 p N_Task
    (p\<lparr> rq_wire := (rq_wire p)\<lparr> wi_db := reorg_watch_tick cfg (ob :: store_obs) used (wi_db (rq_wire p)) \<rparr> \<rparr>)"
| r_signal: "channel_step (rq_channel p) ch \<Longrightarrow> relayer_step cfg keccak256 p N_Channel (p\<lparr> rq_channel := ch \<rparr>)"
| r_others: "relayer_step cfg keccak256 p N_Others (p\<lparr> rq_wire := (rq_wire p)\<lparr> wi_db := f (wi_db (rq_wire p)) \<rparr> \<rparr>)"

inductive_cases relayer_stepE: "relayer_step cfg keccak256 p l q"

inductive relayer_run ::
  "relayer_config \<Rightarrow> (bytes \<Rightarrow> b256) \<Rightarrow> relayer_process \<Rightarrow> relayer_label list \<Rightarrow> relayer_process \<Rightarrow> bool"
  for cfg :: relayer_config and keccak256 :: "bytes \<Rightarrow> b256" where
  rr_nil: "relayer_run cfg keccak256 p [] p"
| rr_cons: "relayer_step cfg keccak256 p l p1 \<Longrightarrow> relayer_run cfg keccak256 p1 ls q \<Longrightarrow>
    relayer_run cfg keccak256 p (l # ls) q"

lemma relayer_run_append:
  "relayer_run cfg keccak256 p ls q \<Longrightarrow> relayer_run cfg keccak256 q ls' r \<Longrightarrow> relayer_run cfg keccak256 p (ls @ ls') r"
  by (induction rule: relayer_run.induct) (auto intro: relayer_run.intros)

section \<open>No task outlives its owner, and a relayer told to stop stops\<close>

definition relayer_owned :: "relayer_process \<Rightarrow> bool" where
  "relayer_owned p \<longleftrightarrow>
     (case rq_heartbeat p of
        Live jid \<Rightarrow> settling (rq_pc p) = Some jid
      | TaskEnded \<Rightarrow> settling (rq_pc p) \<noteq> None
      | Dropped \<Rightarrow> True) \<and>
     (case rq_pc p of
        R_Done \<Rightarrow> rq_reaper p = Dropped \<and> rq_watch p = Dropped
      | R_Attempt j \<Rightarrow> rq_heartbeat p = Dropped
      | R_Work g j (W_Over out) \<Rightarrow> outcome_job_id out = j_id j
      | _ \<Rightarrow> True)"

lemma call_tables_parts [simp]:
  "rq_channel (call_tables up f p k) = rq_channel p" "rq_heartbeat (call_tables up f p k) = rq_heartbeat p"
  "rq_reaper (call_tables up f p k) = rq_reaper p" "rq_watch (call_tables up f p k) = rq_watch p"
  "rq_outcomes (call_tables up f p k) = rq_outcomes p"
  "rq_pc (call_tables up f p k) = k (fst (store_call up (wi_db (rq_wire p)) (f (wi_db (rq_wire p)))))"
  by (simp_all add: call_tables_def split: prod.split)

lemmas relayer_main_defs = leave_relayer_def spawn_task_def drop_guard_def

text \<open>Every outcome is about the job it was handed.\<close>

lemma outcome_jobs:
  "outcome_job_id (fst (mark_settled_outcome cfg ob jid db)) = jid"
  "outcome_job_id (fst (record_failure_outcome cfg ob jid f db)) = jid"
  "outcome_job_id (fst (record_chain_failure cfg ob jid f db)) = jid"
  "outcome_job_id (fst (explain_revert cfg ob u jid db)) = jid"
proof -
  show mark: "outcome_job_id (fst (mark_settled_outcome cfg ob jid db)) = jid" for db
    by (simp add: mark_settled_outcome_def split: prod.split option.split)
  show failed: "outcome_job_id (fst (record_failure_outcome cfg ob jid f db)) = jid" for f db
    by (simp add: record_failure_outcome_def mark Let_def split: prod.split option.split)
  show "outcome_job_id (fst (record_chain_failure cfg ob jid f db)) = jid"
    by (simp add: record_chain_failure_def mark failed)
  show "outcome_job_id (fst (explain_revert cfg ob u jid db)) = jid"
    by (simp add: explain_revert_def mark failed split: sum.split bool.split)
qed

lemma settle_plan_job: "settle_plan cfg keccak256 ob j db = Ends r \<Longrightarrow> outcome_job_id (fst r) = j_id j"
  by (auto simp: settle_plan_def plan_fresh_def Let_def outcome_jobs
      split: option.splits if_splits sum.splits bool.splits prod.splits)

lemma track_step_job: "track_step cfg jid n ob st ns db = (Some out, r) \<Longrightarrow> outcome_job_id out = jid"
  using outcome_jobs(2) [of cfg ob jid] outcome_jobs(4) [of cfg ob _ jid]
  by (auto simp: track_step_def split: sum.splits option.splits if_splits prod.splits confirmation.splits)
    (metis fst_conv)+

lemma work_step_job:
  assumes "work_step cfg keccak256 ob tob j wk x = (W_Over out, y)" and "\<not> is_over wk"
  shows "outcome_job_id out = j_id j"
  using assms
  by (cases wk)
    (auto simp: over_def Let_def outcome_jobs dest: settle_plan_job track_step_job
      split: plan.splits option.splits sum.splits prod.splits)

lemma relayer_main_owned:
  assumes "relayer_main cfg ob locked elapsed (rq_pc p) p = Some q" and "relayer_owned p"
  shows "relayer_owned q"
proof (cases "rq_pc p")
  case (R_Work g j wk)
  with assms show ?thesis
    by (cases wk) (auto simp: relayer_owned_def split: if_splits task.splits)
qed (use assms in \<open>auto simp: relayer_owned_def relayer_main_defs split: if_splits option.splits task.splits\<close>)

lemma relayer_owned_step: "relayer_step cfg keccak256 p l q \<Longrightarrow> relayer_owned p \<Longrightarrow> relayer_owned q"
proof (induction rule: relayer_step.induct)
  case (r_main ob locked elapsed p q)
  then show ?case by (rule relayer_main_owned)
next
  case (r_work p grace j wk ob tob wk' x)
  then show ?case
    using work_step_job [of cfg keccak256 ob tob j wk "rq_wire p" _ x]
    by (cases wk') (auto simp: relayer_owned_def split: task.splits)
next
  case (r_beat p jid ob)
  then show ?case
    by (auto simp: relayer_owned_def relayer_beat_def split: prod.splits relayer_pc.splits work.splits)
qed (simp_all add: relayer_owned_def cong: task.case_cong relayer_pc.case_cong work.case_cong)

lemma relayer_owned_run: "relayer_run cfg keccak256 p ls q \<Longrightarrow> relayer_owned p \<Longrightarrow> relayer_owned q"
  by (induction rule: relayer_run.induct) (auto dest: relayer_owned_step)

lemma relayer_owned_start: "relayer_owned (start_relayer_run ch x)"
  by (simp add: relayer_owned_def start_relayer_run_def)

fun relayer_steps_left :: "relayer_pc \<Rightarrow> nat" where
  "relayer_steps_left R_Done = 0"
| "relayer_steps_left R_Top = 1"
| "relayer_steps_left R_Sleeping = 1"
| "relayer_steps_left (R_HandBack _) = 1"
| "relayer_steps_left (R_Leased _) = 2"
| "relayer_steps_left R_Leasing = 3"
| "relayer_steps_left (R_Return _) = 2"
| "relayer_steps_left (R_Release _) = 3"
| "relayer_steps_left (R_Work grace _ _) = (if grace then 4 else 5)"
| "relayer_steps_left (R_Attempt _) = 6"

definition settlements_due :: "relayer_process \<Rightarrow> nat" where
  "settlements_due p = length (rq_outcomes p) + (case settling (rq_pc p) of None \<Rightarrow> 0 | Some _ \<Rightarrow> 1)"

lemma relayer_main_stopping:
  assumes "relayer_main cfg ob locked elapsed (rq_pc p) p = Some q" and "is_requested (rq_channel p)"
  shows "relayer_steps_left (rq_pc q) < relayer_steps_left (rq_pc p) \<and> rq_channel q = rq_channel p \<and>
    settlements_due q = settlements_due p"
proof (cases "rq_pc p")
  case (R_Work g j wk)
  with assms show ?thesis
    by (cases wk) (auto simp: settlements_due_def is_requested_def split: if_splits)
qed (use assms in \<open>auto simp: relayer_main_defs settlements_due_def is_requested_def split: if_splits option.splits\<close>)

lemma relayer_other_stopping:
  assumes "relayer_step cfg keccak256 p l q" and "l \<noteq> N_Main"
  shows "relayer_steps_left (rq_pc q) = relayer_steps_left (rq_pc p) \<and> settlements_due q = settlements_due p \<and>
    (is_requested (rq_channel p) \<longrightarrow> is_requested (rq_channel q))"
  using assms
  by (auto elim!: relayer_stepE simp: relayer_beat_def settlements_due_def channel_step_keeps split: prod.splits)

lemma relayer_stopping_run:
  "relayer_run cfg keccak256 p ls q \<Longrightarrow> is_requested (rq_channel p) \<Longrightarrow>
   length (filter ((=) N_Main) ls) + relayer_steps_left (rq_pc q) \<le> relayer_steps_left (rq_pc p) \<and>
   is_requested (rq_channel q) \<and> settlements_due q = settlements_due p"
proof (induction rule: relayer_run.induct)
  case (rr_cons p l p1 ls q)
  show ?case
  proof (cases "l = N_Main")
    case True
    then obtain ob locked elapsed where "relayer_main cfg ob locked elapsed (rq_pc p) p = Some p1"
      using rr_cons.hyps(1) by (auto elim: relayer_step.cases)
    from relayer_main_stopping [OF this rr_cons.prems] rr_cons.IH rr_cons.prems True show ?thesis by auto
  next
    case False
    from relayer_other_stopping [OF rr_cons.hyps(1) this] rr_cons.IH rr_cons.prems False show ?thesis by auto
  qed
qed simp

lemma relayer_never_stuck:
  assumes "rq_pc p \<noteq> R_Done" and "is_requested (rq_channel p)"
  shows "\<exists>q. relayer_main cfg ob locked True (rq_pc p) p = Some q"
proof (cases "rq_pc p")
  case (R_Work g j wk)
  with assms(2) show ?thesis by (cases wk) (auto simp: is_requested_def)
qed (use assms in auto)

text \<open>
  Claim C15. The tasks and the stopping of a relayer. A heartbeat that runs is that of the settlement under
  way, and after \<open>run\<close> returned no step of the process changes anything but what others do. Once shutdown
  was requested, besides the progress of a settlement within its grace the main task takes at most six
  more steps; when its timer fires it is never stuck; and it begins no settlement any more.
\<close>
theorem relayer_stops_with_its_tasks:
  assumes "relayer_run cfg keccak256 (start_relayer_run ch x) ls p"
  shows "(\<forall>jid. rq_heartbeat p = Live jid \<longrightarrow> settling (rq_pc p) = Some jid) \<and>
    (rq_pc p = R_Done \<longrightarrow> (\<forall>l q. relayer_step cfg keccak256 p l q \<longrightarrow> l = N_Others \<or> rq_wire q = rq_wire p)) \<and>
    (is_requested (rq_channel p) \<longrightarrow>
      (\<forall>ls' q. relayer_run cfg keccak256 p ls' q \<longrightarrow> length (filter ((=) N_Main) ls') \<le> 6 \<and>
        settlements_due q = settlements_due p \<and>
        (rq_pc q \<noteq> R_Done \<longrightarrow> (\<forall>ob locked. \<exists>r. relayer_main cfg ob locked True (rq_pc q) q = Some r))))"
proof -
  have owned: "relayer_owned p" using relayer_owned_run [OF assms relayer_owned_start] .
  then have "\<forall>jid. rq_heartbeat p = Live jid \<longrightarrow> settling (rq_pc p) = Some jid" by (auto simp: relayer_owned_def)
  moreover have "l = N_Others \<or> rq_wire q = rq_wire p" if "rq_pc p = R_Done" "relayer_step cfg keccak256 p l q" for l q
    using that(2) owned that(1) by (auto simp: relayer_owned_def elim!: relayer_stepE)
  moreover have "length (filter ((=) N_Main) ls') \<le> 6 \<and> settlements_due q = settlements_due p \<and>
      (rq_pc q \<noteq> R_Done \<longrightarrow> (\<forall>ob locked. \<exists>r. relayer_main cfg ob locked True (rq_pc q) q = Some r))"
    if "is_requested (rq_channel p)" "relayer_run cfg keccak256 p ls' q" for ls' q
  proof -
    have "relayer_steps_left (rq_pc p) \<le> 6" by (cases "rq_pc p") simp_all
    then show ?thesis using relayer_stopping_run [OF that(2,1)] relayer_never_stuck by fastforce
  qed
  ultimately show ?thesis by blast
qed

text \<open>A relayer that is told to stop at the head of its loop.\<close>

definition idle_wire :: wire where
  "idle_wire = \<lparr> wi_nonce = new_nonce_state, wi_sent = [], wi_db = submitting_db \<rparr>"

theorem relayer_stops_with_its_tasks_witness:
  "\<exists>p. relayer_run sample_config id (start_relayer_run shutdown idle_wire) [N_Channel] p \<and>
     is_requested (rq_channel p) \<and>
     (\<forall>ls q. relayer_run sample_config id p ls q \<longrightarrow> length (filter ((=) N_Main) ls) \<le> 6)"
proof -
  let ?p = "(start_relayer_run shutdown idle_wire)\<lparr> rq_channel := trigger shutdown \<rparr>"
  have "relayer_step sample_config id (start_relayer_run shutdown idle_wire) N_Channel ?p"
    by (rule r_signal) (simp add: start_relayer_run_def shutdown_def channel_step.triggered)
  then have run: "relayer_run sample_config id (start_relayer_run shutdown idle_wire) [N_Channel] ?p"
    by (blast intro: relayer_run.intros)
  with relayer_stops_with_its_tasks [OF run] show ?thesis
    by (intro exI [of _ ?p]) (auto simp: is_requested_def trigger_def)
qed

theorem uninterrupted_settlement_is_settle_witness:
  "\<exists>n \<le> 5. wi_db (snd (work_steps sample_config id sample_job (replicate n (sample_settle, sample_poll))
       (W_Start, idle_wire)))
     = snd (snd (settle sample_config id sample_settle sample_job new_nonce_state submitting_db))"
proof -
  obtain nxt ns db where s: "settle sample_config id sample_settle sample_job new_nonce_state submitting_db = (nxt, ns, db)"
    by (metis prod_cases3)
  then have "settle sample_config id sample_settle sample_job (wi_nonce idle_wire) (wi_db idle_wire) = (nxt, ns, db)"
    by (simp add: idle_wire_def)
  from uninterrupted_settlement_is_settle [OF this, of sample_poll] s show ?thesis
    by (simp add: case_prod_unfold) blast
qed

text \<open>The node takes the transaction with nonce 4, and the relayer is cut off before it hears of it.\<close>

theorem cut_settlement_is_forgotten_witness:
  "\<exists>h call fees n y. work_steps sample_config id sample_job (replicate 3 (sample_settle, sample_poll)) (W_Start, idle_wire)
       = (W_Answer 4 h call fees n, y) \<and>
     wi_sent y = [(4, h)] \<and> wi_db y = submitting_db \<and>
     work_step sample_config id sample_settle sample_poll sample_job (W_Lock call fees n) y = (W_Submit 4 call fees n, y)"
proof -
  have "latest_settlement 7 submitting_db = None" by code_simp
  moreover have "j_proof sample_job = Some ''p''" "j_public_inputs sample_job = Some sample_nullifier"
    "public_inputs_from_bytes sample_nullifier = Some [sample_nullifier]" "j_id sample_job = 7" by code_simp+
  ultimately obtain call fees where
    "settle_plan sample_config id sample_settle sample_job submitting_db = Sends call fees sample_nullifier"
    by (simp add: settle_plan_def plan_fresh_def resume_def sample_settle_def Let_def)
  then have "\<exists>h y. work_steps sample_config id sample_job (replicate 3 (sample_settle, sample_poll)) (W_Start, idle_wire)
      = (W_Answer 4 h call fees sample_nullifier, y)"
    by (simp add: numeral_3_eq_3 idle_wire_def new_nonce_state_def) (simp add: sample_settle_def)
  then obtain h y where w: "work_steps sample_config id sample_job (replicate 3 (sample_settle, sample_poll)) (W_Start, idle_wire)
      = (W_Answer 4 h call fees sample_nullifier, y)" by blast
  from cut_settlement_is_forgotten [OF w] show ?thesis
    by (intro exI conjI) (rule w, simp_all add: idle_wire_def del: work_step.simps)
qed

end
