(* ===== verification/Fleet.thy ===== *)
theory Fleet
  imports Services Worker_Runs Relayer_Process
begin

text \<open>
  Any number of worker and relayer processes over one database and one Redis, interleaved at every wait of
  every task, beside everything else that uses the database: the composition of \<open>Worker_Process\<close> and
  \<open>Relayer_Process\<close> with themselves and with the services of \<open>Services\<close>.
\<close>

section \<open>A process changes the tables by steps of the store\<close>

lemma main_call_refines:
  assumes "\<And>y db'. store_ok (ws_db (pr_world p)) \<Longrightarrow> f (ws_db (pr_world p)) = Inr (y, db') \<Longrightarrow> db_steps (ws_db (pr_world p)) db'"
  shows "refines (ws_db (pr_world p)) (ws_db (pr_world (main_call ob f p k)))"
proof -
  obtain x s where o: "on_store (o_up (mo_call ob)) f (pr_world p) = (x, s)" by fastforce
  then have "refines (ws_db (pr_world p)) (ws_db s)" by (rule on_store_refines) (rule assms)
  with o show ?thesis by (simp add: main_call_def)
qed

lemma main_step_refines:
  assumes "main_step w ob (pr_pc p) p = Some q"
  shows "refines (ws_db (pr_world p)) (ws_db (pr_world q))"
proof -
  note lease = main_call_refines [where p = p and ob = ob and f = "lease_next (mo_locked ob) (wc_worker_id (w_config w))
      (interval_of (wc_lease_ttl (w_config w))) (o_now (mo_call ob))", OF lease_next_steps [OF _ store_ok_ids]]
  have given: "refines (ws_db (pr_world p)) (ws_db (pr_world (main_call ob (hand_back w ob j) p k)))" for j k
    by (rule main_call_refines) (auto simp: hand_back_def dest: steps_of)
  have begun: "refines (ws_db (pr_world p)) (ws_db (pr_world (main_call ob (begin_proving i h t) p k)))" for i h t k
    by (rule main_call_refines) (auto dest: steps_of)
  show ?thesis
    using assms lease given begun
    by (cases "pr_pc p") (auto simp: goto_def leave_run_def leave_attempt_def Let_def split: if_splits prod.splits
        dest: record_result_refines)
qed

lemma process_step_refines:
  assumes "process_step w p l q" and "\<And>f g. l = L_Others f g \<Longrightarrow> well_behaved f"
  shows "refines (ws_db (pr_world p)) (ws_db (pr_world q))"
  using assms(1)
proof cases
  case (renew jid ob)
  have "refines (ws_db (pr_world p)) (ws_db s)"
    if "on_store (o_up ob) (renew_lease jid h ttl t) (pr_world p) = (x, s)" for h ttl t x s
    using that by (rule on_store_refines) (auto dest: steps_of)
  then show ?thesis using renew by (auto simp: renew_step_def split: prod.split)
next
  case (others f g)
  then show ?thesis using assms(2) by (simp add: well_behaved_def)
qed (auto simp: mirror_step_def worker_ticks_refine dest: main_step_refines)

lemma call_tables_refines:
  assumes "\<And>y db'. store_ok (wi_db (rq_wire p)) \<Longrightarrow> f (wi_db (rq_wire p)) = Inr (y, db') \<Longrightarrow> db_steps (wi_db (rq_wire p)) db'"
  shows "refines (wi_db (rq_wire p)) (wi_db (rq_wire (call_tables up f p k)))"
  using store_call_refines [OF _ assms, where up = up] by (auto simp: call_tables_def split: prod.split)

lemma relayer_main_refines:
  assumes "relayer_main cfg ob locked elapsed (rq_pc p) p = Some q"
  shows "refines (wi_db (rq_wire p)) (wi_db (rq_wire q))"
proof -
  note lease = call_tables_refines [where p = p and f = "lease_next_proved locked (rl_id cfg)
      (interval_of (rl_lease_ttl cfg)) (o_now ob)", OF lease_next_proved_steps [OF _ store_ok_ids]]
  have given: "refines (wi_db (rq_wire p)) (wi_db (rq_wire (call_tables up (release_lease i h t) p k)))" for up i h t k
    by (rule call_tables_refines) (auto dest: steps_of)
  show ?thesis
  proof (cases "rq_pc p")
    case (R_Work g j wk)
    with assms show ?thesis by (cases wk) (auto split: if_splits)
  qed (use assms lease given in \<open>auto simp: leave_relayer_def split: if_splits\<close>)
qed

lemma settle_plan_refines:
  "settle_plan cfg keccak256 ob j db = Ends r \<Longrightarrow> refines db (snd r)"
  by (cases r)
    (auto simp: settle_plan_def plan_fresh_def Let_def outcome_refines
      split: option.splits if_splits sum.splits bool.splits prod.splits)

lemma work_step_refines:
  assumes "work_step cfg keccak256 ob tob j wk x = (wk', y)"
  shows "refines (wi_db x) (wi_db y)"
proof (cases wk)
  case W_Start
  with assms show ?thesis by (auto simp: over_def split: plan.splits dest: settle_plan_refines)
next
  case (W_Lock c f n)
  have "refines (wi_db x) (snd (record_chain_failure cfg ob (j_id j) k (wi_db x)))" for k
    by (rule outcome_refines(3) [OF surjective_pairing])
  with W_Lock assms show ?thesis by (auto simp: over_def split: option.splits sum.splits)
next
  case (W_Submit k c f n)
  have "refines (wi_db x) (snd (record_chain_failure cfg ob (j_id j) k (wi_db x)))" for k
    by (rule outcome_refines(3) [OF surjective_pairing])
  with W_Submit assms show ?thesis by (auto simp: over_def Let_def split: sum.splits)
next
  case (W_Write k h c f n)
  have "refines (wi_db x) (snd (store_call up (wi_db x) (record_submission i h n t (wi_db x))))" for up i t
    by (rule store_call_refines [OF surjective_pairing]) (auto dest: steps_of)
  with W_Write assms show ?thesis by auto
next
  case (W_Track st n)
  with assms show ?thesis by (auto split: prod.splits dest: track_step_refines)
qed (use assms in auto)

lemma relayer_step_refines:
  assumes "relayer_step cfg keccak256 p l q" and "l \<noteq> N_Others"
  shows "refines (wi_db (rq_wire p)) (wi_db (rq_wire q))"
  using assms(1)
proof cases
  case (r_beat jid ob)
  obtain b db where "heartbeat_tick (rl_id cfg) (rl_lease_ttl cfg) ob jid (wi_db (rq_wire p)) = (b, db)" by fastforce
  then show ?thesis
    using r_beat relayer_ticks_refine(1) [of "wi_db (rq_wire p)" "rl_id cfg" "rl_lease_ttl cfg" ob jid]
    by (simp add: relayer_beat_def)
next
  case (r_reap ob locked)
  then show ?thesis by (simp add: relayer_ticks_refine)
next
  case (r_watch ob used)
  then show ?thesis by (simp add: relayer_ticks_refine)
qed (use assms(2) in \<open>auto dest: relayer_main_refines work_step_refines\<close>)

section \<open>The fleet\<close>

text \<open>
  The tables and the mirror are shared; of each process the fleet keeps the rest. \<open>view\<close> is a process as it
  sees the world.
\<close>

record 'r fleet =
  fl_db :: db
  fl_mirror :: 'r
  fl_workers :: "'r process list"
  fl_relayers :: "relayer_process list"

definition view :: "'r fleet \<Rightarrow> nat \<Rightarrow> 'r process" where
  "view F i =
     (let p = fl_workers F ! i in
      p\<lparr> pr_world := (pr_world p)\<lparr> ws_db := fl_db F, ws_mirror := fl_mirror F \<rparr> \<rparr>)"

definition put_back :: "nat \<Rightarrow> 'r process \<Rightarrow> 'r fleet \<Rightarrow> 'r fleet" where
  "put_back i p F =
     F\<lparr> fl_db := ws_db (pr_world p), fl_mirror := ws_mirror (pr_world p), fl_workers := (fl_workers F)[i := p] \<rparr>"

definition relayer_view :: "'r fleet \<Rightarrow> nat \<Rightarrow> relayer_process" where
  "relayer_view F i = (let p = fl_relayers F ! i in p\<lparr> rq_wire := (rq_wire p)\<lparr> wi_db := fl_db F \<rparr> \<rparr>)"

definition relayer_back :: "nat \<Rightarrow> relayer_process \<Rightarrow> 'r fleet \<Rightarrow> 'r fleet" where
  "relayer_back i p F = F\<lparr> fl_db := wi_db (rq_wire p), fl_relayers := (fl_relayers F)[i := p] \<rparr>"

fun is_others :: "'r label \<Rightarrow> bool" where
  "is_others (L_Others _ _) = True"
| "is_others _ = False"

text \<open>
  A worker or a relayer of the fleet moves, or anyone else takes steps of the store and leaves any mirror.
\<close>

inductive fleet_step ::
  "'r worker list \<Rightarrow> relayer_config list \<Rightarrow> (bytes \<Rightarrow> b256) \<Rightarrow> 'r fleet \<Rightarrow> 'r fleet \<Rightarrow> bool"
  for ws :: "'r worker list" and rs :: "relayer_config list" and keccak256 :: "bytes \<Rightarrow> b256" where
  worker_moves: "i < length (fl_workers F) \<Longrightarrow> \<not> is_others l \<Longrightarrow> process_step (ws ! i) (view F i) l p \<Longrightarrow>
    fleet_step ws rs keccak256 F (put_back i p F)"
| relayer_moves: "i < length (fl_relayers F) \<Longrightarrow> l \<noteq> N_Others \<Longrightarrow>
    relayer_step (rs ! i) keccak256 (relayer_view F i) l q \<Longrightarrow> fleet_step ws rs keccak256 F (relayer_back i q F)"
| others_move: "db_steps (fl_db F) db \<Longrightarrow> fleet_step ws rs keccak256 F (F\<lparr> fl_db := db, fl_mirror := m \<rparr>)"

lemma length_put_back [simp]:
  "length (fl_workers (put_back i p F)) = length (fl_workers F)" "length (fl_relayers (put_back i p F)) = length (fl_relayers F)"
  "length (fl_workers (relayer_back i q F)) = length (fl_workers F)"
  "length (fl_relayers (relayer_back i q F)) = length (fl_relayers F)"
  by (simp_all add: put_back_def relayer_back_def)

text \<open>What the rest of the fleet does is, for one worker and for one relayer, what others do.\<close>

definition set_world :: "db \<Rightarrow> 'r \<Rightarrow> 'r process \<Rightarrow> 'r process" where
  "set_world db m p = p\<lparr> pr_world := (pr_world p)\<lparr> ws_db := db, ws_mirror := m \<rparr> \<rparr>"

definition set_tables :: "db \<Rightarrow> relayer_process \<Rightarrow> relayer_process" where
  "set_tables db p = p\<lparr> rq_wire := (rq_wire p)\<lparr> wi_db := db \<rparr> \<rparr>"

lemma set_is_others:
  "process_step w p (L_Others (\<lambda>_. db) (\<lambda>_. m)) (set_world db m p)"
  "relayer_step cfg keccak256 q N_Others (set_tables db q)"
  using process_step.others [of w p "\<lambda>_. db" "\<lambda>_. m"] relayer_step.r_others [of cfg keccak256 q "\<lambda>_. db"]
  by (simp_all add: set_world_def set_tables_def)

lemma view_after:
  "j < length (fl_workers F) \<Longrightarrow> view (put_back i p F) j
     = (if j = i then p else set_world (ws_db (pr_world p)) (ws_mirror (pr_world p)) (view F j))"
  "view (relayer_back i q F) j = set_world (wi_db (rq_wire q)) (fl_mirror F) (view F j)"
  "view (F\<lparr> fl_db := db, fl_mirror := m \<rparr>) j = set_world db m (view F j)"
  "k < length (fl_relayers F) \<Longrightarrow> relayer_view (relayer_back i q F) k
     = (if k = i then q else set_tables (wi_db (rq_wire q)) (relayer_view F k))"
  "relayer_view (put_back i p F) k = set_tables (ws_db (pr_world p)) (relayer_view F k)"
  "relayer_view (F\<lparr> fl_db := db, fl_mirror := m \<rparr>) k = set_tables db (relayer_view F k)"
  by (simp_all add: view_def relayer_view_def put_back_def relayer_back_def set_world_def set_tables_def Let_def)

lemma fleet_step_lengths:
  "fleet_step ws rs keccak256 F G \<Longrightarrow>
   length (fl_workers G) = length (fl_workers F) \<and> length (fl_relayers G) = length (fl_relayers F)"
  by (induction rule: fleet_step.induct) simp_all

lemma fleet_step_view:
  assumes "fleet_step ws rs keccak256 F G"
  shows "j < length (fl_workers F) \<Longrightarrow> \<exists>l. process_step (ws ! j) (view F j) l (view G j)"
    and "k < length (fl_relayers F) \<Longrightarrow> \<exists>l. relayer_step (rs ! k) keccak256 (relayer_view F k) l (relayer_view G k)"
  using assms
  by (induction rule: fleet_step.induct) (simp_all add: view_after, (blast intro: set_is_others)+)

lemma fleet_step_refines:
  assumes "fleet_step ws rs keccak256 F G"
  shows "refines (fl_db F) (fl_db G)"
  using assms
proof cases
  case (worker_moves i l p)
  have "refines (ws_db (pr_world (view F i))) (ws_db (pr_world p))"
    by (rule process_step_refines [OF worker_moves(4)]) (use worker_moves(3) in auto)
  then show ?thesis using worker_moves by (simp add: put_back_def view_def Let_def)
next
  case (relayer_moves i l q)
  have "refines (wi_db (rq_wire (relayer_view F i))) (wi_db (rq_wire q))"
    by (rule relayer_step_refines [OF relayer_moves(4,3)])
  then show ?thesis using relayer_moves by (simp add: relayer_back_def relayer_view_def Let_def)
next
  case (others_move db m)
  then show ?thesis by (simp add: refines_steps)
qed

lemma fleet_run_refines: "(fleet_step ws rs keccak256)\<^sup>*\<^sup>* F G \<Longrightarrow> refines (fl_db F) (fl_db G)"
  by (induction rule: rtranclp_induct) (auto intro: refines_trans fleet_step_refines)

lemma fleet_run_lengths:
  "(fleet_step ws rs keccak256)\<^sup>*\<^sup>* F G \<Longrightarrow>
   length (fl_workers G) = length (fl_workers F) \<and> length (fl_relayers G) = length (fl_relayers F)"
  by (induction rule: rtranclp_induct) (auto dest: fleet_step_lengths)

lemma relayer_run_one: "relayer_step cfg keccak256 p l q \<Longrightarrow> relayer_run cfg keccak256 p [l] q"
  by (auto intro: relayer_run.intros)

lemma fleet_run_view:
  assumes "(fleet_step ws rs keccak256)\<^sup>*\<^sup>* F G"
  shows "j < length (fl_workers F) \<Longrightarrow> \<exists>ls. process_run (ws ! j) (view F j) ls (view G j)"
    and "k < length (fl_relayers F) \<Longrightarrow> \<exists>ls. relayer_run (rs ! k) keccak256 (relayer_view F k) ls (relayer_view G k)"
  using assms
proof (induction rule: rtranclp_induct)
  case base
  {
    case 1
    then show ?case by (blast intro: process_run.intros)
  next
    case 2
    then show ?case by (blast intro: relayer_run.intros)
  }
next
  case (step G H)
  note len = fleet_run_lengths [OF step(1)]
  {
    case 1
    then show ?case using step fleet_step_view(1) [OF step(2), of j] process_run_append run_one len by metis
  next
    case 2
    then show ?case using step fleet_step_view(2) [OF step(2), of k] relayer_run_append relayer_run_one len by metis
  }
qed

definition start_fleet :: "db \<Rightarrow> 'r \<Rightarrow> (channel \<times> metrics) list \<Rightarrow> (channel \<times> nonce_state) list \<Rightarrow> 'r fleet" where
  "start_fleet db m cs ns =
     \<lparr> fl_db = db, fl_mirror = m,
       fl_workers = map (\<lambda>(ch, mt). start_run ch \<lparr> ws_db = db, ws_mirror = m, ws_metrics = mt \<rparr>) cs,
       fl_relayers = map (\<lambda>(ch, n). start_relayer_run ch \<lparr> wi_nonce = n, wi_sent = [], wi_db = db \<rparr>) ns \<rparr>"

lemma start_fleet_views:
  "j < length cs \<Longrightarrow> view (start_fleet db m cs ns) j
     = start_run (fst (cs ! j)) \<lparr> ws_db = db, ws_mirror = m, ws_metrics = snd (cs ! j) \<rparr>"
  "k < length ns \<Longrightarrow> relayer_view (start_fleet db m cs ns) k
     = start_relayer_run (fst (ns ! k)) \<lparr> wi_nonce = snd (ns ! k), wi_sent = [], wi_db = db \<rparr>"
  "fl_db (start_fleet db m cs ns) = db" "length (fl_workers (start_fleet db m cs ns)) = length cs"
  "length (fl_relayers (start_fleet db m cs ns)) = length ns"
  by (simp_all add: view_def relayer_view_def start_fleet_def start_run_def start_relayer_run_def Let_def split_beta)

text \<open>
  Claim C1. Any number of workers and relayers together implement the job state machine. However the steps
  of all their tasks and of everything else on the database are interleaved, what they do to the tables is
  a sequence of steps of the store: its invariants hold, no job and no work is lost, jobs move by legal
  events only and a finished job stays finished. And what each of them does is a run of its own process, so
  that what holds of every run of one process, such as that no task outlives its owner, holds of each in a
  fleet.
\<close>
theorem fleet_refines_the_store:
  assumes "store_ok db" and "(fleet_step ws rs keccak256)\<^sup>*\<^sup>* (start_fleet db m cs ns) F"
  shows "store_ok (fl_db F) \<and> board_step\<^sup>*\<^sup>* (board_of db) (board_of (fl_db F)) \<and> work_kept db (fl_db F) \<and>
    (\<forall>jid s. board_of db jid = Some s \<and> is_terminal s \<longrightarrow> board_of (fl_db F) jid = Some s) \<and>
    (\<forall>j < length cs. \<exists>ls. process_run (ws ! j)
       (start_run (fst (cs ! j)) \<lparr> ws_db = db, ws_mirror = m, ws_metrics = snd (cs ! j) \<rparr>) ls (view F j) \<and>
       tasks_owned (view F j)) \<and>
    (\<forall>k < length ns. \<exists>ls. relayer_run (rs ! k) keccak256
       (start_relayer_run (fst (ns ! k)) \<lparr> wi_nonce = snd (ns ! k), wi_sent = [], wi_db = db \<rparr>) ls (relayer_view F k) \<and>
       relayer_owned (relayer_view F k))"
proof -
  have s: "store_ok (fl_db F)" "db_steps db (fl_db F)"
    using fleet_run_refines [OF assms(2)] assms(1) by (simp_all add: refines_def start_fleet_views)
  have "\<exists>ls. process_run (ws ! j) (start_run (fst (cs ! j)) \<lparr> ws_db = db, ws_mirror = m, ws_metrics = snd (cs ! j) \<rparr>)
      ls (view F j) \<and> tasks_owned (view F j)" if "j < length cs" for j
    using fleet_run_view(1) [OF assms(2), of j] that tasks_owned_run [OF _ tasks_owned_start]
    by (auto simp: start_fleet_views)
  moreover have "\<exists>ls. relayer_run (rs ! k) keccak256 (start_relayer_run (fst (ns ! k))
      \<lparr> wi_nonce = snd (ns ! k), wi_sent = [], wi_db = db \<rparr>) ls (relayer_view F k) \<and> relayer_owned (relayer_view F k)"
    if "k < length ns" for k
    using fleet_run_view(2) [OF assms(2), of k] that relayer_owned_run [OF _ relayer_owned_start]
    by (auto simp: start_fleet_views)
  ultimately show ?thesis using s db_steps_refine [OF s(2)] db_steps_work_kept [OF s(2)] finished_stays by blast
qed

text \<open>Two workers and a relayer, of which the second worker leases the job of the queue.\<close>

definition two_workers :: "(string \<Rightarrow> string option) worker list" where
  "two_workers = [stalled_worker, stalled_worker]"

definition three_started :: "(string \<Rightarrow> string option) fleet" where
  "three_started = start_fleet queued_db Map.empty [(shutdown, new_metrics ''w''), (shutdown, new_metrics ''w'')]
     [(shutdown, new_nonce_state)]"

theorem fleet_refines_the_store_witness:
  "\<exists>F. (fleet_step two_workers [sample_config] id)\<^sup>*\<^sup>* three_started F \<and> store_ok (fl_db F) \<and>
     board_of (fl_db F) 7 = Some S_Leased \<and> board_step\<^sup>*\<^sup>* (board_of queued_db) (board_of (fl_db F))"
proof -
  have "case lease_next [] ''w'' 180000000 5 queued_db of
      Inr (Some j, db) \<Rightarrow> board_of db 7 = Some S_Leased | _ \<Rightarrow> False"
    by code_simp
  then obtain j db where l: "lease_next [] ''w'' 180000000 5 queued_db = Inr (Some j, db)" "board_of db 7 = Some S_Leased"
    by (auto split: sum.splits option.splits)
  let ?q = "goto P_Leasing (view three_started 1)"
  let ?F = "put_back 1 ?q three_started"
  let ?r = "?q\<lparr> pr_world := (pr_world ?q)\<lparr> ws_db := db \<rparr>, pr_pc := P_Leased j \<rparr>"
  have v: "view three_started 1 = start_run shutdown \<lparr> ws_db = queued_db, ws_mirror = Map.empty, ws_metrics = new_metrics ''w'' \<rparr>"
    "length (fl_workers three_started) = 2" "two_workers ! 1 = stalled_worker"
    by (simp_all add: three_started_def start_fleet_views two_workers_def)
  have 1: "fleet_step two_workers [sample_config] id three_started ?F"
    by (rule worker_moves [where l = "L_Main slow_proof"])
      (use v in \<open>auto intro!: process_step.main simp: start_run_def shutdown_def is_requested_def\<close>)
  have "view ?F 1 = ?q" using v by (simp add: view_after)
  then have 2: "fleet_step two_workers [sample_config] id ?F (put_back 1 ?r ?F)"
    using l v
    by (intro worker_moves [where l = "L_Main slow_proof"])
      (auto intro!: process_step.main simp: start_run_def goto_def main_call_def on_store_def store_call_def
        slow_proof_def)
  have run: "(fleet_step two_workers [sample_config] id)\<^sup>*\<^sup>* three_started (put_back 1 ?r ?F)" using 1 2 by auto
  have "fl_db (put_back 1 ?r ?F) = db" by (simp add: put_back_def)
  with fleet_refines_the_store [OF sample_ok(1) run [unfolded three_started_def]] l(2) run show ?thesis
    by (intro exI [of _ "put_back 1 ?r ?F"]) (simp add: three_started_def)
qed

end
