(* ===== verification/Fleet_Attempts.thy ===== *)
theory Fleet_Attempts
  imports Fleet
begin

text \<open>
  Which attempt each worker of a fleet is on. A lease that was lost lets two workers be on the same job for
  a while; they are never on the same attempt of it, so what an attempt names its files by is its own.
\<close>

section \<open>Attempts are counted up\<close>

definition attempts_grow :: "db \<Rightarrow> db \<Rightarrow> bool" where
  "attempts_grow db db' \<longleftrightarrow>
     (\<forall>jid r. find_job jid db = Some r \<longrightarrow> (\<exists>r'. find_job jid db' = Some r' \<and> j_attempts r \<le> j_attempts r'))"

lemma attempts_grow_step: "db_step db db' \<Longrightarrow> attempts_grow db db'"
proof (induction rule: db_step.induct)
  case (step_new r db)
  have "find_job jid (db\<lparr> jobs_tbl := jobs_tbl db @ [r] \<rparr>) = Some x" if "find_job jid db = Some x" for jid x
    using that by (simp add: find_job_def find_append_rows)
  then show ?case by (auto simp: attempts_grow_def)
next
  case (step_event jid db r ev r' ac detail now)
  then have "j_id r' = jid" using find_job_id [of jid db r] by (auto simp: moved_by_defs)
  with step_event show ?case by (auto simp: attempts_grow_def find_job_replace moved_by_def)
next
  case (step_renew jid db r r' t now)
  then show ?case using find_job_id [of jid db r] by (auto simp: attempts_grow_def find_job_replace)
qed (auto simp: attempts_grow_def)

lemma attempts_grow_steps: "db_steps db db' \<Longrightarrow> attempts_grow db db'"
proof (induction rule: rtranclp_induct)
  case base
  then show ?case by (auto simp: attempts_grow_def)
next
  case (step y z)
  from attempts_grow_step [OF step(2)] step(3) show ?case
    unfolding attempts_grow_def by (meson order_trans)
qed

section \<open>The attempt a worker is on\<close>

fun held_job :: "worker_pc \<Rightarrow> job option" where
  "held_job (P_Leased j) = Some j"
| "held_job (P_HandBack j) = Some j"
| "held_job (P_Begin j) = Some j"
| "held_job (P_Mirror j) = Some j"
| "held_job (P_Proving j) = Some j"
| "held_job (P_Grace j) = Some j"
| "held_job (P_Record j _) = Some j"
| "held_job (P_Release j) = Some j"
| "held_job (P_Forget j _) = Some j"
| "held_job (P_Return j _) = Some j"
| "held_job _ = None"

definition on_attempt :: "'r process \<Rightarrow> (uuid \<times> int) option" where
  "on_attempt p = map_option (\<lambda>j. (j_id j, j_attempts j)) (held_job (pr_pc p))"

text \<open>A worker stays on its attempt, leaves it, or was just given one by the queue.\<close>

lemma main_step_attempt:
  assumes "main_step w ob (pr_pc p) p = Some q"
  shows "on_attempt q = on_attempt p \<or> on_attempt q = None \<or>
    (\<exists>locked who ttl now j. lease_next locked who ttl now (ws_db (pr_world p)) = Inr (Some j, ws_db (pr_world q)) \<and>
       on_attempt q = Some (j_id j, j_attempts j))"
proof (cases "pr_pc p")
  case P_Leasing
  obtain x s where o: "on_store (o_up (mo_call ob)) (lease_next (mo_locked ob) (wc_worker_id (w_config w))
      (interval_of (wc_lease_ttl (w_config w))) (o_now (mo_call ob))) (pr_world p) = (x, s)" by fastforce
  then have q: "q = p\<lparr> pr_world := s, pr_pc := (case x of Some (Some j) \<Rightarrow> P_Leased j | _ \<Rightarrow> P_Sleeping) \<rparr>"
    using assms P_Leasing by (auto simp: main_call_def)
  show ?thesis
  proof (cases "\<exists>j. x = Some (Some j)")
    case True
    with on_store_cases [OF o] q show ?thesis by (fastforce simp: on_attempt_def)
  next
    case False
    with q show ?thesis by (auto simp: on_attempt_def split: option.splits)
  qed
next
  case (P_Record j result)
  with assms show ?thesis by (auto simp: on_attempt_def split: prod.splits)
qed (use assms in \<open>auto simp: on_attempt_def main_defs split: if_splits option.splits\<close>)

lemma process_step_attempt:
  assumes "process_step w p l q"
  shows "on_attempt q = on_attempt p \<or> on_attempt q = None \<or>
    (\<exists>locked who ttl now j. lease_next locked who ttl now (ws_db (pr_world p)) = Inr (Some j, ws_db (pr_world q)) \<and>
       on_attempt q = Some (j_id j, j_attempts j))"
  using assms
proof cases
  case (main ob)
  then show ?thesis using main_step_attempt by blast
qed (auto simp: on_attempt_def renew_step_def mirror_step_def split: prod.splits)

text \<open>The attempt just given out is one further than any before it.\<close>

lemma lease_is_new_attempt:
  assumes "store_ok db" and "lease_next locked who ttl now db = Inr (Some j, db')"
  shows "\<exists>r r'. find_job (j_id j) db = Some r \<and> find_job (j_id j) db' = Some r' \<and>
    j_attempts j = j_attempts r + 1 \<and> j_attempts r' = j_attempts j"
proof -
  from proving_queue.take_some [OF assms] obtain r r' where r: "candidate S_Queued locked now db = Some r"
      "j_id r' = j_id r" "j = from_row r'" "find_job (j_id r) db' = Some r'" "j_attempts r' = j_attempts r + 1" by blast
  then have "find_job (j_id r) db = Some r"
    using find_job_member [OF store_ok_ids [OF assms(1)]] by (auto dest!: candidate_in)
  with r show ?thesis by (auto simp: from_row_def job.defs)
qed

section \<open>No two workers are on one attempt\<close>

definition attempts_apart :: "'r fleet \<Rightarrow> bool" where
  "attempts_apart F \<longleftrightarrow>
     (\<forall>i < length (fl_workers F). \<forall>jid a. on_attempt (fl_workers F ! i) = Some (jid, a) \<longrightarrow>
        (\<exists>r. find_job jid (fl_db F) = Some r \<and> a \<le> j_attempts r)) \<and>
     (\<forall>i < length (fl_workers F). \<forall>k < length (fl_workers F). i \<noteq> k \<longrightarrow>
        on_attempt (fl_workers F ! i) \<noteq> None \<longrightarrow> on_attempt (fl_workers F ! i) \<noteq> on_attempt (fl_workers F ! k))"

lemma attempts_apart_at:
  "attempts_apart F \<Longrightarrow> i < length (fl_workers F) \<Longrightarrow> on_attempt (fl_workers F ! i) = Some (jid, a) \<Longrightarrow>
   \<exists>r. find_job jid (fl_db F) = Some r \<and> a \<le> j_attempts r"
  by (simp add: attempts_apart_def)

lemma attempts_apart_tables:
  assumes "attempts_apart F" and "attempts_grow (fl_db F) (fl_db G)"
    and "length (fl_workers G) = length (fl_workers F)"
    and "\<And>i. i < length (fl_workers F) \<Longrightarrow> on_attempt (fl_workers G ! i) = on_attempt (fl_workers F ! i)
      \<or> on_attempt (fl_workers G ! i) = None"
  shows "attempts_apart G"
proof -
  have "\<exists>r. find_job jid (fl_db G) = Some r \<and> a \<le> j_attempts r"
    if "i < length (fl_workers F)" "on_attempt (fl_workers G ! i) = Some (jid, a)" for i jid a
  proof -
    note i = that(1)
    have "on_attempt (fl_workers F ! i) = Some (jid, a)" using assms(4) [OF that(1)] that(2) by simp
    then obtain r where "find_job jid (fl_db F) = Some r" "a \<le> j_attempts r"
      using attempts_apart_at [OF assms(1) i] by blast
    with assms(2) show ?thesis unfolding attempts_grow_def by (meson order_trans)
  qed
  moreover have "on_attempt (fl_workers G ! i) \<noteq> on_attempt (fl_workers G ! k)"
    if "i < length (fl_workers F)" "k < length (fl_workers F)" "i \<noteq> k" "on_attempt (fl_workers G ! i) \<noteq> None" for i k
    using assms(1) assms(4) [OF that(1)] assms(4) [OF that(2)] that unfolding attempts_apart_def by metis
  ultimately show ?thesis using assms(3) unfolding attempts_apart_def by simp
qed

lemma attempts_apart_lease:
  assumes "attempts_apart F" and "store_ok (fl_db F)" and "i < length (fl_workers F)"
    and "lease_next locked who ttl now (fl_db F) = Inr (Some j, ws_db (pr_world p))"
    and "on_attempt p = Some (j_id j, j_attempts j)"
  shows "attempts_apart (put_back i p F)"
proof -
  let ?G = "put_back i p F"
  from lease_is_new_attempt [OF assms(2,4)] obtain r r' where
    r: "find_job (j_id j) (fl_db F) = Some r" "j_attempts j = j_attempts r + 1"
    and r': "find_job (j_id j) (fl_db ?G) = Some r'" "j_attempts r' = j_attempts j"
    by (auto simp: put_back_def)
  have grow: "attempts_grow (fl_db F) (fl_db ?G)"
    using attempts_grow_steps lease_next_steps [OF assms(4) store_ok_ids [OF assms(2)]] by (simp add: put_back_def)
  have at_i: "on_attempt (fl_workers ?G ! i) = Some (j_id j, j_attempts j)"
    using assms(3,5) by (simp add: put_back_def)
  have other: "on_attempt (fl_workers ?G ! k) = on_attempt (fl_workers F ! k)" if "k \<noteq> i" for k
    using that by (simp add: put_back_def)
  have old: "\<exists>x. find_job jid (fl_db F) = Some x \<and> a \<le> j_attempts x"
    if "k < length (fl_workers F)" "on_attempt (fl_workers F ! k) = Some (jid, a)" for k jid a
    using attempts_apart_at [OF assms(1)] that by blast
  have below: "\<exists>x. find_job jid (fl_db ?G) = Some x \<and> a \<le> j_attempts x"
    if "k < length (fl_workers F)" "on_attempt (fl_workers ?G ! k) = Some (jid, a)" for k jid a
  proof (cases "k = i")
    case True
    then show ?thesis using that at_i r' by auto
  next
    case False
    then show ?thesis using old [OF that(1)] other [OF False] that(2) grow
      unfolding attempts_grow_def by (metis order_trans)
  qed
  have new: "on_attempt (fl_workers F ! k) \<noteq> Some (j_id j, j_attempts j)" if "k < length (fl_workers F)" for k
    using old [OF that] r by fastforce
  have "on_attempt (fl_workers ?G ! k) \<noteq> on_attempt (fl_workers ?G ! m)"
    if "k < length (fl_workers F)" "m < length (fl_workers F)" "k \<noteq> m" "on_attempt (fl_workers ?G ! k) \<noteq> None" for k m
  proof (cases "k = i \<or> m = i")
    case True
    then show ?thesis using at_i other new that by metis
  next
    case False
    then show ?thesis using other assms(1) that unfolding attempts_apart_def by metis
  qed
  with below show ?thesis unfolding attempts_apart_def by simp
qed

lemma on_attempt_view: "on_attempt (view F i) = on_attempt (fl_workers F ! i)"
  by (simp add: on_attempt_def view_def Let_def)

lemma attempts_apart_step:
  assumes "fleet_step ws rs keccak256 F G" and "attempts_apart F" and "store_ok (fl_db F)"
  shows "attempts_apart G"
  using assms(1)
proof cases
  case (worker_moves i l p)
  show ?thesis
  proof (cases "on_attempt p = on_attempt (view F i) \<or> on_attempt p = None")
    case True
    have "attempts_grow (fl_db F) (fl_db G)"
      using attempts_grow_steps fleet_step_refines [OF assms(1)] assms(3) by (simp add: refines_def)
    then show ?thesis
      by (rule attempts_apart_tables [OF assms(2)])
        (use True worker_moves in \<open>auto simp: put_back_def on_attempt_view nth_list_update\<close>)
  next
    case False
    then have "\<exists>locked who ttl now j. lease_next locked who ttl now (ws_db (pr_world (view F i)))
        = Inr (Some j, ws_db (pr_world p)) \<and> on_attempt p = Some (j_id j, j_attempts j)"
      using process_step_attempt [OF worker_moves(4)] by (elim disjE) (simp_all only: simp_thms de_Morgan_disj)
    then obtain locked who ttl now j where
      "lease_next locked who ttl now (fl_db F) = Inr (Some j, ws_db (pr_world p))"
      "on_attempt p = Some (j_id j, j_attempts j)"
      by (auto simp: view_def Let_def)
    then show ?thesis
      using attempts_apart_lease [OF assms(2,3) worker_moves(2)] worker_moves(1) by simp
  qed
next
  case (relayer_moves i l q)
  have "attempts_grow (fl_db F) (fl_db G)"
    using attempts_grow_steps fleet_step_refines [OF assms(1)] assms(3) by (simp add: refines_def)
  then show ?thesis
    by (rule attempts_apart_tables [OF assms(2)]) (use relayer_moves in \<open>simp_all add: relayer_back_def\<close>)
next
  case (others_move db m)
  then show ?thesis
    by (intro attempts_apart_tables [OF assms(2)]) (simp_all add: attempts_grow_steps)
qed

lemma attempts_apart_run:
  "(fleet_step ws rs keccak256)\<^sup>*\<^sup>* F G \<Longrightarrow> attempts_apart F \<Longrightarrow> store_ok (fl_db F) \<Longrightarrow> attempts_apart G"
proof (induction rule: rtranclp_induct)
  case (step G H)
  then have "store_ok (fl_db G)" using fleet_run_refines [OF step(1)] by (simp add: refines_def)
  with step show ?case using attempts_apart_step by blast
qed

lemma attempts_apart_start: "attempts_apart (start_fleet db m cs ns)"
proof -
  have "on_attempt (fl_workers (start_fleet db m cs ns) ! i) = None" if "i < length cs" for i
    using that by (simp add: start_fleet_def start_run_def on_attempt_def split_beta)
  then show ?thesis by (simp add: attempts_apart_def start_fleet_views)
qed

section \<open>An attempt is given out once\<close>

text \<open>A run of a fleet with the attempts its workers were given, in the order they were given.\<close>

inductive fleet_trace ::
  "'r worker list \<Rightarrow> relayer_config list \<Rightarrow> (bytes \<Rightarrow> b256) \<Rightarrow> 'r fleet \<Rightarrow> (uuid \<times> int) list \<Rightarrow> 'r fleet \<Rightarrow> bool"
  for ws :: "'r worker list" and rs :: "relayer_config list" and keccak256 :: "bytes \<Rightarrow> b256" and F :: "'r fleet" where
  trace_start: "fleet_trace ws rs keccak256 F [] F"
| trace_quiet: "fleet_trace ws rs keccak256 F given G \<Longrightarrow> fleet_step ws rs keccak256 G H \<Longrightarrow>
    (\<And>i. i < length (fl_workers G) \<Longrightarrow> on_attempt (fl_workers H ! i) \<in> {None, on_attempt (fl_workers G ! i)}) \<Longrightarrow>
    fleet_trace ws rs keccak256 F given H"
| trace_given: "fleet_trace ws rs keccak256 F given G \<Longrightarrow> fleet_step ws rs keccak256 G H \<Longrightarrow>
    i < length (fl_workers G) \<Longrightarrow> on_attempt (fl_workers H ! i) = Some x \<Longrightarrow> on_attempt (fl_workers G ! i) \<noteq> Some x \<Longrightarrow>
    fleet_trace ws rs keccak256 F (given @ [x]) H"

lemma fleet_trace_run: "fleet_trace ws rs keccak256 F given G \<Longrightarrow> (fleet_step ws rs keccak256)\<^sup>*\<^sup>* F G"
  by (induction rule: fleet_trace.induct) auto

text \<open>Every run has such a trace.\<close>

lemma fleet_run_trace: "(fleet_step ws rs keccak256)\<^sup>*\<^sup>* F G \<Longrightarrow> \<exists>given. fleet_trace ws rs keccak256 F given G"
proof (induction rule: rtranclp_induct)
  case base
  then show ?case by (blast intro: trace_start)
next
  case (step G H)
  then obtain given where t: "fleet_trace ws rs keccak256 F given G" by blast
  show ?case
  proof (cases "\<forall>i < length (fl_workers G). on_attempt (fl_workers H ! i) \<in> {None, on_attempt (fl_workers G ! i)}")
    case True
    with trace_quiet [OF t step(2)] show ?thesis by blast
  next
    case False
    with trace_given [OF t step(2)] show ?thesis by force
  qed
qed

text \<open>A step that gives a worker an attempt counts it, and gives one further than any before it.\<close>

lemma given_is_counted:
  assumes "fleet_step ws rs keccak256 F G" and "store_ok (fl_db F)" and "i < length (fl_workers F)"
    and "on_attempt (fl_workers G ! i) = Some (jid, a)" and "on_attempt (fl_workers F ! i) \<noteq> Some (jid, a)"
  shows "\<exists>r r'. find_job jid (fl_db F) = Some r \<and> find_job jid (fl_db G) = Some r' \<and>
    a = j_attempts r + 1 \<and> j_attempts r' = a"
  using assms(1)
proof cases
  case (worker_moves k l p)
  have "k = i" using worker_moves(1) assms(3-5) by (cases "k = i") (simp_all add: put_back_def)
  then have "on_attempt p = Some (jid, a)" "on_attempt p \<noteq> on_attempt (view F i)"
    using worker_moves(1,2) assms(4,5) by (simp_all add: put_back_def on_attempt_view)
  then have "\<exists>locked who ttl now j. lease_next locked who ttl now (ws_db (pr_world (view F i)))
      = Inr (Some j, ws_db (pr_world p)) \<and> jid = j_id j \<and> a = j_attempts j"
    using process_step_attempt [OF worker_moves(4)] \<open>k = i\<close> by auto
  then obtain locked who ttl now j where
    "lease_next locked who ttl now (fl_db F) = Inr (Some j, fl_db G)" "jid = j_id j" "a = j_attempts j"
    using worker_moves(1) by (auto simp: view_def Let_def put_back_def)
  with lease_is_new_attempt [OF assms(2) this(1)] show ?thesis by auto
next
  case (relayer_moves k l q)
  then show ?thesis using assms(4,5) by (simp add: relayer_back_def)
next
  case (others_move db m)
  then show ?thesis using assms(4,5) by simp
qed

lemma one_is_given:
  assumes "fleet_step ws rs keccak256 F G" and "i < length (fl_workers F)"
    and "on_attempt (fl_workers G ! i) = Some x" and "on_attempt (fl_workers F ! i) \<noteq> Some x"
    and "on_attempt (fl_workers G ! k) = Some y"
  shows "y = x \<or> on_attempt (fl_workers F ! k) = Some y"
  using assms(1)
proof cases
  case (worker_moves m l p)
  have "m = i" using worker_moves(1) assms(2-4) by (cases "m = i") (simp_all add: put_back_def)
  then show ?thesis using worker_moves assms(2-5) by (cases "k = i") (simp_all add: put_back_def)
next
  case (relayer_moves k l q)
  then show ?thesis using assms(3,4) by (simp add: relayer_back_def)
next
  case (others_move db m)
  then show ?thesis using assms(3,4) by simp
qed

definition given_ok :: "(uuid \<times> int) list \<Rightarrow> 'r fleet \<Rightarrow> bool" where
  "given_ok given F \<longleftrightarrow> distinct given \<and>
     (\<forall>(jid, a) \<in> set given. \<exists>r. find_job jid (fl_db F) = Some r \<and> a \<le> j_attempts r) \<and>
     (\<forall>i < length (fl_workers F). \<forall>x. on_attempt (fl_workers F ! i) = Some x \<longrightarrow> x \<in> set given)"

lemma given_ok_older:
  assumes "given_ok given F" and "attempts_grow (fl_db F) (fl_db G)" and "(jid, a) \<in> set given"
  shows "\<exists>r. find_job jid (fl_db G) = Some r \<and> a \<le> j_attempts r"
  using assms unfolding given_ok_def attempts_grow_def by (fastforce intro: order_trans)

lemma given_ok_on:
  "given_ok given F \<Longrightarrow> i < length (fl_workers F) \<Longrightarrow> on_attempt (fl_workers F ! i) = Some x \<Longrightarrow> x \<in> set given"
  unfolding given_ok_def by blast

lemma given_ok_trace:
  "fleet_trace ws rs keccak256 F given G \<Longrightarrow> given_ok [] F \<Longrightarrow> store_ok (fl_db F) \<Longrightarrow> given_ok given G"
proof (induction rule: fleet_trace.induct)
  case trace_start
  then show ?case by simp
next
  case (trace_quiet given G H)
  have ok: "given_ok given G" "store_ok (fl_db G)"
    using trace_quiet fleet_run_refines [OF fleet_trace_run [OF trace_quiet.hyps(1)]] by (simp_all add: refines_def)
  have "attempts_grow (fl_db G) (fl_db H)"
    using attempts_grow_steps fleet_step_refines [OF trace_quiet.hyps(2)] ok(2) by (simp add: refines_def)
  note old = given_ok_older [OF ok(1) this]
  have "x \<in> set given" if "i < length (fl_workers H)" "on_attempt (fl_workers H ! i) = Some x" for i x
    using trace_quiet.hyps(3) [of i] that fleet_step_lengths [OF trace_quiet.hyps(2)] given_ok_on [OF ok(1), of i x]
    by auto
  then show ?case using ok(1) old by (auto simp: given_ok_def)
next
  case (trace_given given G H i x)
  obtain jid a where x: "x = (jid, a)" by fastforce
  have ok: "given_ok given G" "store_ok (fl_db G)"
    using trace_given fleet_run_refines [OF fleet_trace_run [OF trace_given.hyps(1)]] by (simp_all add: refines_def)
  have "attempts_grow (fl_db G) (fl_db H)"
    using attempts_grow_steps fleet_step_refines [OF trace_given.hyps(2)] ok(2) by (simp add: refines_def)
  note old = given_ok_older [OF ok(1) this]
  obtain r r' where r: "find_job jid (fl_db G) = Some r" "a = j_attempts r + 1"
      "find_job jid (fl_db H) = Some r'" "j_attempts r' = a"
    using given_is_counted [OF trace_given.hyps(2) ok(2) trace_given.hyps(3)] trace_given.hyps(4,5) x by blast
  have "x \<notin> set given" using ok(1) r x by (force simp: given_ok_def)
  moreover have "y \<in> set (given @ [x])" if y: "k < length (fl_workers H)" "on_attempt (fl_workers H ! k) = Some y" for k y
    using one_is_given [OF trace_given.hyps(2-5), of k y] y fleet_step_lengths [OF trace_given.hyps(2)]
      given_ok_on [OF ok(1), of k y]
    by auto
  ultimately show ?case using ok(1) old r x by (auto simp: given_ok_def)
qed

text \<open>What an attempt names its files by.\<close>

definition attempt_label :: "uuid \<times> int \<Rightarrow> string" where
  "attempt_label x = uuid_text (fst x) @ ''-'' @ dec_int (snd x)"

lemma attempt_label_of: "scratch_label j = attempt_label (j_id j, j_attempts j)"
  by (simp add: scratch_label_def attempt_label_def)

lemma attempt_label_inj: "inj_on attempt_label {x. is_uuid (fst x)}"
proof (rule inj_onI)
  fix x y :: "uuid \<times> int"
  assume "x \<in> {x. is_uuid (fst x)}" "y \<in> {x. is_uuid (fst x)}" "attempt_label x = attempt_label y"
  then show "x = y"
    using scratch_label_inject [of "stalled_job\<lparr> j_id := fst x, j_attempts := snd x \<rparr>"
        "stalled_job\<lparr> j_id := fst y, j_attempts := snd y \<rparr>"]
    by (simp add: attempt_label_of prod_eq_iff)
qed

lemma given_ok_start: "given_ok [] (start_fleet db m cs ns)"
proof -
  have "on_attempt (fl_workers (start_fleet db m cs ns) ! i) = None" if "i < length cs" for i
    using that by (simp add: start_fleet_def start_run_def on_attempt_def split_beta)
  then show ?thesis by (simp add: given_ok_def start_fleet_views)
qed

text \<open>
  Claim C3. An attempt has one worker. However leases are lost, reaped and taken again, and however the steps
  of a fleet are interleaved, no attempt of any job is given out twice, and no two workers are on the same
  attempt at once, even two that are on the same job. So the label of an attempt, which names its scratch
  directory, is new whenever an attempt begins, also where all workers of a host share their scratch root
  and where an earlier directory could not be removed.
\<close>
theorem no_two_workers_on_one_attempt:
  assumes "store_ok db" and "fleet_trace ws rs keccak256 (start_fleet db m cs ns) given F"
  shows "distinct given \<and> ((\<forall>x \<in> set given. is_uuid (fst x)) \<longrightarrow> distinct (map attempt_label given)) \<and>
    (\<forall>i < length cs. \<forall>j. held_job (pr_pc (view F i)) = Some j \<longrightarrow>
      (j_id j, j_attempts j) \<in> set given \<and> scratch_label j = attempt_label (j_id j, j_attempts j) \<and>
      (\<forall>k < length cs. \<forall>j'. i \<noteq> k \<and> held_job (pr_pc (view F k)) = Some j' \<longrightarrow>
        (j_id j, j_attempts j) \<noteq> (j_id j', j_attempts j')))"
proof -
  note run = fleet_trace_run [OF assms(2)]
  have apart: "attempts_apart F"
    by (rule attempts_apart_run [OF run attempts_apart_start]) (simp add: start_fleet_views assms(1))
  have ok: "given_ok given F"
    by (rule given_ok_trace [OF assms(2) given_ok_start]) (simp add: start_fleet_views assms(1))
  have len: "length (fl_workers F) = length cs"
    using fleet_run_lengths [OF run] by (simp add: start_fleet_views)
  have on: "on_attempt (fl_workers F ! i) = Some (j_id j, j_attempts j)"
    if "held_job (pr_pc (view F i)) = Some j" for i j
    using that by (simp add: on_attempt_view [symmetric]) (simp add: on_attempt_def)
  have "(j_id j, j_attempts j) \<noteq> (j_id j', j_attempts j')"
    if "i < length cs" "k < length cs" "i \<noteq> k" "held_job (pr_pc (view F i)) = Some j" "held_job (pr_pc (view F k)) = Some j'"
    for i k j j'
    using that apart on [OF that(4)] on [OF that(5)] len unfolding attempts_apart_def by (metis option.distinct(1))
  moreover have "distinct (map attempt_label given)" if "\<forall>x \<in> set given. is_uuid (fst x)"
    using ok that attempt_label_inj by (auto simp: given_ok_def distinct_map intro: inj_on_subset)
  moreover have "(j_id j, j_attempts j) \<in> set given" if "i < length cs" "held_job (pr_pc (view F i)) = Some j" for i j
    using ok on [OF that(2)] that(1) len by (auto simp: given_ok_def)
  ultimately show ?thesis using ok attempt_label_of by (auto simp: given_ok_def)
qed

text \<open>The first worker leases the job and stalls, its lease is reaped, and the second takes the job.\<close>

definition at_time :: "time \<Rightarrow> main_obs" where
  "at_time t = obs_of \<lparr> o_now = t, o_read_up = True, o_up = True, o_jitter = None \<rparr> [] False idle_world"

lemma worker_takes_job:
  assumes "i < length (fl_workers F)" and "pr_pc (view F i) = P_Top" and "\<not> is_requested (pr_channel (view F i))"
    and "ws ! i = stalled_worker" and "lease_next [] ''w'' 180000000 t (fl_db F) = Inr (Some j, db)"
    and "fleet_trace ws rs keccak256 S given F"
  shows "\<exists>G. fleet_trace ws rs keccak256 S (given @ [(j_id j, j_attempts j)]) G \<and> fl_db G = db \<and> pr_pc (view G i) = P_Leased j \<and>
    (\<forall>k < length (fl_workers F). k \<noteq> i \<longrightarrow> pr_pc (view G k) = pr_pc (view F k) \<and>
       pr_channel (view G k) = pr_channel (view F k))"
proof -
  let ?q = "goto P_Leasing (view F i)"
  let ?F = "put_back i ?q F"
  let ?r = "?q\<lparr> pr_world := (pr_world ?q)\<lparr> ws_db := db \<rparr>, pr_pc := P_Leased j \<rparr>"
  have 1: "fleet_step ws rs keccak256 F ?F"
    by (rule worker_moves [where l = "L_Main (at_time t)"]) (use assms in \<open>auto intro!: process_step.main\<close>)
  have v: "view ?F i = ?q" using assms(1) by (simp add: view_after)
  have "ws_db (pr_world ?q) = fl_db F" by (simp add: goto_def view_def Let_def)
  then have "main_step stalled_worker (at_time t) (pr_pc (view ?F i)) (view ?F i) = Some ?r"
    unfolding v using assms(5)
    by (simp add: at_time_def obs_of_def goto_def main_call_def on_store_def store_call_def)
  then have 2: "fleet_step ws rs keccak256 ?F (put_back i ?r ?F)"
    by (intro worker_moves [where l = "L_Main (at_time t)"]) (use assms in \<open>auto intro!: process_step.main\<close>)
  have "fleet_trace ws rs keccak256 S given ?F"
  proof (rule trace_quiet [OF assms(6) 1])
    fix k
    assume "k < length (fl_workers F)"
    then show "on_attempt (fl_workers ?F ! k) \<in> {None, on_attempt (fl_workers F ! k)}"
      by (cases "k = i") (simp_all add: put_back_def goto_def on_attempt_def)
  qed
  then have "fleet_trace ws rs keccak256 S (given @ [(j_id j, j_attempts j)]) (put_back i ?r ?F)"
    by (rule trace_given [OF _ 2, where i = i]) (use assms(1) in \<open>simp_all add: put_back_def goto_def on_attempt_def\<close>)
  then show ?thesis
    using assms(1)
    by (intro exI conjI) (assumption, simp add: put_back_def, simp_all add: view_after set_world_def)
qed

lemma first_attempt_traced: "\<exists>F x. fleet_trace two_workers [sample_config] id three_started [x] F \<and> fst x = 7"
proof -
  have "case lease_next [] ''w'' 180000000 5 queued_db of Inr (Some j, db) \<Rightarrow> j_id j = 7 | _ \<Rightarrow> False"
    by code_simp
  then obtain j db where l: "lease_next [] ''w'' 180000000 5 queued_db = Inr (Some j, db)" "j_id j = 7"
    by (auto split: sum.splits option.splits)
  from worker_takes_job [of 0 three_started two_workers 5 j db "[sample_config]" id, OF _ _ _ _ _ trace_start] l
  show ?thesis
    by (auto simp: three_started_def start_fleet_views two_workers_def start_run_def is_requested_def shutdown_def)
qed

theorem no_two_workers_on_one_attempt_witness:
  "\<exists>F j j'. fleet_trace two_workers [sample_config] id three_started [(7, j_attempts j), (7, j_attempts j')] F \<and>
     held_job (pr_pc (view F 0)) = Some j \<and> held_job (pr_pc (view F 1)) = Some j' \<and> j_id j = 7 \<and> j_id j' = 7 \<and>
     j_attempts j \<noteq> j_attempts j'"
proof -
  let ?ok = "\<lambda>res P. case res of Inr (x, db) \<Rightarrow> P x db | Inl _ \<Rightarrow> False"
  have ok: "?ok res P \<Longrightarrow> \<exists>x db. res = Inr (x, db) \<and> P x db"
    for res :: "store_error + 'a \<times> db" and P by (auto split: sum.splits)
  have "?ok (lease_next [] ''w'' 180000000 5 queued_db) (\<lambda>m db1. map_option j_id m = Some 7 \<and>
      ?ok (reap_expired_leases [] ''r'' 200000000 db1) (\<lambda>_ db2.
        ?ok (lease_next [] ''w'' 180000000 200000001 db2) (\<lambda>m' _. map_option j_id m' = Some 7)))"
    by code_simp
  then obtain m db1 ids db2 m' db3 where ops: "lease_next [] ''w'' 180000000 5 queued_db = Inr (m, db1)"
      "reap_expired_leases [] ''r'' 200000000 db1 = Inr (ids, db2)"
      "lease_next [] ''w'' 180000000 200000001 db2 = Inr (m', db3)"
      "map_option j_id m = Some 7" "map_option j_id m' = Some 7"
    by (blast dest!: ok)
  then obtain j j' where l: "lease_next [] ''w'' 180000000 5 queued_db = Inr (Some j, db1)"
      "reap_expired_leases [] ''r'' 200000000 db1 = Inr (ids, db2)"
      "lease_next [] ''w'' 180000000 200000001 db2 = Inr (Some j', db3)" and i: "j_id j = 7" "j_id j' = 7"
    by auto
  let ?step = "fleet_step two_workers [sample_config] id"
  have s: "length (fl_workers three_started) = 2" "fl_db three_started = queued_db"
    "two_workers ! 0 = stalled_worker" "two_workers ! 1 = stalled_worker"
    "k < 2 \<Longrightarrow> pr_pc (view three_started k) = P_Top \<and> pr_channel (view three_started k) = shutdown" for k
    by (cases k; simp add: three_started_def start_fleet_views two_workers_def start_run_def)+
  let ?trace = "fleet_trace two_workers [sample_config] id three_started"
  obtain F where F: "?trace [(7, j_attempts j)] F" "fl_db F = db1" "pr_pc (view F 0) = P_Leased j"
      "pr_pc (view F 1) = P_Top" "pr_channel (view F 1) = shutdown"
    using worker_takes_job [of 0 three_started two_workers 5 j db1 "[sample_config]" id, OF _ _ _ _ _ trace_start]
      s(1-4) s(5) [of 0] s(5) [of 1] l(1) i
    by (auto simp: is_requested_def shutdown_def)
  note run = fleet_trace_run [OF F(1)]
  have ok1: "store_ok db1" using fleet_run_refines [OF run] s(2) F(2) sample_ok(1) by (simp add: refines_def)
  let ?G = "F\<lparr> fl_db := db2, fl_mirror := fl_mirror F \<rparr>"
  have "db_steps db1 db2" using reap_expired_leases_steps [OF l(2) store_ok_ids [OF ok1]] by blast
  then have 2: "?step F ?G" using F(2) by (intro others_move) simp
  have 3: "?trace [(7, j_attempts j)] ?G" by (rule trace_quiet [OF F(1) 2]) simp
  have len: "length (fl_workers F) = 2" using fleet_run_lengths [OF run] s(1) by simp
  have G: "pr_pc (view ?G 0) = P_Leased j" "pr_pc (view ?G 1) = P_Top" "pr_channel (view ?G 1) = shutdown"
    using F by (simp_all add: view_def Let_def)
  obtain H where H: "?trace [(7, j_attempts j), (7, j_attempts j')] H" "pr_pc (view H 1) = P_Leased j'"
      "pr_pc (view H 0) = P_Leased j"
    using worker_takes_job [of 1 ?G two_workers 200000001 j' db3 "[sample_config]" id, OF _ _ _ _ _ 3] s(4) len G l(3) i
    by (auto simp: is_requested_def shutdown_def)
  from no_two_workers_on_one_attempt [OF sample_ok(1) H(1) [unfolded three_started_def]]
  have "j_attempts j \<noteq> j_attempts j'" by simp
  with H i show ?thesis by (intro exI conjI) (rule H(1), simp_all)
qed

end
