(* ===== verification/Scratch.thy ===== *)
theory Scratch
  imports Artifacts
begin

text \<open>
  The scratch directory of an attempt: \<open>Scratch\<close> of \<open>crates/dray-worker/src/bounded.rs\<close>, which \<open>prove\<close> of
  \<open>prover.rs\<close> makes under the label of the attempt and which is removed when it is dropped, at the return of
  \<open>prove\<close> or where its future is. The scratch root is a directory; its path is made by \<open>absolute\<close>. That
  attempts of a fleet have labels of their own is in \<open>Fleet_Attempts\<close>; that a proof comes from the files of
  its own directory is in \<open>Prover_Files\<close>, where the tools run with no other attempt between their steps.
\<close>

section \<open>One directory\<close>

definition scratch_new :: "(path \<Rightarrow> string option) \<Rightarrow> string \<Rightarrow> dir \<Rightarrow> string + dir" where
  "scratch_new refuse name disk =
     (case create_dir refuse [name] (map_of disk name) of
        Inl e \<Rightarrow> Inl e
      | Inr es \<Rightarrow> Inr (AList.update name (Dir es) disk))"

text \<open>\<open>remains\<close> is what the operating system leaves of a directory it could not remove; the error is ignored.\<close>

definition scratch_drop :: "node option \<Rightarrow> string \<Rightarrow> dir \<Rightarrow> dir" where
  "scratch_drop remains name disk =
     (case (map_of disk name, remains) of
        (None, _) \<Rightarrow> disk
      | (Some _, None) \<Rightarrow> AList.delete name disk
      | (Some _, Some n) \<Rightarrow> AList.update name n disk)"

lemma map_of_scratch_new: "scratch_new refuse name disk = Inr disk' \<Longrightarrow> l \<noteq> name \<Longrightarrow> map_of disk' l = map_of disk l"
  by (auto simp: scratch_new_def update_conv' split: sum.splits)

lemma map_of_scratch_drop:
  "map_of (scratch_drop remains name disk) l =
     (if l = name \<and> map_of disk l \<noteq> None then remains else map_of disk l)"
  by (auto simp: scratch_drop_def update_conv' delete_conv' split: option.split)

text \<open>
  Whatever was done in the directory, dropping it leaves the root as it was before it was made, when its
  name was free and it could be removed; and no other entry is ever touched.
\<close>

lemma scratch_leaves_nothing:
  assumes "scratch_new refuse name disk = Inr disk'"
  shows "map_of (scratch_drop remains name (AList.update name n disk')) l =
    (if l = name then remains else map_of disk l)"
  using map_of_scratch_new [OF assms] by (simp add: map_of_scratch_drop update_conv')

end
