(* ===== verification/Spec2Isabelle.thy ===== *)
theory Spec2Isabelle
  imports Job Job_Identity Chain Store_Properties Relayer_Properties Prover_Toml Processes Cli Fleet_Attempts Scratch
begin

text \<open>
  A verification development for Dray, a queue that takes proving jobs over HTTP, proves them on workers
  and settles the proofs on a chain. It models the Rust crates under \<open>src/crates\<close> and the tables under
  \<open>src/migrations\<close>.

  \<^bold>\<open>The program.\<close> A client posts a circuit and its inputs to the API, which validates them, computes a hash of
  their canonical form and inserts a queued job, or finds the one that is there. A worker leases the
  oldest eligible job, renews its lease by a heartbeat, runs \<open>nargo\<close> and \<open>bb\<close> under limits, and records the
  proof or the failure. A relayer leases proved jobs, sends one settlement transaction, bumps its price
  while it is stuck, waits until it is buried, and watches for reorganisations. Workers and relayers reap
  expired leases of either kind. PostgreSQL holds everything; Redis holds a mirror of the leases that is
  allowed to be wrong; the three services share nothing else.

  \<^bold>\<open>Where each part is.\<close>
  \<^item> \<open>Dray_Prelude\<close>, \<open>Rust_Std\<close>, \<open>Escaping\<close>: words and saturating operations, the error monad and its rules
    (\<open>res_iff\<close>, \<open>unat_ops\<close>), updates of tables by rows, the contract \<open>preserved\<close> (what every step keeps, a run
    keeps), decimal and hexadecimal text, \<open>BTreeMap\<close> insertion, and the contract \<open>char_escape\<close> of an escaped
    text, whose instances are the JSON writer, the TOML writer and the metric labels.
  \<^item> \<open>Job\<close>: \<open>dray-core/src/job.rs\<close>, the state machine. \<open>Canonical\<close>, \<open>Canonical_Unique\<close>, \<open>Job_Identity\<close>:
    \<open>dray-core/src/canonical.rs\<close>, the canonical text, its unique reading, and what a hash identifies.
  \<^item> \<open>Store_Schema\<close>, \<open>Store\<close>: the tables with their constraints and every operation of
    \<open>dray-store/src/lib.rs\<close>. \<open>store_op\<close> lists what the services call, \<open>public_op\<close> adds \<open>apply_event\<close>, which
    only tests and other callers use and which can take a job into flight without a holder. A table is the list of its rows, an operation is one transaction on it, and the
    rows other transactions have locked are an argument where the source says \<open>SKIP LOCKED\<close>. \<open>Store_Moves\<close>
    shows that each operation is a sequence of small steps, \<open>Store_Invariants\<close> that these keep the
    invariant \<open>store_ok\<close>, \<open>Lease_Queue\<close> states both leases as one contract, \<open>Store_Properties\<close> draws the
    consequences.
  \<^item> \<open>Leases\<close>: \<open>dray-store/src/leases.rs\<close>, the mirror. \<open>Service\<close>: a call of a service to the store, which can
    fail to reach it.
  \<^item> \<open>Floats\<close>, \<open>Backoff\<close>, \<open>Bounded\<close>, \<open>Prover\<close>, \<open>Prover_Toml\<close>, \<open>Artifacts\<close>, \<open>Prover_Files\<close>, \<open>Metrics\<close>, \<open>Worker\<close>,
    \<open>Worker_Properties\<close>, \<open>Lease_Safety\<close>: \<open>dray-worker\<close>. \<open>Floats\<close> has the
    rounding of 64-bit floats and its error, used by \<open>Backoff\<close> and \<open>Metrics\<close>. \<open>Prover\<close> has \<open>prove\<close> over arbitrary answers of the
    machine, \<open>Artifacts\<close> has \<open>prepare\<close> on directories, and \<open>Prover_Files\<close> gives \<open>prove\<close> the answers such
    directories give. \<open>Prover_Toml\<close> reads \<open>Prover.toml\<close> back; \<open>Lease_Safety\<close> is about a worker among others.
  \<^item> \<open>Gas\<close>, \<open>Failure\<close>, \<open>Chain\<close>, \<open>Chain_Client\<close>, \<open>Relayer\<close>, \<open>Relayer_Facts\<close>, \<open>Relayer_Properties\<close>:
    \<open>dray-relayer\<close>. The nonce is in \<open>Chain\<close>; the transactions that reach a node are in \<open>Chain_Client\<close>.
  \<^item> \<open>Validate\<close>, \<open>Api\<close>: \<open>dray-api\<close>. \<open>Cli\<close>: \<open>dray-cli\<close>. \<open>Config\<close>: the three \<open>config.rs\<close>. \<open>Processes\<close>: the
    start of the three processes, which composes the others.
  \<^item> \<open>Services\<close>: the composition. The store implements the job state machine: \<open>board_of\<close> abstracts the
    tables to the states of the jobs, \<open>board_public\<close> says for every operation what it may do to them, and an
    operation that is refused does nothing. The API, the workers and the relayers change the tables only by steps of
    the store, so that its invariants and the machine's hold of all of them together.
  \<^item> \<open>Tasks\<close>: \<open>dray-worker/src/task.rs\<close>, the shutdown channel of \<open>worker.rs\<close> and \<open>relayer.rs\<close>, and
    \<open>await_signals\<close> of \<open>main.rs\<close>. \<open>Worker_Process\<close>, \<open>Worker_Runs\<close>, \<open>Relayer_Process\<close>: the same \<open>run\<close>,
    \<open>attempt\<close> and \<open>settle\<close> as in \<open>Worker\<close> and \<open>Relayer\<close>, cut at every wait, as step relations in which the
    main task, its spawned tasks, the signals and other processes take turns. The lemmas \<open>turn_is_a_run\<close> and
    \<open>uninterrupted_settlement_is_settle\<close> check the two renderings of the same lines against each other.
  \<^item> \<open>Fleet\<close>, \<open>Fleet_Attempts\<close>: any number of worker and relayer processes over one database and one mirror.
    Every step of each is a step of the store, every process of a fleet makes a run of its own, and an
    attempt is given out once. \<open>Scratch\<close>: making and removing a scratch directory, of
    \<open>dray-worker/src/bounded.rs\<close>.

  \<^bold>\<open>How the code is rendered.\<close> Names are the source's, with a prefix where they clash; record fields carry the
  prefix of their type (\<open>j_state\<close>, \<open>s_tx_hash\<close>). Strings and byte vectors are lists of characters, a \<open>str\<close> its
  UTF-8 bytes. \<open>u32\<close>, \<open>u64\<close> and \<open>u128\<close> are words, with \<open>saturating_\<close> and \<open>checked_\<close> operations as in the
  source; the columns of the tables are integers with the checks of the schema, and \<open>f64\<close> is a
  rational that every operation rounds to 53 bits, half to even (no value here is subnormal or too large). Results are sums with the source's errors on the left.
  Mutation is state passing. Time, locks, the answers of the database, the node, Redis, the file system
  and the tools are arguments of each operation: records of observations (\<open>store_obs\<close>, \<open>track_obs\<close>,
  \<open>settle_obs\<close>, \<open>attempt_obs\<close>, \<open>turn_obs\<close>, \<open>call_obs\<close>, \<open>prover_world\<close>, \<open>prepare_world\<close>), so that a theorem
  over all of them covers every failure and every order. Where a service waits, what other processes do
  to the tables meanwhile is one more such argument.

  \<^bold>\<open>Loops.\<close> Recursion is structural or has a measure. The loops that run until a shutdown or a settlement
  take one observation per turn, so a run is as long as its list; \<open>tracker_can_wait_for_ever\<close> says that no
  list is long enough there, and \<open>bumps_end\<close> that bumping does end. The step relations bound nothing: runs
  are of any length, \<open>requested_worker_stops\<close> and \<open>relayer_stops_with_its_tasks\<close> count the steps that are
  left once shutdown was requested. The reader of \<open>Prover.toml\<close>, which is
  specification, has fuel; its theorem says that all fuel from some point on gives the result.

  \<^bold>\<open>Parameters.\<close> SHA-256, Keccak-256, the ABI encoding of \<open>settle\<close>, the JSON Schema validator, the Redis
  commands (with the hypothesis \<open>redis_up\<close>: \<open>SET\<close>, \<open>GET\<close> and \<open>DEL\<close> do what they are documented to), the parsers
  of keys, addresses and UUIDs, the formatting of dates, and \<open>nargo\<close> and \<open>bb\<close> (with the hypothesis
  \<open>writes_key\<close> where the key is needed). Each theorem with such a hypothesis has an instance with concrete
  functions beside it.

  \<^bold>\<open>Not modelled.\<close> The contracts and circuits (other languages; reached only through the node and the tools).
  Sockets, log set-up, connecting and pooling; sleeping is that a timer may have elapsed at any step. An
  aborted task ends at once in the model and at its next wait in the program, and a query takes effect
  together with its answer, so one that was sent by a task that is then aborted is not followed further. A
  poll of the tracker and what \<open>settle\<close> reads before it sends are single steps, and so is a whole proof:
  other attempts on the host do not act between the tools. A database call that is answered by an error
  changed nothing; a commit whose acknowledgement is lost is not modelled, nor is PostgreSQL's refusal of a
  NUL character in text, which \<open>enqueue\<close> can meet. The layers of the HTTP server
  and the extraction of requests, which are the libraries'. White space beyond ASCII in \<open>trim\<close>, symbolic
  links and the modes of files. Indexes that are not unique, and cascades, which nothing triggers.
\<close>

end
